(* ===== verification/Prelude.thy ===== *)
theory Prelude
  imports Complex_Main "HOL-Library.AList" "HOL-Library.List_Lexorder" "HOL-Library.Char_ord"
begin

text \<open>
  The vocabulary every component of the development shares: Python exceptions as values,
  dynamically typed values (what JSON and keyword arguments can be), the string operations the
  code calls, dictionaries as association lists in insertion order, and the lemmas about them.
  Strings are ASCII: the code's identifiers, hashes and status words are.
\<close>

named_theorems res_simps
named_theorems dict_simps

section \<open>Exceptions and results\<close>

text \<open>
  A function that may raise returns \<open>Inl e\<close> for the exception and \<open>Inr v\<close> for its value.
  The constructors are the exception classes the modelled code raises or catches by name.
\<close>

datatype exn =
    ValueError string
  | TypeError string
  | RuntimeError string
  | KeyError string
  | OSError string
  | AuthorityLost string
  | AttributeError string
  | StopIteration

type_synonym 'a res = "exn + 'a"

definition rbind :: "'a res \<Rightarrow> ('a \<Rightarrow> 'b res) \<Rightarrow> 'b res" where
  "rbind m f = (case m of Inl e \<Rightarrow> Inl e | Inr x \<Rightarrow> f x)"

lemma rbind_simps [simp, res_simps]:
  "rbind (Inl e) f = Inl e"
  "rbind (Inr x) f = f x"
  by (simp_all add: rbind_def)

lemma rbind_Inr_iff [res_simps]:
  "rbind m f = Inr y \<longleftrightarrow> (\<exists>x. m = Inr x \<and> f x = Inr y)"
  by (cases m) auto

lemma rbind_Inl_iff [res_simps]:
  "rbind m f = Inl e \<longleftrightarrow> m = Inl e \<or> (\<exists>x. m = Inr x \<and> f x = Inl e)"
  by (cases m) auto

text \<open>A comprehension whose body may raise: the first exception ends it.\<close>

fun map_res :: "('a \<Rightarrow> 'b res) \<Rightarrow> 'a list \<Rightarrow> 'b list res" where
  "map_res f [] = Inr []"
| "map_res f (x # xs) = rbind (f x) (\<lambda>y. rbind (map_res f xs) (\<lambda>ys. Inr (y # ys)))"

lemma map_res_Inr_iff:
  "map_res f xs = Inr ys \<longleftrightarrow> list_all2 (\<lambda>x y. f x = Inr y) xs ys"
  by (induction xs arbitrary: ys) (auto simp: rbind_Inr_iff list_all2_Cons1)

lemma map_res_length: "map_res f xs = Inr ys \<Longrightarrow> length ys = length xs"
  by (auto simp: map_res_Inr_iff list_all2_lengthD)

lemma map_res_set:
  "map_res f xs = Inr ys \<Longrightarrow> y \<in> set ys \<Longrightarrow> \<exists>x \<in> set xs. f x = Inr y"
  by (auto simp: map_res_Inr_iff list_all2_conv_all_nth set_conv_nth)

section \<open>Dynamically typed values\<close>

text \<open>
  What \<open>json.loads\<close> returns and what a caller may pass for an unchecked argument. Numbers with a
  fraction are kept exactly (\<open>rat\<close>); the rounding of binary floats is not modelled.
\<close>

datatype pyval =
    PNone
  | PBool bool
  | PInt int
  | PFloat rat
  | PStr string
  | PList "pyval list"
  | PDict "(string \<times> pyval) list"

text \<open>
  \<open>isinstance(value, bool) or not isinstance(value, int) or value <= 0\<close> is the code's test for
  "not a positive integer"; in Python \<open>True\<close> is an \<open>int\<close>, which is why it is tested first.
\<close>

fun positive_int :: "pyval \<Rightarrow> bool" where
  "positive_int (PInt n) = (0 < n)"
| "positive_int _ = False"

fun int_of :: "pyval \<Rightarrow> int" where
  "int_of (PInt n) = n"
| "int_of _ = 0"

lemma positive_intE:
  assumes "positive_int v"
  obtains n where "v = PInt n" and "0 < n" and "int_of v = n"
  using assms by (cases v) auto

lemma positive_int_int_of: "positive_int v \<Longrightarrow> 0 < int_of v"
  by (cases v) auto

section \<open>Strings\<close>

definition is_py_space :: "char \<Rightarrow> bool" where
  "is_py_space c \<longleftrightarrow>
     (of_char c :: nat) = 32 \<or> (9 \<le> (of_char c :: nat) \<and> (of_char c :: nat) \<le> 13) \<or>
     (28 \<le> (of_char c :: nat) \<and> (of_char c :: nat) \<le> 31)"

definition py_lstrip :: "string \<Rightarrow> string" where
  "py_lstrip s = dropWhile is_py_space s"

definition py_strip :: "string \<Rightarrow> string" where
  "py_strip s = rev (dropWhile is_py_space (rev (dropWhile is_py_space s)))"

lemma py_strip_Nil [simp]: "py_strip [] = []"
  by (simp add: py_strip_def)

lemma py_strip_empty_iff: "py_strip s = [] \<longleftrightarrow> (\<forall>c \<in> set s. is_py_space c)"
proof
  assume "py_strip s = []"
  then have *: "\<forall>c \<in> set (dropWhile is_py_space s). is_py_space c"
    by (simp add: py_strip_def)
  show "\<forall>c \<in> set s. is_py_space c"
  proof (cases "dropWhile is_py_space s")
    case Nil
    then show ?thesis by simp
  next
    case (Cons c cs)
    then have "\<not> is_py_space c" using hd_dropWhile [of is_py_space s] by simp
    with * Cons show ?thesis by simp
  qed
next
  assume "\<forall>c \<in> set s. is_py_space c"
  then have "dropWhile is_py_space s = []" by simp
  then show "py_strip s = []" by (simp only: py_strip_def rev.simps dropWhile.simps)
qed

lemma py_strip_id:
  assumes "s \<noteq> []" "\<not> is_py_space (hd s)" "\<not> is_py_space (last s)"
  shows "py_strip s = s"
proof -
  have "dropWhile is_py_space s = s" using assms by (cases s) auto
  moreover have "dropWhile is_py_space (rev s) = rev s"
    using assms by (cases "rev s") (auto simp: hd_rev [symmetric])
  ultimately show ?thesis by (simp add: py_strip_def)
qed

lemma py_strip_ends:
  assumes "py_strip s \<noteq> []"
  shows "\<not> is_py_space (hd (py_strip s))" and "\<not> is_py_space (last (py_strip s))"
proof -
  let ?u = "dropWhile is_py_space s"
  let ?w = "dropWhile is_py_space (rev ?u)"
  have w: "?w \<noteq> []" using assms by (simp add: py_strip_def)
  then have "\<not> is_py_space (hd ?w)" by (rule hd_dropWhile)
  with w show "\<not> is_py_space (last (py_strip s))" by (simp add: py_strip_def last_rev)
  have "?u \<noteq> []" using w by (metis dropWhile.simps(1) rev.simps(1))
  then have hu: "\<not> is_py_space (hd ?u)" by (rule hd_dropWhile)
  have "rev ?u = takeWhile is_py_space (rev ?u) @ ?w" by simp
  then have "?u = rev ?w @ rev (takeWhile is_py_space (rev ?u))"
    by (metis rev_append rev_rev_ident)
  then have "hd ?u = hd (rev ?w)" using w by (metis hd_append2 rev_is_Nil_conv)
  with hu show "\<not> is_py_space (hd (py_strip s))" by (simp add: py_strip_def)
qed

lemma py_strip_idem [simp]: "py_strip (py_strip s) = py_strip s"
  by (cases "py_strip s = []") (auto intro!: py_strip_id dest: py_strip_ends)

definition is_digit :: "char \<Rightarrow> bool" where
  "is_digit c \<longleftrightarrow> (48 \<le> (of_char c :: nat) \<and> (of_char c :: nat) \<le> 57)"

definition is_lower :: "char \<Rightarrow> bool" where
  "is_lower c \<longleftrightarrow> (97 \<le> (of_char c :: nat) \<and> (of_char c :: nat) \<le> 122)"

definition is_upper :: "char \<Rightarrow> bool" where
  "is_upper c \<longleftrightarrow> (65 \<le> (of_char c :: nat) \<and> (of_char c :: nat) \<le> 90)"

definition is_alnum :: "char \<Rightarrow> bool" where
  "is_alnum c \<longleftrightarrow> is_digit c \<or> is_lower c \<or> is_upper c"

definition is_hex_lower :: "char \<Rightarrow> bool" where
  "is_hex_lower c \<longleftrightarrow> is_digit c \<or> (97 \<le> (of_char c :: nat) \<and> (of_char c :: nat) \<le> 102)"

text \<open>The same classes over binary integers, which is how evaluation computes them.\<close>

lemma of_char_int: "(of_char c :: int) = int (of_char c)"
  by (simp add: of_nat_of_char)

lemma char_class_code [code]:
  "is_digit c = (let n = (of_char c :: int) in 48 \<le> n \<and> n \<le> 57)"
  "is_lower c = (let n = (of_char c :: int) in 97 \<le> n \<and> n \<le> 122)"
  "is_upper c = (let n = (of_char c :: int) in 65 \<le> n \<and> n \<le> 90)"
  "is_hex_lower c = (let n = (of_char c :: int) in 48 \<le> n \<and> n \<le> 57 \<or> 97 \<le> n \<and> n \<le> 102)"
  "is_py_space c = (let n = (of_char c :: int) in
     n = 32 \<or> (9 \<le> n \<and> n \<le> 13) \<or> (28 \<le> n \<and> n \<le> 31))"
  by (auto simp: is_digit_def is_lower_def is_upper_def is_hex_lower_def is_py_space_def Let_def
      of_char_int)

definition lower_char :: "char \<Rightarrow> char" where
  "lower_char c = (if is_upper c then char_of ((of_char c :: nat) + 32) else c)"

definition py_lower :: "string \<Rightarrow> string" where
  "py_lower s = map lower_char s"

lemma length_py_lower [simp]: "length (py_lower s) = length s"
  by (simp add: py_lower_def)

lemma lower_char_not_upper: "\<not> is_upper (lower_char c)"
proof (cases "is_upper c")
  case True
  then have n: "65 \<le> (of_char c :: nat)" "(of_char c :: nat) \<le> 90"
    by (simp_all add: is_upper_def)
  then have "(of_char (lower_char c) :: nat) = of_char c + 32"
    using True by (simp add: lower_char_def)
  with n show ?thesis by (simp add: is_upper_def)
qed (simp add: lower_char_def)

lemma lower_char_idem [simp]: "lower_char (lower_char c) = lower_char c"
  using lower_char_not_upper [of c] by (simp add: lower_char_def [of "lower_char c"])

lemma py_lower_idem [simp]: "py_lower (py_lower s) = py_lower s"
  by (simp add: py_lower_def)

section \<open>Splitting\<close>

text \<open>The pieces of a text between separator characters; an empty text has one empty piece.\<close>

fun split_on :: "('a \<Rightarrow> bool) \<Rightarrow> 'a list \<Rightarrow> 'a list list" where
  "split_on p [] = [[]]"
| "split_on p (c # cs) =
     (if p c then [] # split_on p cs
      else case split_on p cs of [] \<Rightarrow> [[c]] | x # xs \<Rightarrow> (c # x) # xs)"

lemma split_on_nonempty [simp]: "split_on p s \<noteq> []"
  by (cases s) (auto split: list.splits)

lemma split_on_pieces_all: "\<forall>x \<in> set (split_on p s). \<forall>c \<in> set x. \<not> p c \<and> c \<in> set s"
  by (induction s) (auto split: list.splits)

lemma split_on_pieces: "x \<in> set (split_on p s) \<Longrightarrow> c \<in> set x \<Longrightarrow> \<not> p c \<and> c \<in> set s"
  using split_on_pieces_all by metis

lemma split_on_none: "\<forall>c \<in> set s. \<not> p c \<Longrightarrow> split_on p s = [s]"
  by (induction s) auto

lemma split_on_sep:
  assumes "\<forall>c \<in> set x. \<not> p c" "p d"
  shows "split_on p (x @ d # s) = x # split_on p s"
  using assms by (induction x) auto

text \<open>\<open>sep.join(parts)\<close> for a one-character separator.\<close>

fun join_with :: "'a \<Rightarrow> 'a list list \<Rightarrow> 'a list" where
  "join_with c [] = []"
| "join_with c [x] = x"
| "join_with c (x # y # xs) = x @ c # join_with c (y # xs)"

lemma split_join:
  assumes "xs \<noteq> []" and "\<forall>x \<in> set xs. c \<notin> set x"
  shows "split_on (\<lambda>d. d = c) (join_with c xs) = xs"
  using assms
proof (induction c xs rule: join_with.induct)
  case (2 c x)
  then have "\<forall>d \<in> set x. \<not> d = c" by auto
  then show ?case by (simp add: split_on_none)
next
  case (3 c x y xs)
  then have "\<forall>d \<in> set x. \<not> d = c" by auto
  with 3 show ?case by (simp add: split_on_sep)
qed simp

lemma join_split: "join_with c (split_on (\<lambda>d. d = c) s) = s"
proof (induction s)
  case Nil
  then show ?case by simp
next
  case (Cons d s)
  obtain x xs where x: "split_on (\<lambda>d. d = c) s = x # xs"
    by (meson list.exhaust split_on_nonempty)
  with Cons show ?case by (cases xs) auto
qed

section \<open>Dictionaries\<close>

text \<open>
  A Python dictionary keeps its insertion order and an assignment to a present key keeps the
  key's place: exactly \<^const>\<open>AList.update\<close> on an association list with distinct keys.
  Reading is \<^const>\<open>map_of\<close>, \<open>pop\<close> is \<^const>\<open>AList.delete\<close>.
\<close>

type_synonym 'v dict = "(string \<times> 'v) list"

abbreviation dict_ok :: "('k \<times> 'v) list \<Rightarrow> bool" where
  "dict_ok d \<equiv> distinct (map fst d)"

lemma dict_ok_update [simp]: "dict_ok d \<Longrightarrow> dict_ok (AList.update k v d)"
  by (rule distinct_update)

lemma dict_ok_delete [simp]: "dict_ok d \<Longrightarrow> dict_ok (AList.delete k d)"
  by (rule distinct_delete)

lemma map_of_update [simp, dict_simps]:
  "map_of (AList.update k v d) j = (if j = k then Some v else map_of d j)"
  by (simp add: update_conv)

lemma map_of_delete [simp, dict_simps]:
  "map_of (AList.delete k d) j = (if j = k then None else map_of d j)"
  by (simp add: delete_conv)

lemma update_new: "k \<notin> fst ` set d \<Longrightarrow> AList.update k v d = d @ [(k, v)]"
  by (induction d) auto

lemma delete_append: "AList.delete k (xs @ ys) = AList.delete k xs @ AList.delete k ys"
  by (simp add: AList.delete_eq)

lemma delete_absent: "k \<notin> fst ` set d \<Longrightarrow> AList.delete k d = d"
  by (induction d) auto

lemma in_set_update:
  "(j, w) \<in> set (AList.update k v d) \<Longrightarrow> (j = k \<and> w = v) \<or> (j, w) \<in> set d"
  by (induction d) (auto split: if_splits)

lemma dict_unique: "dict_ok d \<Longrightarrow> (k, v) \<in> set d \<Longrightarrow> (k, w) \<in> set d \<Longrightarrow> v = w"
  by (metis map_of_is_SomeI option.inject)

lemma map_of_snoc:
  "k \<notin> fst ` set d \<Longrightarrow> map_of (d @ [(k, v)]) u = (if u = k then Some v else map_of d u)"
  by (induction d) auto

text \<open>
  A dictionary entry taken out and the sum of a measure over the values: the law the resource
  accounting rests on.
\<close>

lemma sum_list_delete:
  fixes f :: "'v \<Rightarrow> int"
  assumes "dict_ok d" and "map_of d k = Some v"
  shows "sum_list (map (f \<circ> snd) d) = f v + sum_list (map (f \<circ> snd) (AList.delete k d))"
  using assms
proof (induction d)
  case Nil
  then show ?case by simp
next
  case (Cons p d)
  show ?case
  proof (cases "fst p = k")
    case True
    with Cons.prems have "k \<notin> fst ` set d" and "snd p = v" by (auto simp: prod_eq_iff)
    with True show ?thesis by (cases p) (simp add: delete_absent)
  next
    case False
    with Cons show ?thesis by (cases p) auto
  qed
qed

lemma length_delete:
  assumes "dict_ok d" and "map_of d k = Some v"
  shows "length d = Suc (length (AList.delete k d))"
  using assms
proof (induction d)
  case Nil
  then show ?case by simp
next
  case (Cons p d)
  show ?case
  proof (cases "fst p = k")
    case True
    with Cons.prems have "k \<notin> fst ` set d" by auto
    with True show ?thesis by (cases p) (simp add: delete_absent)
  next
    case False
    with Cons show ?thesis by (cases p) auto
  qed
qed

lemma set_delete_dict:
  "set (AList.delete k d) = {p \<in> set d. fst p \<noteq> k}"
  by (auto simp: AList.delete_eq)

text \<open>\<open>d.get(k, v)\<close> on a parsed mapping.\<close>

definition field_or :: "pyval \<Rightarrow> pyval dict \<Rightarrow> string \<Rightarrow> pyval" where
  "field_or v d k = (case map_of d k of None \<Rightarrow> v | Some w \<Rightarrow> w)"

section \<open>Directories that never rebind a name\<close>

text \<open>
  What the clients of a registry rely on: once a name resolves, every later operation leaves it
  resolving to the same value.
\<close>

locale write_once =
  fixes look :: "'s \<Rightarrow> 'k \<Rightarrow> 'v option"
    and step :: "'e \<Rightarrow> 's \<Rightarrow> 's"
  assumes keeps: "look s k = Some v \<Longrightarrow> look (step e s) k = Some v"
begin

lemma keeps_all: "look s k = Some v \<Longrightarrow> look (fold step es s) k = Some v"
  by (induction es arbitrary: s) (auto simp: keeps)

lemma never_rebound:
  assumes "look s k = Some v" "look (fold step es s) k = Some w"
  shows "w = v"
  using keeps_all [OF assms(1)] assms(2) by simp

lemma absent_before:
  assumes "look (fold step es s) k = None"
  shows "look s k = None"
  using assms keeps_all [of s k _ es] by (cases "look s k") auto

end

section \<open>Decimal numerals\<close>

text \<open>
  \<open>str(n)\<close> and f-string interpolation of an integer, and \<open>int(s)\<close> on a string of digits.
\<close>

definition digit_char :: "nat \<Rightarrow> char" where
  "digit_char d = char_of (48 + d)"

definition digit_val :: "char \<Rightarrow> nat" where
  "digit_val c = of_char c - 48"

fun nat_str :: "nat \<Rightarrow> string" where
  "nat_str n = (if n < 10 then [digit_char n] else nat_str (n div 10) @ [digit_char (n mod 10)])"

declare nat_str.simps [simp del]

definition int_str :: "int \<Rightarrow> string" where
  "int_str i = (if i < 0 then CHR ''-'' # nat_str (nat (- i)) else nat_str (nat i))"

definition dec_val :: "string \<Rightarrow> nat" where
  "dec_val s = foldl (\<lambda>v c. 10 * v + digit_val c) 0 s"

definition dec_int :: "string \<Rightarrow> int" where
  "dec_int s = foldl (\<lambda>v c. 10 * v + int (digit_val c)) 0 s"

lemma dec_int_dec_val: "dec_int s = int (dec_val s)"
proof (induction s rule: rev_induct)
  case Nil
  then show ?case by (simp add: dec_int_def dec_val_def)
next
  case (snoc c s)
  then show ?case by (simp add: dec_int_def dec_val_def)
qed

lemma digit_char_code [code]: "digit_char d = char_of (48 + int d)"
  by (metis char_of_nat digit_char_def of_nat_add of_nat_numeral)

lemma digit_val_code [code]: "digit_val c = nat ((of_char c :: int) - 48)"
  by (simp add: digit_val_def of_char_int nat_diff_distrib')

lemma digit_val_char [simp]: "d < 10 \<Longrightarrow> digit_val (digit_char d) = d"
  by (simp add: digit_val_def digit_char_def)

lemma is_digit_char [simp]: "d < 10 \<Longrightarrow> is_digit (digit_char d)"
  by (simp add: is_digit_def digit_char_def)

lemma dec_val_snoc: "dec_val (s @ [c]) = 10 * dec_val s + digit_val c"
  by (simp add: dec_val_def)

lemma dec_val_nat_str [simp]: "dec_val (nat_str n) = n"
proof (induction n rule: nat_str.induct)
  case (1 n)
  show ?case
  proof (cases "n < 10")
    case True
    then show ?thesis by (simp add: nat_str.simps [of n] dec_val_def)
  next
    case False
    with 1 have "dec_val (nat_str (n div 10)) = n div 10" by simp
    with False show ?thesis by (simp add: nat_str.simps [of n] dec_val_snoc)
  qed
qed

lemma nat_str_inj: "nat_str m = nat_str n \<longleftrightarrow> m = n"
  by (metis dec_val_nat_str)

lemma nat_str_digits: "\<forall>c \<in> set (nat_str n). is_digit c"
proof (induction n rule: nat_str.induct)
  case (1 n)
  then show ?case by (cases "n < 10") (simp_all add: nat_str.simps [of n])
qed

lemma nat_str_nonempty: "nat_str n \<noteq> []"
  by (subst nat_str.simps) simp

lemma int_str_inj_pos: "0 \<le> i \<Longrightarrow> 0 \<le> j \<Longrightarrow> int_str i = int_str j \<longleftrightarrow> i = j"
  by (auto simp: int_str_def nat_str_inj)

section \<open>The \<open>repr\<close> of a text\<close>

text \<open>
  What \<open>{value!r}\<close> interpolates: the quote is single unless the text has a single and no double
  quote; characters outside the printable ASCII range are escaped.
\<close>

definition hex_char :: "nat \<Rightarrow> char" where
  "hex_char n = ''0123456789abcdef'' ! n"

definition repr_char :: "char \<Rightarrow> char \<Rightarrow> string" where
  "repr_char quote c =
     (if c = quote \<or> c = CHR 92 then [CHR 92, c]
      else if c = CHR 10 then [CHR 92, CHR ''n'']
      else if c = CHR 13 then [CHR 92, CHR ''r'']
      else if c = CHR 9 then [CHR 92, CHR ''t'']
      else if (of_char c :: int) < 32 \<or> 127 \<le> (of_char c :: int)
      then CHR 92 # ''x'' @ [hex_char (of_char c div 16), hex_char (of_char c mod 16)]
      else [c])"

definition repr_str :: "string \<Rightarrow> string" where
  "repr_str s =
     (let quote = (if CHR 39 \<in> set s \<and> CHR 34 \<notin> set s then CHR 34 else CHR 39)
      in quote # concat (map (repr_char quote) s) @ [quote])"

end
