(* ===== verification/LeaseAuthority.thy ===== *)
theory LeaseAuthority
  imports Prelude
begin

text \<open>
  The interface between the workflow runtime and whatever arbitrates its capacity. The runtime
  asks for leases and gives back the ones it holds; the provider promises that a granted lease is
  new, that a refusal changes nothing, and that its own invariant survives both. What a client
  may conclude from that is proved once, here. The provider is
  \<open>ResourceCoordinator\<close> (theory \<open>Coordinator\<close>).
\<close>

datatype ('r, 'l) lease_op = Acquire 'r | Release 'l

text \<open>
  A client: it keeps the leases it was granted and releases only those. This is how
  \<open>CompiledWorkflowRuntime.run\<close> uses its coordinator (the dictionary \<open>active\<close>).
\<close>

fun lease_step ::
  "('s \<Rightarrow> 'r \<Rightarrow> ('s \<times> 'l option) res) \<Rightarrow> ('s \<Rightarrow> 'l \<Rightarrow> 's) \<Rightarrow> 's \<times> 'l list \<Rightarrow>
   ('r, 'l) lease_op \<Rightarrow> 's \<times> 'l list" where
  "lease_step acquire free (s, active) (Acquire r) =
     (case acquire s r of
        Inr (s', Some l) \<Rightarrow> (s', l # active)
      | Inr (s', None) \<Rightarrow> (s', active)
      | Inl e \<Rightarrow> (s, active))"
| "lease_step acquire free (s, active) (Release l) =
     (if l \<in> set active then (free s l, remove1 l active) else (s, active))"

definition lease_run ::
  "('s \<Rightarrow> 'r \<Rightarrow> ('s \<times> 'l option) res) \<Rightarrow> ('s \<Rightarrow> 'l \<Rightarrow> 's) \<Rightarrow> 's \<times> 'l list \<Rightarrow>
   ('r, 'l) lease_op list \<Rightarrow> 's \<times> 'l list" where
  "lease_run acquire free = foldl (lease_step acquire free)"

definition op_ok :: "('r \<Rightarrow> bool) \<Rightarrow> ('r, 'l) lease_op \<Rightarrow> bool" where
  "op_ok good x = (case x of Acquire r \<Rightarrow> good r | Release l \<Rightarrow> True)"

locale lease_authority =
  fixes inv :: "'s \<Rightarrow> bool"
    and good :: "'r \<Rightarrow> bool"
    and acquire :: "'s \<Rightarrow> 'r \<Rightarrow> ('s \<times> 'l option) res"
    and free :: "'s \<Rightarrow> 'l \<Rightarrow> 's"
    and held :: "'s \<Rightarrow> 'l set"
  assumes acquire_inv: "inv s \<Longrightarrow> good r \<Longrightarrow> acquire s r = Inr (s', ol) \<Longrightarrow> inv s'"
    and acquire_new: "inv s \<Longrightarrow> good r \<Longrightarrow> acquire s r = Inr (s', Some l) \<Longrightarrow> l \<notin> held s"
    and acquire_held:
      "inv s \<Longrightarrow> good r \<Longrightarrow> acquire s r = Inr (s', Some l) \<Longrightarrow> held s' = insert l (held s)"
    and acquire_refused: "acquire s r = Inr (s', None) \<Longrightarrow> s' = s"
    and free_inv: "inv s \<Longrightarrow> l \<in> held s \<Longrightarrow> inv (free s l)"
    and free_held: "inv s \<Longrightarrow> l \<in> held s \<Longrightarrow> held (free s l) = held s - {l}"
begin

lemma step_agrees:
  assumes "inv s" "held s = set active" "distinct active" "op_ok good x"
    and "lease_step acquire free (s, active) x = (s', active')"
  shows "inv s' \<and> held s' = set active' \<and> distinct active'"
proof (cases x)
  case (Release l)
  with assms show ?thesis by (auto simp: free_inv free_held split: if_splits)
next
  case (Acquire r)
  with assms(4) have r: "good r" by (simp add: op_ok_def)
  show ?thesis
  proof (cases "acquire s r")
    case (Inl e)
    with assms Acquire show ?thesis by simp
  next
    case (Inr p)
    show ?thesis
    proof (cases "snd p")
      case None
      with assms Acquire Inr show ?thesis by (cases p) (auto dest: acquire_refused)
    next
      case (Some l)
      with assms Acquire Inr have "acquire s r = Inr (s', Some l)" "active' = l # active"
        by (cases p, simp)+
      with assms r show ?thesis
        by (auto dest: acquire_inv acquire_new acquire_held)
    qed
  qed
qed

text \<open>After any sequence of requests and returns the client's leases are the provider's.\<close>

lemma run_agrees:
  assumes "inv s" "held s = set active" "distinct active" "\<forall>x \<in> set xs. op_ok good x"
    and "lease_run acquire free (s, active) xs = (s', active')"
  shows "inv s' \<and> held s' = set active' \<and> distinct active'"
  using assms
proof (induction xs arbitrary: s active)
  case Nil
  then show ?case by (simp add: lease_run_def)
next
  case (Cons x xs)
  obtain t act where t: "lease_step acquire free (s, active) x = (t, act)"
    by (cases "lease_step acquire free (s, active) x")
  from step_agrees [OF Cons.prems(1-3) _ t] Cons.prems(4)
  have "inv t" "held t = set act" "distinct act" by simp_all
  then show ?case using Cons.IH [of t act] Cons.prems(4,5) t by (simp add: lease_run_def)
qed

lemma run_idle:
  assumes "inv s" "held s = {}" "\<forall>x \<in> set xs. op_ok good x"
    and "lease_run acquire free (s, []) xs = (s', [])"
  shows "inv s'" and "held s' = {}"
  using run_agrees [of s "[]" xs s' "[]"] assms by simp_all

end

end
