(* ===== verification/Coordinator.thy ===== *)
theory Coordinator
  imports LeaseAuthority
begin

text \<open>
  The allocation and its resource leases: \<open>src/qraft/execution/resource_coordinator.py\<close>. The
  coordinator's methods all run under one lock, so each is one step on its state. Host names are
  strings; the three integer capacities and the request's two arrive unchecked and are tested by
  the constructors. Margins are seconds; the clock is not part of this component.
\<close>

section \<open>Allocation and requests\<close>

record allocation =
  total_cpus :: int
  total_nodes :: int
  max_parallel_steps :: int
  hosts :: "string list"
  shutdown_margin_seconds :: rat
  termination_grace_seconds :: rat
  allocation_id :: string

text \<open>\<open>RuntimeAllocation.__post_init__\<close>: the capacities, the margins, the host names, the id.\<close>

definition runtime_allocation ::
  "pyval \<Rightarrow> pyval \<Rightarrow> pyval \<Rightarrow> string list \<Rightarrow> rat \<Rightarrow> rat \<Rightarrow> string \<Rightarrow> allocation res" where
  "runtime_allocation cpus nodes steps hs margin grace aid =
     (if \<not> positive_int cpus then Inl (ValueError ''total_cpus must be a positive integer'')
      else if \<not> positive_int nodes then Inl (ValueError ''total_nodes must be a positive integer'')
      else if \<not> positive_int steps
        then Inl (ValueError ''max_parallel_steps must be a positive integer'')
      else if margin < 0 \<or> grace < 0
        then Inl (ValueError ''shutdown and termination margins cannot be negative'')
      else (let normalized = map py_strip hs in
        if [] \<in> set normalized then Inl (ValueError ''allocation hosts must be non-empty'')
        else if \<not> distinct normalized then Inl (ValueError ''allocation hosts must be unique'')
        else if normalized \<noteq> [] \<and> int (length normalized) \<noteq> int_of nodes
          then Inl (ValueError ''allocation hosts must cover total_nodes exactly'')
        else if py_strip aid = [] then Inl (ValueError ''allocation_id must be non-empty'')
        else Inr \<lparr>total_cpus = int_of cpus, total_nodes = int_of nodes,
                  max_parallel_steps = int_of steps, hosts = normalized,
                  shutdown_margin_seconds = margin, termination_grace_seconds = grace,
                  allocation_id = aid\<rparr>))"

definition allocation_ok :: "allocation \<Rightarrow> bool" where
  "allocation_ok a \<longleftrightarrow>
     0 < total_cpus a \<and> 0 < total_nodes a \<and> 0 < max_parallel_steps a \<and>
     0 \<le> shutdown_margin_seconds a \<and> 0 \<le> termination_grace_seconds a \<and>
     [] \<notin> set (hosts a) \<and> distinct (hosts a) \<and>
     (hosts a = [] \<or> int (length (hosts a)) = total_nodes a) \<and> py_strip (allocation_id a) \<noteq> []"

lemma runtime_allocation_ok:
  "runtime_allocation cpus nodes steps hs margin grace aid = Inr a \<Longrightarrow> allocation_ok a"
  by (auto simp: runtime_allocation_def allocation_ok_def Let_def positive_int_int_of
      split: if_splits)

record request =
  req_task_id :: string
  req_cpus :: int
  req_nodes :: int
  exclusive_hosts :: bool

text \<open>\<open>ResourceRequest.__post_init__\<close>\<close>

definition resource_request :: "string \<Rightarrow> pyval \<Rightarrow> pyval \<Rightarrow> bool \<Rightarrow> request res" where
  "resource_request tid cpus nodes exclusive =
     (if py_strip tid = [] then Inl (ValueError ''resource request requires task_id'')
      else if \<not> positive_int cpus
        then Inl (ValueError ''resource request cpus must be positive'')
      else if \<not> positive_int nodes
        then Inl (ValueError ''resource request nodes must be positive'')
      else Inr \<lparr>req_task_id = tid, req_cpus = int_of cpus, req_nodes = int_of nodes,
                exclusive_hosts = exclusive\<rparr>)"

definition request_ok :: "request \<Rightarrow> bool" where
  "request_ok r \<longleftrightarrow> py_strip (req_task_id r) \<noteq> [] \<and> 0 < req_cpus r \<and> 0 < req_nodes r"

lemma resource_request_ok: "resource_request tid cpus nodes ex = Inr r \<Longrightarrow> request_ok r"
  by (auto simp: resource_request_def request_ok_def positive_int_int_of split: if_splits)

record lease =
  lease_task_id :: string
  lease_cpus :: int
  lease_nodes :: int
  lease_hosts :: "string list"

section \<open>The coordinator\<close>

text \<open>
  \<open>ResourceCoordinator\<close>: the counters, the occupied host names, the host of each shared local
  lease, the active leases by task id, and the high-water marks.
\<close>

record coordinator =
  alloc :: allocation
  used_cpus :: int
  used_nodes :: int
  used_hosts :: "string set"
  local_shared_hosts :: "string dict"
  leases :: "lease dict"
  peak_cpus :: int
  peak_nodes :: int
  peak_steps :: int

definition new_coordinator :: "allocation \<Rightarrow> coordinator" where
  "new_coordinator a =
     \<lparr>alloc = a, used_cpus = 0, used_nodes = 0, used_hosts = {}, local_shared_hosts = [],
      leases = [], peak_cpus = 0, peak_nodes = 0, peak_steps = 0\<rparr>"

definition can_ever_fit :: "coordinator \<Rightarrow> request \<Rightarrow> bool" where
  "can_ever_fit c r =
     (if total_cpus (alloc c) < req_cpus r then False
      else if total_nodes (alloc c) < req_nodes r then False
      else if exclusive_hosts r \<and> int (length (hosts (alloc c))) < req_nodes r then False
      else True)"

text \<open>
  Node accounting: every shared single-node lease sits on one common node; a lease of several
  nodes or with assigned hosts has its nodes to itself.
\<close>

definition is_shared :: "lease \<Rightarrow> bool" where
  "is_shared l \<longleftrightarrow> lease_nodes l = 1 \<and> lease_hosts l = []"

definition dedicated_nodes :: "lease list \<Rightarrow> int" where
  "dedicated_nodes ls =
     sum_list (map lease_nodes (filter (\<lambda>l. 1 < lease_nodes l \<or> lease_hosts l \<noteq> []) ls))"

definition current_node_usage :: "coordinator \<Rightarrow> int" where
  "current_node_usage c =
     (let ls = map snd (leases c) in dedicated_nodes ls + of_bool (list_ex is_shared ls))"

definition node_usage_with :: "coordinator \<Rightarrow> request \<Rightarrow> int" where
  "node_usage_with c r =
     (let ls = map snd (leases c);
          shared = list_ex is_shared ls;
          dedicated = dedicated_nodes ls
      in if req_nodes r = 1 \<and> \<not> exclusive_hosts r then dedicated + of_bool True
         else dedicated + req_nodes r + of_bool shared)"

text \<open>
  \<open>try_acquire\<close>: the caller's errors raise before anything changes; lack of capacity returns no
  lease and leaves the state as it was; otherwise the lease is recorded in every counter.
\<close>

definition grant :: "coordinator \<Rightarrow> request \<Rightarrow> string list \<Rightarrow> string option \<Rightarrow> coordinator \<times> lease" where
  "grant c r hs local =
     (let l = \<lparr>lease_task_id = req_task_id r, lease_cpus = req_cpus r,
               lease_nodes = req_nodes r, lease_hosts = hs\<rparr>;
          ls = AList.update (req_task_id r) l (leases c);
          shared = (case local of None \<Rightarrow> local_shared_hosts c
                    | Some h \<Rightarrow> AList.update (req_task_id r) h (local_shared_hosts c));
          cpus = used_cpus c + req_cpus r;
          nodes = node_usage_with c r
      in (c\<lparr>used_cpus := cpus, used_nodes := nodes, used_hosts := used_hosts c \<union> set hs,
            local_shared_hosts := shared, leases := ls,
            peak_cpus := max (peak_cpus c) cpus, peak_nodes := max (peak_nodes c) nodes,
            peak_steps := max (peak_steps c) (int (length ls))\<rparr>, l))"

definition free_hosts :: "coordinator \<Rightarrow> string list" where
  "free_hosts c =
     filter (\<lambda>h. h \<notin> used_hosts c \<and> h \<notin> set (map snd (local_shared_hosts c))) (hosts (alloc c))"

definition try_acquire ::
  "coordinator \<Rightarrow> request \<Rightarrow> string list \<Rightarrow> string option \<Rightarrow> (coordinator \<times> lease option) res" where
  "try_acquire c r required local =
     (if required \<noteq> [] \<and>
         (\<not> exclusive_hosts r \<or> int (length required) \<noteq> req_nodes r \<or> \<not> distinct required \<or>
          \<not> set required \<subseteq> set (hosts (alloc c)))
      then Inl (ValueError ''resource lease requires unique hosts inside the allocation'')
      else if (case local of None \<Rightarrow> False
               | Some h \<Rightarrow> exclusive_hosts r \<or> req_nodes r \<noteq> 1 \<or> h \<notin> set (hosts (alloc c)))
      then Inl (ValueError ''shared local lease requires one declared allocation host'')
      else if map_of (leases c) (req_task_id r) \<noteq> None
      then Inl (RuntimeError (''duplicate resource lease: '' @ req_task_id r))
      else if max_parallel_steps (alloc c) \<le> int (length (leases c)) then Inr (c, None)
      else if total_cpus (alloc c) - used_cpus c < req_cpus r then Inr (c, None)
      else if total_nodes (alloc c) < node_usage_with c r then Inr (c, None)
      else if (case local of None \<Rightarrow> False | Some h \<Rightarrow> h \<in> used_hosts c) then Inr (c, None)
      else if exclusive_hosts r then
        (let available = free_hosts c in
         if int (length available) < req_nodes r then Inr (c, None)
         else if required \<noteq> [] \<and> \<not> set required \<subseteq> set available then Inr (c, None)
         else let hs = (if required \<noteq> [] then required else take (nat (req_nodes r)) available);
                  (c', l) = grant c r hs local
              in Inr (c', Some l))
      else let (c', l) = grant c r [] local in Inr (c', Some l))"

text \<open>
  \<open>release\<close> takes the record out of the dictionary before it compares it with the caller's
  lease, so the state comes back with the exception: the first component is the state afterwards
  in either case.
\<close>

definition release :: "coordinator \<Rightarrow> lease \<Rightarrow> coordinator \<times> exn option" where
  "release c l =
     (let current = map_of (leases c) (lease_task_id l);
          c1 = c\<lparr>leases := AList.delete (lease_task_id l) (leases c)\<rparr>
      in if current \<noteq> Some l
         then (c1, Some (RuntimeError (''unknown or mismatched resource lease: '' @ lease_task_id l)))
         else let c2 = c1\<lparr>used_cpus := used_cpus c1 - lease_cpus l,
                          local_shared_hosts :=
                            AList.delete (lease_task_id l) (local_shared_hosts c1),
                          used_hosts := used_hosts c1 - set (lease_hosts l)\<rparr>
              in (c2\<lparr>used_nodes := current_node_usage c2\<rparr>, None))"

definition active_task_ids :: "coordinator \<Rightarrow> string list" where
  "active_task_ids c = sort (map fst (leases c))"

definition assert_released :: "coordinator \<Rightarrow> unit res" where
  "assert_released c =
     (if leases c \<noteq> [] \<or> used_cpus c \<noteq> 0 \<or> used_nodes c \<noteq> 0 \<or> used_hosts c \<noteq> {} \<or>
         local_shared_hosts c \<noteq> []
      then Inl (RuntimeError ''resource leases remain active after runtime completion'')
      else Inr ())"

text \<open>\<open>local_allocation\<close>: one step at a time, as large as the largest request.\<close>

definition local_allocation :: "request list \<Rightarrow> allocation res" where
  "local_allocation values =
     (if values = [] then Inl (ValueError ''at least one resource request is required'')
      else runtime_allocation (PInt (Max (set (map req_cpus values))))
             (PInt (Max (set (map req_nodes values)))) (PInt 1) [] 0 0 ''local'')"

section \<open>The accounting invariant\<close>

text \<open>
  A lease is well formed in a coordinator when it is stored under its own task id, asks for
  something, and its assigned hosts are distinct hosts of the allocation, one per node.
\<close>

definition lease_ok :: "coordinator \<Rightarrow> string \<Rightarrow> lease \<Rightarrow> bool" where
  "lease_ok c k l \<longleftrightarrow>
     lease_task_id l = k \<and> 0 < lease_cpus l \<and> 0 < lease_nodes l \<and> distinct (lease_hosts l) \<and>
     set (lease_hosts l) \<subseteq> set (hosts (alloc c)) \<and>
     (lease_hosts l \<noteq> [] \<longrightarrow> int (length (lease_hosts l)) = lease_nodes l)"

definition leases_ok :: "coordinator \<Rightarrow> bool" where
  "leases_ok c \<longleftrightarrow> dict_ok (leases c) \<and> (\<forall>(k, l) \<in> set (leases c). lease_ok c k l)"

definition hosts_apart :: "coordinator \<Rightarrow> bool" where
  "hosts_apart c \<longleftrightarrow>
     (\<forall>(k, l) \<in> set (leases c). \<forall>(k', l') \<in> set (leases c).
        k \<noteq> k' \<longrightarrow> set (lease_hosts l) \<inter> set (lease_hosts l') = {})"

definition shared_ok :: "coordinator \<Rightarrow> bool" where
  "shared_ok c \<longleftrightarrow>
     dict_ok (local_shared_hosts c) \<and>
     (\<forall>(k, h) \<in> set (local_shared_hosts c).
        h \<in> set (hosts (alloc c)) \<and> h \<notin> used_hosts c \<and>
        (\<exists>l. (k, l) \<in> set (leases c) \<and> is_shared l))"

definition counters_ok :: "coordinator \<Rightarrow> bool" where
  "counters_ok c \<longleftrightarrow>
     used_cpus c = sum_list (map (lease_cpus \<circ> snd) (leases c)) \<and>
     used_nodes c = current_node_usage c \<and>
     used_hosts c = (\<Union>l \<in> snd ` set (leases c). set (lease_hosts l))"

definition within_capacity :: "coordinator \<Rightarrow> bool" where
  "within_capacity c \<longleftrightarrow>
     used_cpus c \<le> total_cpus (alloc c) \<and> used_nodes c \<le> total_nodes (alloc c) \<and>
     int (length (leases c)) \<le> max_parallel_steps (alloc c)"

definition peaks_ok :: "coordinator \<Rightarrow> bool" where
  "peaks_ok c \<longleftrightarrow>
     used_cpus c \<le> peak_cpus c \<and> peak_cpus c \<le> total_cpus (alloc c) \<and>
     used_nodes c \<le> peak_nodes c \<and> peak_nodes c \<le> total_nodes (alloc c) \<and>
     int (length (leases c)) \<le> peak_steps c \<and> peak_steps c \<le> max_parallel_steps (alloc c)"

definition coordinator_inv :: "coordinator \<Rightarrow> bool" where
  "coordinator_inv c \<longleftrightarrow>
     allocation_ok (alloc c) \<and> leases_ok c \<and> hosts_apart c \<and> shared_ok c \<and> counters_ok c \<and>
     within_capacity c \<and> peaks_ok c"

named_theorems coordinator_parts
lemmas [coordinator_parts] =
  leases_ok_def hosts_apart_def shared_ok_def counters_ok_def within_capacity_def peaks_ok_def

text \<open>The same quantifiers over entries, in the form the automation takes.\<close>

lemma leases_ok_iff:
  "leases_ok c \<longleftrightarrow> dict_ok (leases c) \<and> (\<forall>k l. (k, l) \<in> set (leases c) \<longrightarrow> lease_ok c k l)"
  by (auto simp: leases_ok_def)

lemma hosts_apart_iff:
  "hosts_apart c \<longleftrightarrow>
     (\<forall>k l k' l' h. (k, l) \<in> set (leases c) \<and> (k', l') \<in> set (leases c) \<and>
        h \<in> set (lease_hosts l) \<and> h \<in> set (lease_hosts l') \<longrightarrow> k = k')"
  by (fastforce simp: hosts_apart_def)

lemma shared_ok_iff:
  "shared_ok c \<longleftrightarrow>
     dict_ok (local_shared_hosts c) \<and>
     (\<forall>k h. (k, h) \<in> set (local_shared_hosts c) \<longrightarrow>
        h \<in> set (hosts (alloc c)) \<and> h \<notin> used_hosts c \<and>
        (\<exists>l. (k, l) \<in> set (leases c) \<and> is_shared l))"
  by (auto simp: shared_ok_def)

lemma shared_okI:
  assumes "dict_ok (local_shared_hosts c)"
    and "\<And>k h. (k, h) \<in> set (local_shared_hosts c) \<Longrightarrow>
           h \<in> set (hosts (alloc c)) \<and> h \<notin> used_hosts c"
    and "\<And>k h. (k, h) \<in> set (local_shared_hosts c) \<Longrightarrow>
           \<exists>l. (k, l) \<in> set (leases c) \<and> is_shared l"
  shows "shared_ok c"
  using assms by (simp add: shared_ok_iff)

lemma shared_okD:
  assumes "shared_ok c"
  shows "dict_ok (local_shared_hosts c)"
    and "(k, h) \<in> set (local_shared_hosts c) \<Longrightarrow> h \<in> set (hosts (alloc c))"
    and "(k, h) \<in> set (local_shared_hosts c) \<Longrightarrow> h \<notin> used_hosts c"
    and "(k, h) \<in> set (local_shared_hosts c) \<Longrightarrow> \<exists>l. (k, l) \<in> set (leases c) \<and> is_shared l"
  using assms by (auto simp: shared_ok_iff)

lemma new_coordinator_inv: "allocation_ok a \<Longrightarrow> coordinator_inv (new_coordinator a)"
  by (simp add: coordinator_inv_def coordinator_parts new_coordinator_def current_node_usage_def
      dedicated_nodes_def allocation_ok_def)

subsection \<open>Node accounting\<close>

lemma dedicated_nodes_append [simp]:
  "dedicated_nodes (xs @ ys) = dedicated_nodes xs + dedicated_nodes ys"
  by (simp add: dedicated_nodes_def)

lemma dedicated_nodes_Nil [simp]: "dedicated_nodes [] = 0"
  by (simp add: dedicated_nodes_def)

lemma dedicated_nodes_single:
  "dedicated_nodes [l] = (if 1 < lease_nodes l \<or> lease_hosts l \<noteq> [] then lease_nodes l else 0)"
  by (simp add: dedicated_nodes_def)

text \<open>The prediction \<open>_node_usage_with\<close> is the usage once the lease is recorded.\<close>

lemma node_usage_with_correct:
  assumes "0 < req_nodes r"
    and "lease_nodes l = req_nodes r"
    and "lease_hosts l \<noteq> [] \<longleftrightarrow> exclusive_hosts r"
  shows "node_usage_with c r = current_node_usage (c\<lparr>leases := leases c @ [(k, l)]\<rparr>)"
  using assms
  by (auto simp: node_usage_with_def current_node_usage_def Let_def dedicated_nodes_single
      is_shared_def)

lemma free_hosts_distinct: "allocation_ok (alloc c) \<Longrightarrow> distinct (free_hosts c)"
  by (simp add: free_hosts_def allocation_ok_def)

lemma free_hosts_in:
  "h \<in> set (free_hosts c) \<longleftrightarrow>
     h \<in> set (hosts (alloc c)) \<and> h \<notin> used_hosts c \<and> h \<notin> snd ` set (local_shared_hosts c)"
  by (auto simp: free_hosts_def)

subsection \<open>Granting a lease\<close>

text \<open>
  The facts a successful \<open>try_acquire\<close> established before it recorded the lease, whatever the
  branch: they are all the invariant needs.
\<close>

definition admissible :: "coordinator \<Rightarrow> request \<Rightarrow> string list \<Rightarrow> string option \<Rightarrow> bool" where
  "admissible c r hs local \<longleftrightarrow>
     map_of (leases c) (req_task_id r) = None \<and>
     int (length (leases c)) < max_parallel_steps (alloc c) \<and>
     used_cpus c + req_cpus r \<le> total_cpus (alloc c) \<and>
     node_usage_with c r \<le> total_nodes (alloc c) \<and>
     (exclusive_hosts r \<longrightarrow> int (length hs) = req_nodes r \<and> distinct hs \<and> set hs \<subseteq> set (free_hosts c)) \<and>
     (\<not> exclusive_hosts r \<longrightarrow> hs = []) \<and>
     (\<forall>h. local = Some h \<longrightarrow>
        \<not> exclusive_hosts r \<and> req_nodes r = 1 \<and> h \<in> set (hosts (alloc c)) \<and> h \<notin> used_hosts c)"

lemma admissible_fresh: "admissible c r hs local \<Longrightarrow> req_task_id r \<notin> fst ` set (leases c)"
  by (simp add: admissible_def map_of_eq_None_iff)

lemma try_acquire_SomeE:
  assumes "allocation_ok (alloc c)" and "0 < req_nodes r"
    and acq: "try_acquire c r required local = Inr (c', Some l)"
  obtains hs where "admissible c r hs local" and "grant c r hs local = (c', l)"
    and "required \<noteq> [] \<longrightarrow> hs = required"
proof -
  let ?take = "take (nat (req_nodes r)) (free_hosts c)"
  have dist: "distinct ?take" and sub: "set ?take \<subseteq> set (free_hosts c)"
    using free_hosts_distinct [OF assms(1)] by (auto dest: in_set_takeD)
  show thesis
  proof (cases "exclusive_hosts r")
    case False
    with acq have "required = []" "admissible c r [] local" "grant c r [] local = (c', l)"
      by (auto simp: try_acquire_def admissible_def split: if_splits prod.splits option.splits)
    with that show thesis by simp
  next
    case True
    with acq have len: "req_nodes r \<le> int (length (free_hosts c))"
      and g: "grant c r (if required \<noteq> [] then required else ?take) local = (c', l)"
      and req: "required \<noteq> [] \<longrightarrow> int (length required) = req_nodes r \<and> distinct required \<and>
                set required \<subseteq> set (free_hosts c)"
      by (auto simp: try_acquire_def Let_def split: if_splits prod.splits option.splits)
    have "int (length ?take) = req_nodes r" using len assms(2) by simp
    with True acq req dist sub
    have "admissible c r (if required \<noteq> [] then required else ?take) local"
      by (auto simp: try_acquire_def admissible_def Let_def
          split: if_splits prod.splits option.splits)
    with g that show thesis by simp
  qed
qed

lemma grant_leases:
  assumes "admissible c r hs local"
  shows "leases (fst (grant c r hs local)) = leases c @ [(req_task_id r, snd (grant c r hs local))]"
  using admissible_fresh [OF assms] by (simp add: grant_def Let_def update_new)

lemma grant_alloc [simp]: "alloc (fst (grant c r hs local)) = alloc c"
  by (simp add: grant_def Let_def)

lemma grant_lease [simp]:
  "snd (grant c r hs local) =
     \<lparr>lease_task_id = req_task_id r, lease_cpus = req_cpus r, lease_nodes = req_nodes r,
      lease_hosts = hs\<rparr>"
  by (simp add: grant_def Let_def)

lemma grant_counters:
  "used_cpus (fst (grant c r hs local)) = used_cpus c + req_cpus r"
  "used_nodes (fst (grant c r hs local)) = node_usage_with c r"
  "used_hosts (fst (grant c r hs local)) = used_hosts c \<union> set hs"
  "peak_cpus (fst (grant c r hs local)) = max (peak_cpus c) (used_cpus c + req_cpus r)"
  "peak_nodes (fst (grant c r hs local)) = max (peak_nodes c) (node_usage_with c r)"
  by (simp_all add: grant_def Let_def)

lemma grant_peak_steps:
  assumes "admissible c r hs local"
  shows "peak_steps (fst (grant c r hs local)) = max (peak_steps c) (int (length (leases c)) + 1)"
  using admissible_fresh [OF assms] by (simp add: grant_def Let_def update_new)

lemma grant_shared:
  "local_shared_hosts (fst (grant c r hs local)) =
     (case local of None \<Rightarrow> local_shared_hosts c
      | Some h \<Rightarrow> AList.update (req_task_id r) h (local_shared_hosts c))"
  by (simp add: grant_def Let_def)

lemma admissible_hosts:
  assumes "admissible c r hs local" and "0 < req_nodes r"
  shows "hs \<noteq> [] \<longleftrightarrow> exclusive_hosts r" and "distinct hs"
    and "set hs \<subseteq> set (hosts (alloc c))" and "set hs \<inter> used_hosts c = {}"
    and "set hs \<inter> snd ` set (local_shared_hosts c) = {}"
    and "hs \<noteq> [] \<longrightarrow> int (length hs) = req_nodes r"
proof -
  have sub: "h \<in> set (free_hosts c)" if "h \<in> set hs" for h
    using assms(1) that by (auto simp: admissible_def)
  show "hs \<noteq> [] \<longleftrightarrow> exclusive_hosts r" and "distinct hs"
    and "hs \<noteq> [] \<longrightarrow> int (length hs) = req_nodes r"
    using assms by (auto simp: admissible_def)
  show "set hs \<subseteq> set (hosts (alloc c))" and "set hs \<inter> used_hosts c = {}"
    and "set hs \<inter> snd ` set (local_shared_hosts c) = {}"
    using sub by (auto simp: free_hosts_in)
qed

lemma grant_leases_ok:
  assumes "leases_ok c" and "admissible c r hs local" and "request_ok r"
  shows "leases_ok (fst (grant c r hs local))"
proof -
  have pos: "0 < req_cpus r" "0 < req_nodes r" using assms(3) by (simp_all add: request_ok_def)
  have "req_task_id r \<notin> fst ` set (leases c)" using assms(2) by (rule admissible_fresh)
  then show ?thesis
    using assms(1) pos admissible_hosts [OF assms(2) pos(2)]
    by (auto simp: leases_ok_def lease_ok_def grant_leases [OF assms(2)])
qed

lemma grant_hosts_apart:
  assumes "hosts_apart c" and "counters_ok c" and "admissible c r hs local" and "0 < req_nodes r"
  shows "hosts_apart (fst (grant c r hs local))"
proof -
  have apart: "set (lease_hosts l) \<inter> set hs = {}" if "(k, l) \<in> set (leases c)" for k l
    using that assms(2) admissible_hosts(4) [OF assms(3,4)]
    by (force simp: counters_ok_def)
  show ?thesis
    using assms(1) apart
    unfolding hosts_apart_iff grant_leases [OF assms(3)] grant_lease by fastforce
qed

lemma grant_shared_ok:
  assumes "shared_ok c" and "admissible c r hs local" and "0 < req_nodes r"
  shows "shared_ok (fst (grant c r hs local))"
proof -
  let ?c' = "fst (grant c r hs local)"
  note a = admissible_hosts [OF assms(2,3)] and old = shared_okD [OF assms(1)]
  have lives: "\<exists>l. (k, l) \<in> set (leases ?c') \<and> is_shared l"
    if "(k, h) \<in> set (local_shared_hosts c)" for k h
    using old(4) [OF that] unfolding grant_leases [OF assms(2)] set_append by blast
  have free: "h \<notin> set hs" if "(k, h) \<in> set (local_shared_hosts c)" for k h
    using a(5) that by (metis disjoint_iff image_eqI snd_conv)
  show ?thesis
  proof (cases local)
    case None
    then have shared: "local_shared_hosts ?c' = local_shared_hosts c" by (simp add: grant_shared)
    show ?thesis
    proof (rule shared_okI)
      show "dict_ok (local_shared_hosts ?c')" using old(1) by (simp add: shared)
    next
      fix k h assume "(k, h) \<in> set (local_shared_hosts ?c')"
      then have kh: "(k, h) \<in> set (local_shared_hosts c)" by (simp add: shared)
      show "h \<in> set (hosts (alloc ?c')) \<and> h \<notin> used_hosts ?c'"
        using old(2,3) [OF kh] free [OF kh] by (simp add: grant_counters)
      show "\<exists>l. (k, l) \<in> set (leases ?c') \<and> is_shared l" using lives [OF kh] .
    qed
  next
    case (Some h)
    with assms(2) have h: "hs = []" "req_nodes r = 1" "h \<in> set (hosts (alloc c))" "h \<notin> used_hosts c"
      by (auto simp: admissible_def)
    have new: "(k = req_task_id r \<and> h' = h) \<or> (k, h') \<in> set (local_shared_hosts c)"
      if "(k, h') \<in> set (local_shared_hosts ?c')" for k h'
      using that Some by (auto simp: grant_shared dest: in_set_update)
    have "(req_task_id r, snd (grant c r hs local)) \<in> set (leases ?c')"
      unfolding grant_leases [OF assms(2)] by (simp only: set_append Un_iff list.set insertI1 simp_thms)
    moreover have "is_shared (snd (grant c r hs local))" using h(1,2) by (simp add: is_shared_def)
    ultimately have mine: "\<exists>l. (req_task_id r, l) \<in> set (leases ?c') \<and> is_shared l" by blast
    show ?thesis
    proof (rule shared_okI)
      show "dict_ok (local_shared_hosts ?c')" using old(1) Some by (simp add: grant_shared)
    next
      fix k h' assume kh: "(k, h') \<in> set (local_shared_hosts ?c')"
      show "h' \<in> set (hosts (alloc ?c')) \<and> h' \<notin> used_hosts ?c'"
        using new [OF kh] old(2,3) [of k h'] h by (auto simp: grant_counters)
      show "\<exists>l. (k, l) \<in> set (leases ?c') \<and> is_shared l"
        using new [OF kh] mine lives [of k h'] by blast
    qed
  qed
qed

lemma grant_counters_ok:
  assumes "counters_ok c" and "admissible c r hs local" and "0 < req_nodes r"
  shows "counters_ok (fst (grant c r hs local))"
proof -
  let ?g = "grant c r hs local"
  have "node_usage_with c r = current_node_usage (c\<lparr>leases := leases c @ [(req_task_id r, snd ?g)]\<rparr>)"
    using admissible_hosts(1) [OF assms(2,3)] assms(3)
    by (intro node_usage_with_correct) auto
  then have "node_usage_with c r = current_node_usage (fst ?g)"
    by (simp add: current_node_usage_def grant_leases [OF assms(2)])
  then show ?thesis
    using assms(1) by (auto simp: counters_ok_def grant_leases [OF assms(2)] grant_counters)
qed

lemma grant_capacity:
  assumes "within_capacity c" and "peaks_ok c" and "admissible c r hs local"
  shows "within_capacity (fst (grant c r hs local))" and "peaks_ok (fst (grant c r hs local))"
  using assms
  by (auto simp: within_capacity_def peaks_ok_def grant_leases grant_counters grant_peak_steps
      admissible_def)

lemma grant_inv:
  assumes "coordinator_inv c" and "admissible c r hs local" and "request_ok r"
  shows "coordinator_inv (fst (grant c r hs local))"
proof -
  have "0 < req_nodes r" using assms(3) by (simp add: request_ok_def)
  with assms show ?thesis
    by (simp add: coordinator_inv_def grant_leases_ok grant_hosts_apart grant_shared_ok
        grant_counters_ok grant_capacity)
qed

lemma try_acquire_None_unchanged:
  "try_acquire c r required local = Inr (c', None) \<Longrightarrow> c' = c"
  by (auto simp: try_acquire_def Let_def split: if_splits option.splits prod.splits)

lemma try_acquire_inv:
  assumes "coordinator_inv c" and "request_ok r" and "try_acquire c r required local = Inr (c', ol)"
  shows "coordinator_inv c'"
proof (cases ol)
  case None
  with assms show ?thesis by (auto dest: try_acquire_None_unchanged)
next
  case (Some l)
  have "allocation_ok (alloc c)" "0 < req_nodes r"
    using assms(1,2) by (simp_all add: coordinator_inv_def request_ok_def)
  then obtain hs where "admissible c r hs local" "grant c r hs local = (c', l)"
    using assms(3) Some by (blast elim: try_acquire_SomeE)
  with assms(1,2) show ?thesis using grant_inv [of c r hs local] by simp
qed

subsection \<open>Releasing a lease\<close>

text \<open>The state after the release of a recorded lease.\<close>

definition freed :: "coordinator \<Rightarrow> lease \<Rightarrow> coordinator" where
  "freed c l = fst (release c l)"

lemma freed_simps:
  assumes "map_of (leases c) (lease_task_id l) = Some l"
  shows "alloc (freed c l) = alloc c"
    and "leases (freed c l) = AList.delete (lease_task_id l) (leases c)"
    and "used_cpus (freed c l) = used_cpus c - lease_cpus l"
    and "used_hosts (freed c l) = used_hosts c - set (lease_hosts l)"
    and "local_shared_hosts (freed c l) =
           AList.delete (lease_task_id l) (local_shared_hosts c)"
    and "used_nodes (freed c l) = current_node_usage (freed c l)"
    and "peak_cpus (freed c l) = peak_cpus c" and "peak_nodes (freed c l) = peak_nodes c"
    and "peak_steps (freed c l) = peak_steps c"
  using assms by (simp_all add: freed_def release_def Let_def current_node_usage_def)

lemma release_Some:
  "map_of (leases c) (lease_task_id l) = Some l \<Longrightarrow> release c l = (freed c l, None)"
  by (simp add: release_def freed_def Let_def)

lemma dedicated_nodes_nonneg:
  assumes "\<And>l. l \<in> set ls \<Longrightarrow> 0 < lease_nodes l"
  shows "0 \<le> dedicated_nodes ls"
  using assms unfolding dedicated_nodes_def
  by (intro sum_list_nonneg) (auto intro: less_imp_le)

lemma dedicated_nodes_Cons:
  "dedicated_nodes (l # ls) =
     (if 1 < lease_nodes l \<or> lease_hosts l \<noteq> [] then lease_nodes l else 0) + dedicated_nodes ls"
  by (simp add: dedicated_nodes_def)

lemma dedicated_nodes_filter_le:
  assumes "\<And>l. l \<in> set ls \<Longrightarrow> 0 < lease_nodes l"
  shows "dedicated_nodes (filter P ls) \<le> dedicated_nodes ls"
  using assms
proof (induction ls)
  case Nil
  then show ?case by simp
next
  case (Cons l ls)
  then have "0 < lease_nodes l" and "dedicated_nodes (filter P ls) \<le> dedicated_nodes ls" by simp_all
  then show ?case by (simp add: dedicated_nodes_Cons)
qed

lemma map_snd_delete:
  assumes "\<And>j w. (j, w) \<in> set d \<Longrightarrow> f w = j"
  shows "map snd (AList.delete k d) = filter (\<lambda>w. f w \<noteq> k) (map snd d)"
  using assms
proof (induction d)
  case Nil
  then show ?case by simp
next
  case (Cons p d)
  have "f (snd p) = fst p" using Cons.prems [of "fst p" "snd p"] by simp
  moreover have "map snd (AList.delete k d) = filter (\<lambda>w. f w \<noteq> k) (map snd d)"
    by (rule Cons.IH) (simp add: Cons.prems)
  ultimately show ?case by (cases p) auto
qed

lemma freed_usage_le:
  assumes "leases_ok c" and "map_of (leases c) (lease_task_id l) = Some l"
  shows "current_node_usage (freed c l) \<le> current_node_usage c"
proof -
  let ?ls = "map snd (leases c)"
  have "map snd (leases (freed c l)) = filter (\<lambda>w. lease_task_id w \<noteq> lease_task_id l) ?ls"
    unfolding freed_simps(2) [OF assms(2)]
    by (rule map_snd_delete) (use assms(1) in \<open>auto simp: leases_ok_iff lease_ok_def\<close>)
  moreover have "dedicated_nodes (filter P ?ls) \<le> dedicated_nodes ?ls" for P
    by (rule dedicated_nodes_filter_le) (use assms(1) in \<open>auto simp: leases_ok_iff lease_ok_def\<close>)
  moreover have "list_ex is_shared (filter P ?ls) \<Longrightarrow> list_ex is_shared ?ls" for P
    by (auto simp: list_ex_iff)
  ultimately show ?thesis
    unfolding current_node_usage_def Let_def
    by (smt (verit) of_bool_eq_iff of_bool_eq(1,2))
qed

lemma freed_shared_ok:
  assumes "shared_ok c" and "map_of (leases c) (lease_task_id l) = Some l"
  shows "shared_ok (freed c l)"
proof (rule shared_okI)
  note f = freed_simps [OF assms(2)] and old = shared_okD [OF assms(1)]
  show "dict_ok (local_shared_hosts (freed c l))" using old(1) by (simp add: f)
  fix k h assume "(k, h) \<in> set (local_shared_hosts (freed c l))"
  then have kh: "(k, h) \<in> set (local_shared_hosts c)" "k \<noteq> lease_task_id l"
    by (auto simp: f set_delete_dict)
  show "h \<in> set (hosts (alloc (freed c l))) \<and> h \<notin> used_hosts (freed c l)"
    using old(2,3) [OF kh(1)] by (simp add: f)
  show "\<exists>w. (k, w) \<in> set (leases (freed c l)) \<and> is_shared w"
    using old(4) [OF kh(1)] kh(2) unfolding f set_delete_dict by auto
qed

lemma freed_counters_ok:
  assumes "counters_ok c" and "leases_ok c" and "hosts_apart c"
    and "map_of (leases c) (lease_task_id l) = Some l"
  shows "counters_ok (freed c l)"
proof -
  have mem: "(lease_task_id l, l) \<in> set (leases c)" using assms(4) by (rule map_of_SomeD)
  have ok: "dict_ok (leases c)" using assms(2) by (simp add: leases_ok_iff)
  have "used_cpus c = lease_cpus l
      + sum_list (map (lease_cpus \<circ> snd) (AList.delete (lease_task_id l) (leases c)))"
    using assms(1) sum_list_delete [OF ok assms(4), of lease_cpus] by (simp add: counters_ok_def)
  moreover have "(\<Union>w \<in> snd ` set (leases c). set (lease_hosts w)) - set (lease_hosts l) =
      (\<Union>w \<in> snd ` set (AList.delete (lease_task_id l) (leases c)). set (lease_hosts w))"
    (is "?lhs = ?rhs")
  proof (intro set_eqI iffI)
    fix h assume "h \<in> ?lhs"
    then obtain k w where w: "(k, w) \<in> set (leases c)" "h \<in> set (lease_hosts w)"
        "h \<notin> set (lease_hosts l)" by auto
    then have "w \<noteq> l" by auto
    then have "k \<noteq> lease_task_id l" using w(1) ok mem by (auto dest: dict_unique)
    with w(1) have "w \<in> snd ` set (AList.delete (lease_task_id l) (leases c))"
      by (auto simp: set_delete_dict intro!: image_eqI [where x = "(k, w)"])
    with w(2) show "h \<in> ?rhs" by blast
  next
    fix h assume "h \<in> ?rhs"
    then obtain k w where w: "(k, w) \<in> set (leases c)" "k \<noteq> lease_task_id l"
        "h \<in> set (lease_hosts w)" by (auto simp: set_delete_dict)
    then have "h \<notin> set (lease_hosts l)"
      using assms(3) mem unfolding hosts_apart_iff by blast
    moreover have "w \<in> snd ` set (leases c)" using w(1) by force
    ultimately show "h \<in> ?lhs" using w(3) by blast
  qed
  ultimately show ?thesis
    using assms(1) freed_simps(2-4,6) [OF assms(4)] unfolding counters_ok_def by simp
qed

lemma freed_inv:
  assumes "coordinator_inv c" and "map_of (leases c) (lease_task_id l) = Some l"
  shows "coordinator_inv (freed c l)"
proof -
  note f = freed_simps [OF assms(2)]
  have parts: "leases_ok c" "hosts_apart c" "shared_ok c" "counters_ok c" "within_capacity c"
      "peaks_ok c" using assms(1) by (simp_all add: coordinator_inv_def)
  have "(lease_task_id l, l) \<in> set (leases c)" using assms(2) by (rule map_of_SomeD)
  then have "0 < lease_cpus l" using parts(1) by (auto simp: leases_ok_iff lease_ok_def)
  moreover have "length (leases c) = Suc (length (leases (freed c l)))"
    unfolding f(2) using length_delete [OF _ assms(2)] parts(1) by (simp add: leases_ok_iff)
  moreover have "used_nodes (freed c l) \<le> used_nodes c"
    using freed_usage_le [OF parts(1) assms(2)] parts(4) f(6) by (simp add: counters_ok_def)
  ultimately have "within_capacity (freed c l)" "peaks_ok (freed c l)"
    using parts(5,6) f by (auto simp: within_capacity_def peaks_ok_def)
  moreover have "leases_ok (freed c l)" "hosts_apart (freed c l)"
    using parts(1) apply (auto simp: leases_ok_iff f set_delete_dict lease_ok_def) [1]
    using parts(2) unfolding hosts_apart_iff f set_delete_dict by blast
  ultimately show ?thesis
    using assms(1) parts freed_shared_ok [OF _ assms(2)] freed_counters_ok [OF _ _ _ assms(2)]
    by (simp add: coordinator_inv_def f)
qed

section \<open>The coordinator as a provider of leases\<close>

definition held_leases :: "coordinator \<Rightarrow> lease set" where
  "held_leases c = snd ` set (leases c)"

definition acquire_call ::
  "coordinator \<Rightarrow> request \<times> string list \<times> string option \<Rightarrow> (coordinator \<times> lease option) res" where
  "acquire_call c call = (case call of (r, required, local) \<Rightarrow> try_acquire c r required local)"

lemma held_leases_iff: "l \<in> held_leases c \<longleftrightarrow> (\<exists>k. (k, l) \<in> set (leases c))"
  by (force simp: held_leases_def)

lemma held_lookup:
  assumes "coordinator_inv c" and "l \<in> held_leases c"
  shows "map_of (leases c) (lease_task_id l) = Some l"
proof -
  have ok: "leases_ok c" using assms(1) by (simp add: coordinator_inv_def)
  from assms(2) obtain k where "(k, l) \<in> set (leases c)" by (auto simp: held_leases_def)
  with ok show ?thesis by (auto simp: leases_ok_iff lease_ok_def)
qed

lemma try_acquire_grantE:
  assumes "coordinator_inv c" and "request_ok r" and "try_acquire c r required local = Inr (c', Some l)"
  obtains hs where "admissible c r hs local" and "grant c r hs local = (c', l)"
    and "leases c' = leases c @ [(req_task_id r, l)]"
proof -
  have "allocation_ok (alloc c)" "0 < req_nodes r"
    using assms(1,2) by (simp_all add: coordinator_inv_def request_ok_def)
  then obtain hs where hs: "admissible c r hs local" "grant c r hs local = (c', l)"
    using assms(3) by (blast elim: try_acquire_SomeE)
  moreover have "leases c' = leases c @ [(req_task_id r, l)]"
    using grant_leases [OF hs(1)] unfolding hs(2) by simp
  ultimately show thesis by (rule that)
qed

lemma freed_held:
  assumes "coordinator_inv c" and "l \<in> held_leases c"
  shows "held_leases (freed c l) = held_leases c - {l}"
proof -
  have ok: "leases_ok c" using assms(1) by (simp add: coordinator_inv_def)
  note look = held_lookup [OF assms]
  have "k = lease_task_id l \<longleftrightarrow> w = l" if kw: "(k, w) \<in> set (leases c)" for k w
  proof
    assume "k = lease_task_id l"
    then show "w = l" using dict_unique [OF _ kw] map_of_SomeD [OF look] ok
      by (simp add: leases_ok_iff)
  next
    assume "w = l"
    then show "k = lease_task_id l" using ok kw unfolding leases_ok_iff lease_ok_def by blast
  qed
  then have "w \<in> held_leases (freed c l) \<longleftrightarrow> w \<in> held_leases c \<and> w \<noteq> l" for w
    unfolding held_leases_iff freed_simps(2) [OF look] set_delete_dict mem_Collect_eq fst_conv
    by blast
  then show ?thesis by blast
qed

lemma try_acquire_alloc:
  "try_acquire c r required local = Inr (c', ol) \<Longrightarrow> alloc c' = alloc c"
  by (auto simp: try_acquire_def grant_def Let_def split: if_splits option.splits)

text \<open>The laws of \<open>lease_authority\<close> for the coordinator of an allocation \<open>a\<close>.\<close>

interpretation rc: lease_authority
  "\<lambda>c. coordinator_inv c \<and> alloc c = a" "request_ok \<circ> fst" acquire_call freed held_leases
  for a
proof unfold_locales
  fix c c' ol l and call :: "request \<times> string list \<times> string option"
  assume inv: "coordinator_inv c \<and> alloc c = a" and ok: "(request_ok \<circ> fst) call"
  obtain r required local where call: "call = (r, required, local)" by (cases call)
  show "coordinator_inv c' \<and> alloc c' = a" if "acquire_call c call = Inr (c', ol)"
    using that inv ok call
    by (auto simp: acquire_call_def intro: try_acquire_inv dest: try_acquire_alloc)
  assume "acquire_call c call = Inr (c', Some l)"
  then have acq: "try_acquire c r required local = Inr (c', Some l)"
    by (simp add: acquire_call_def call)
  have rok: "request_ok r" and cinv: "coordinator_inv c" using ok inv call by simp_all
  obtain hs where hs: "admissible c r hs local" "grant c r hs local = (c', l)"
      "leases c' = leases c @ [(req_task_id r, l)]"
    by (rule try_acquire_grantE [OF cinv rok acq])
  show "held_leases c' = insert l (held_leases c)" by (simp add: held_leases_def hs(3))
  have "lease_task_id l = req_task_id r" using hs(2) by (auto simp: grant_def Let_def)
  moreover have "map_of (leases c) (req_task_id r) = None"
    using hs(1) by (simp add: admissible_def map_of_eq_None_iff)
  ultimately show "l \<notin> held_leases c"
    using held_lookup [OF cinv, of l] by (metis option.distinct(1))
next
  fix c c' and call :: "request \<times> string list \<times> string option"
  assume "acquire_call c call = Inr (c', None)"
  then show "c' = c" by (cases call) (auto simp: acquire_call_def dest: try_acquire_None_unchanged)
next
  fix c l
  assume c: "coordinator_inv c \<and> alloc c = a" and l: "l \<in> held_leases c"
  note look = held_lookup [OF conjunct1 [OF c] l]
  show "coordinator_inv (freed c l) \<and> alloc (freed c l) = a"
    using c look by (simp add: freed_inv freed_simps(1))
  show "held_leases (freed c l) = held_leases c - {l}" using c l by (simp add: freed_held)
qed

section \<open>Properties\<close>

lemma sum_active:
  assumes "leases_ok c" and "held_leases c = set active" and "distinct active"
  shows "sum_list (map (lease_cpus \<circ> snd) (leases c)) = sum_list (map lease_cpus active)"
proof -
  have "inj_on snd (set (leases c))"
  proof (rule inj_onI)
    fix p q assume pq: "p \<in> set (leases c)" "q \<in> set (leases c)" "snd p = snd q"
    then have "lease_task_id (snd p) = fst p" "lease_task_id (snd q) = fst q"
      using assms(1) unfolding leases_ok_iff lease_ok_def by (metis prod.collapse)+
    with pq(3) show "p = q" by (simp add: prod_eq_iff)
  qed
  moreover have "distinct (leases c)" using assms(1) by (simp add: leases_ok_iff distinct_map)
  ultimately have "distinct (map snd (leases c))" by (simp add: distinct_map)
  then have "sum_list (map lease_cpus (map snd (leases c))) = sum lease_cpus (held_leases c)"
    by (simp only: sum_list_distinct_conv_sum_set set_map held_leases_def)
  then show ?thesis using assms(2,3) by (simp add: sum_list_distinct_conv_sum_set)
qed

text \<open>
  Property C4. Whatever sequence of lease requests and returns a client makes, the coordinator
  never grants more than the allocation has: the CPU counter is the sum of the client's active
  leases and at most the total, the node counter and the number of steps stay within their
  bounds, and two active leases never share an assigned host.
\<close>

theorem coordinator_never_oversubscribed:
  assumes "allocation_ok a"
    and "\<forall>x \<in> set xs. op_ok (request_ok \<circ> fst) x"
    and "lease_run acquire_call freed (new_coordinator a, []) xs = (c, active)"
  shows "used_cpus c = sum_list (map lease_cpus active) \<and>
    used_cpus c \<le> total_cpus a \<and> used_nodes c \<le> total_nodes a \<and>
    int (length active) \<le> max_parallel_steps a \<and>
    (\<forall>l \<in> set active. \<forall>l' \<in> set active.
       l \<noteq> l' \<longrightarrow> set (lease_hosts l) \<inter> set (lease_hosts l') = {})"
proof -
  have "held_leases (new_coordinator a) = set []" "alloc (new_coordinator a) = a"
    by (simp_all add: held_leases_def new_coordinator_def)
  then have end_state: "coordinator_inv c" "alloc c = a" "held_leases c = set active" "distinct active"
    using rc.run_agrees [of _ a "[]" xs c active] new_coordinator_inv [OF assms(1)] assms(2,3)
    by simp_all
  have parts: "leases_ok c" "hosts_apart c" "counters_ok c" "within_capacity c"
    using end_state(1) by (simp_all add: coordinator_inv_def)
  have cpus: "used_cpus c = sum_list (map lease_cpus active)"
    using parts(3) sum_active [OF parts(1) end_state(3,4)] by (simp add: counters_ok_def)
  have cap: "used_cpus c \<le> total_cpus a" "used_nodes c \<le> total_nodes a"
    "int (length (leases c)) \<le> max_parallel_steps a"
    using parts(4) end_state(2) by (simp_all add: within_capacity_def)
  have "length active = card (held_leases c)" using end_state(3,4) by (simp add: distinct_card)
  also have "\<dots> \<le> length (leases c)" unfolding held_leases_def
    by (metis card_image_le card_length finite_set le_trans)
  finally have len: "int (length active) \<le> max_parallel_steps a" using cap(3) by simp
  have "set (lease_hosts l) \<inter> set (lease_hosts l') = {}"
    if l: "l \<in> set active" "l' \<in> set active" "l \<noteq> l'" for l l'
  proof -
    obtain k k' where kk: "(k, l) \<in> set (leases c)" "(k', l') \<in> set (leases c)"
      using l end_state(3) held_leases_iff by metis
    have "k \<noteq> k'" using kk l(3) parts(1) unfolding leases_ok_iff by (blast dest: dict_unique)
    with kk parts(2) show ?thesis unfolding hosts_apart_iff by blast
  qed
  with cpus cap len show ?thesis by blast
qed

definition sample_allocation :: allocation where
  "sample_allocation = \<lparr>total_cpus = 8, total_nodes = 2, max_parallel_steps = 3,
     hosts = [''h1'', ''h2''], shutdown_margin_seconds = 0, termination_grace_seconds = 0,
     allocation_id = ''job''\<rparr>"

definition sample_request :: "string \<Rightarrow> int \<Rightarrow> bool \<Rightarrow> request" where
  "sample_request t n ex =
     \<lparr>req_task_id = t, req_cpus = n, req_nodes = 1, exclusive_hosts = ex\<rparr>"

lemma sample_allocation_ok: "allocation_ok sample_allocation"
  by code_simp

lemma sample_request_ok: "request_ok (sample_request ''a'' 4 True)" "request_ok (sample_request ''b'' 3 False)"
  by code_simp+

text \<open>Two tasks, an exclusive one and a shared one, run side by side; then the first is released.\<close>

theorem coordinator_never_oversubscribed_witness:
  "\<exists>c active.
     lease_run acquire_call freed (new_coordinator sample_allocation, [])
       [Acquire (sample_request ''a'' 4 True, [], None),
        Acquire (sample_request ''b'' 3 False, [], Some ''h2'')] = (c, active) \<and>
     length active = 2 \<and> used_cpus c \<le> 8 \<and> used_cpus c = 7"
proof -
  let ?xs = "[Acquire (sample_request ''a'' 4 True, [], None),
              Acquire (sample_request ''b'' 3 False, [], Some ''h2'')]"
  obtain c active where run:
    "lease_run acquire_call freed (new_coordinator sample_allocation, []) ?xs = (c, active)"
    by (cases "lease_run acquire_call freed (new_coordinator sample_allocation, []) ?xs")
  have ops: "\<forall>x \<in> set ?xs. op_ok (request_ok \<circ> fst) x" by code_simp
  have cpus: "map lease_cpus (snd (lease_run acquire_call freed (new_coordinator sample_allocation, []) ?xs))
      = [3, 4]"
    by code_simp
  then have "map lease_cpus active = [3, 4]" by (simp only: run snd_conv)
  moreover from this have "length active = 2"
    by (metis length_map length_Cons list.size(3) numeral_2_eq_2)
  ultimately show ?thesis
    using run coordinator_never_oversubscribed [OF sample_allocation_ok ops run]
    by (intro exI [of _ c] exI [of _ active]) (simp add: sample_allocation_def)
qed

text \<open>
  Property C32. Granting a lease and giving it back restores the coordinator: every counter, the
  occupied hosts, the shared hosts and the lease table are what they were; only the high-water
  marks remember the lease.
\<close>

theorem acquire_release_roundtrip:
  assumes inv: "coordinator_inv c" and ok: "request_ok r"
    and acq: "try_acquire c r required local = Inr (c', Some l)"
  shows "release c' l =
    (c\<lparr>peak_cpus := peak_cpus c', peak_nodes := peak_nodes c', peak_steps := peak_steps c'\<rparr>, None)"
proof -
  obtain hs where adm: "admissible c r hs local" and g: "grant c r hs local = (c', l)"
    and ls: "leases c' = leases c @ [(req_task_id r, l)]"
    by (rule try_acquire_grantE [OF inv ok acq])
  have l: "lease_task_id l = req_task_id r" "lease_cpus l = req_cpus r" "lease_hosts l = hs"
    using g by (auto simp: grant_def Let_def)
  have fresh: "req_task_id r \<notin> fst ` set (leases c)" using adm by (rule admissible_fresh)
  have parts: "shared_ok c" "counters_ok c" "0 < req_nodes r"
    using inv ok by (simp_all add: coordinator_inv_def request_ok_def)
  have look: "map_of (leases c') (lease_task_id l) = Some l"
  proof -
    have "map_of (leases c) (req_task_id r) = None" using fresh by (simp add: map_of_eq_None_iff)
    then show ?thesis by (simp add: ls l map_add_def)
  qed
  note f = freed_simps [OF look]
  have leases_back: "leases (freed c' l) = leases c"
    using fresh by (simp add: f(2) ls l delete_append delete_absent)
  have "req_task_id r \<notin> fst ` set (local_shared_hosts c)"
    using fresh shared_okD(4) [OF parts(1)] by force
  then have shared_back: "local_shared_hosts (freed c' l) = local_shared_hosts c"
    using grant_shared [of c r hs local] unfolding g f(5) l fst_conv
    by (simp add: delete_absent update_new delete_append split: option.split)
  have hosts_back: "used_hosts (freed c' l) = used_hosts c"
    using grant_counters(3) [of c r hs local] admissible_hosts(4) [OF adm parts(3)]
    unfolding g f(4) l fst_conv by auto
  have cpus_back: "used_cpus (freed c' l) = used_cpus c"
    using grant_counters(1) [of c r hs local] unfolding g f(3) l by simp
  have "used_nodes (freed c' l) = used_nodes c"
    using parts(2) unfolding f(6) counters_ok_def current_node_usage_def leases_back by simp
  moreover have "alloc (freed c' l) = alloc c" using f(1) try_acquire_alloc [OF acq] by simp
  ultimately have "freed c' l =
      c\<lparr>peak_cpus := peak_cpus c', peak_nodes := peak_nodes c', peak_steps := peak_steps c'\<rparr>"
    using leases_back shared_back hosts_back cpus_back f(7-9) by simp
  then show ?thesis using release_Some [OF look] by simp
qed

theorem acquire_release_roundtrip_witness:
  "\<exists>c' l. try_acquire (new_coordinator sample_allocation) (sample_request ''a'' 4 True) [] None
       = Inr (c', Some l) \<and> lease_hosts l = [''h1''] \<and>
     leases (fst (release c' l)) = [] \<and> snd (release c' l) = None"
proof -
  let ?c = "new_coordinator sample_allocation" and ?r = "sample_request ''a'' 4 True"
  have inv: "coordinator_inv ?c" by (rule new_coordinator_inv [OF sample_allocation_ok])
  have "case try_acquire ?c ?r [] None of Inr (c', Some l) \<Rightarrow> lease_hosts l = [''h1''] | _ \<Rightarrow> False"
    by code_simp
  then obtain c' l where acq: "try_acquire ?c ?r [] None = Inr (c', Some l)"
      and h: "lease_hosts l = [''h1'']"
    by (auto split: sum.splits option.splits prod.splits)
  have "leases ?c = []" by (simp add: new_coordinator_def)
  then show ?thesis
    using acq h acquire_release_roundtrip [OF inv sample_request_ok(1) acq] by auto
qed

text \<open>
  The calls the caller's own checks allow: they never raise unless the task already has a lease, and
  an idle coordinator grants them whenever they can fit at all.
\<close>

definition valid_call :: "coordinator \<Rightarrow> request \<Rightarrow> string list \<Rightarrow> string option \<Rightarrow> bool" where
  "valid_call c r required local \<longleftrightarrow>
     (required \<noteq> [] \<longrightarrow> exclusive_hosts r \<and> int (length required) = req_nodes r \<and> distinct required \<and>
        set required \<subseteq> set (hosts (alloc c))) \<and>
     (\<forall>h. local = Some h \<longrightarrow> \<not> exclusive_hosts r \<and> req_nodes r = 1 \<and> h \<in> set (hosts (alloc c)))"

lemma valid_call_total:
  assumes "valid_call c r required local" "map_of (leases c) (req_task_id r) = None"
  shows "\<exists>x. try_acquire c r required local = Inr x"
  using assms
  by (auto simp: valid_call_def try_acquire_def Let_def split: prod.splits option.splits if_splits)

lemma idle_used:
  assumes "coordinator_inv c" "leases c = []"
  shows "used_cpus c = 0" "used_hosts c = {}" "local_shared_hosts c = []"
proof -
  have "counters_ok c" "shared_ok c" using assms(1) by (simp_all add: coordinator_inv_def)
  then show "used_cpus c = 0" "used_hosts c = {}" "local_shared_hosts c = []"
    using assms(2) shared_okD(4) [of c]
    by (auto simp: counters_ok_def) (cases "local_shared_hosts c", auto)
qed

lemma idle_grant:
  assumes "coordinator_inv c" "leases c = []" "request_ok r" "can_ever_fit c r"
    and "valid_call c r required local"
  shows "\<exists>c' l. try_acquire c r required local = Inr (c', Some l)"
proof -
  have a: "0 < max_parallel_steps (alloc c)"
    using assms(1) by (simp add: coordinator_inv_def allocation_ok_def)
  note used = idle_used [OF assms(1,2)]
  have usage: "node_usage_with c r = req_nodes r"
    using assms(2,3) by (auto simp: node_usage_with_def request_ok_def)
  have free: "free_hosts c = hosts (alloc c)" using used by (simp add: free_hosts_def)
  show ?thesis
    using a assms(4,5) unfolding try_acquire_def can_ever_fit_def valid_call_def
    by (auto simp: assms(2) used usage free Let_def split: prod.splits option.splits if_splits)
qed

text \<open>
  Property C33. An idle coordinator grants a request exactly when \<open>can_ever_fit\<close> says so: the
  runtime's early "exceeds allocation capacity" verdict neither blocks a task that could run nor
  keeps one waiting that never can.
\<close>

theorem idle_grant_iff_can_ever_fit:
  assumes inv: "coordinator_inv c" and idle: "leases c = []" and ok: "request_ok r"
  shows "(\<exists>c' l. try_acquire c r [] None = Inr (c', Some l)) \<longleftrightarrow> can_ever_fit c r"
proof -
  have "0 < max_parallel_steps (alloc c)"
    using inv by (simp add: coordinator_inv_def allocation_ok_def)
  note used = idle_used [OF inv idle]
  have free: "free_hosts c = hosts (alloc c)" using used by (simp add: free_hosts_def)
  have "can_ever_fit c r" if "try_acquire c r [] None = Inr (c', Some l)" for c' l
    using that unfolding try_acquire_def can_ever_fit_def
    by (auto simp: idle used free Let_def node_usage_with_def split: prod.splits if_splits)
  then show ?thesis using idle_grant [OF inv idle ok] by (auto simp: valid_call_def)
qed

theorem idle_grant_iff_can_ever_fit_witness:
  "(\<exists>c' l. try_acquire (new_coordinator sample_allocation) (sample_request ''a'' 4 True) [] None
      = Inr (c', Some l)) \<and>
   can_ever_fit (new_coordinator sample_allocation) (sample_request ''a'' 4 True)"
proof -
  have "leases (new_coordinator sample_allocation) = []" by (simp add: new_coordinator_def)
  note iff = idle_grant_iff_can_ever_fit
    [OF new_coordinator_inv [OF sample_allocation_ok] this sample_request_ok(1)]
  moreover have "can_ever_fit (new_coordinator sample_allocation) (sample_request ''a'' 4 True)"
    by code_simp
  ultimately show ?thesis by blast
qed

text \<open>
  Property C34. Returning a lease that is not the recorded one raises, but the record is already
  gone: the task's CPUs stay counted and no lease is left to give them back, so the accounting
  invariant is broken for good.
\<close>

theorem mismatched_release_leaks:
  assumes inv: "coordinator_inv c"
    and recorded: "map_of (leases c) (lease_task_id l) = Some l'" and other: "l \<noteq> l'"
  shows "snd (release c l) \<noteq> None \<and> map_of (leases (fst (release c l))) (lease_task_id l) = None \<and>
    used_cpus (fst (release c l)) =
      lease_cpus l' + sum_list (map (lease_cpus \<circ> snd) (leases (fst (release c l)))) \<and>
    \<not> coordinator_inv (fst (release c l))"
proof -
  have r: "release c l = (c\<lparr>leases := AList.delete (lease_task_id l) (leases c)\<rparr>,
      Some (RuntimeError (''unknown or mismatched resource lease: '' @ lease_task_id l)))"
    using recorded other by (auto simp: release_def)
  have parts: "leases_ok c" "counters_ok c" using inv by (simp_all add: coordinator_inv_def)
  then have "0 < lease_cpus l'"
    using map_of_SomeD [OF recorded] by (auto simp: leases_ok_iff lease_ok_def)
  moreover have sum: "used_cpus c = lease_cpus l' +
      sum_list (map (lease_cpus \<circ> snd) (AList.delete (lease_task_id l) (leases c)))"
    using sum_list_delete [OF _ recorded, of lease_cpus] parts
    by (simp add: counters_ok_def leases_ok_iff)
  ultimately show ?thesis
    by (auto simp: r coordinator_inv_def counters_ok_def)
qed

theorem mismatched_release_leaks_witness:
  "\<exists>c l. map_of (leases c) ''a'' \<noteq> None \<and> used_cpus (fst (release c l)) = 4 \<and>
     leases (fst (release c l)) = [] \<and> \<not> coordinator_inv (fst (release c l))"
proof -
  let ?c0 = "new_coordinator sample_allocation" and ?r = "sample_request ''a'' 4 True"
  let ?l = "\<lparr>lease_task_id = ''a'', lease_cpus = 4, lease_nodes = 1, lease_hosts = [''h2'']\<rparr>"
  have "case try_acquire ?c0 ?r [] None of
      Inr (c, Some l) \<Rightarrow> map_of (leases c) ''a'' = Some l \<and> ?l \<noteq> l \<and>
        used_cpus (fst (release c ?l)) = 4 \<and> leases (fst (release c ?l)) = [] | _ \<Rightarrow> False"
    by code_simp
  then obtain c l' where acq: "try_acquire ?c0 ?r [] None = Inr (c, Some l')"
    and rec: "map_of (leases c) (lease_task_id ?l) = Some l'" "?l \<noteq> l'"
    and vals: "used_cpus (fst (release c ?l)) = 4" "leases (fst (release c ?l)) = []"
    by (auto split: sum.splits option.splits prod.splits)
  have "coordinator_inv c"
    by (rule try_acquire_inv [OF new_coordinator_inv [OF sample_allocation_ok] sample_request_ok(1) acq])
  from mismatched_release_leaks [OF this rec] have "\<not> coordinator_inv (fst (release c ?l))" by blast
  with rec vals show ?thesis by (intro exI [of _ c] exI [of _ ?l]) simp
qed

text \<open>
  At the end of an invocation \<open>assert_released\<close> passes exactly when no lease is recorded: the other
  counters it looks at can not be left over on their own.
\<close>

lemma assert_released_iff:
  assumes "coordinator_inv c"
  shows "assert_released c = Inr () \<longleftrightarrow> leases c = []"
proof -
  have "counters_ok c" "shared_ok c" using assms by (simp_all add: coordinator_inv_def)
  then have "leases c = [] \<Longrightarrow> used_cpus c = 0 \<and> used_nodes c = 0 \<and> used_hosts c = {}"
    and "leases c = [] \<Longrightarrow> local_shared_hosts c = []"
    using shared_okD(4) [of c]
    by (auto simp: counters_ok_def current_node_usage_def) (cases "local_shared_hosts c", auto)
  then show ?thesis by (auto simp: assert_released_def)
qed

end
