(* ===== verification/ControllerContracts.thy ===== *)
theory ControllerContracts
  imports Prelude
begin

text \<open>
  Validation of the native controller contracts:
  \<open>src/qraft/execution/controller_contracts.py\<close> and the packaged schema of a ledger entry
  (\<open>controller_schemas/qraft-controller-ledger-entry.schema.json\<close> with the shared definitions of
  \<open>defs.schema.json\<close>). Failures are \<open>ControllerContractError\<close>, a \<open>ValueError\<close>.
\<close>

section \<open>Timestamps\<close>

text \<open>A character class per position: \<open>d\<close> stands for a digit, every other character for itself.\<close>

definition shaped :: "string \<Rightarrow> string \<Rightarrow> bool" where
  "shaped p s \<longleftrightarrow> list_all2 (\<lambda>a c. if a = CHR ''d'' then is_digit c else c = a) p s"

text \<open>The pattern \<open>^dddd-dd-ddTdd:dd:dd(.d{1,9})?Z$\<close> of \<open>defs.schema.json\<close>.\<close>

definition timestamp_pattern :: "string \<Rightarrow> bool" where
  "timestamp_pattern s \<longleftrightarrow>
     s \<noteq> [] \<and> last s = CHR ''Z'' \<and>
     (let body = butlast s; rest = drop 19 body in
        shaped ''dddd-dd-ddTdd:dd:dd'' (take 19 body) \<and>
        (rest = [] \<or>
         (hd rest = CHR ''.'' \<and> 1 \<le> length (tl rest) \<and> length (tl rest) \<le> 9 \<and>
          list_all is_digit (tl rest))))"

definition leap_year :: "nat \<Rightarrow> bool" where
  "leap_year y \<longleftrightarrow> y mod 4 = 0 \<and> (y mod 100 \<noteq> 0 \<or> y mod 400 = 0)"

definition days_in_month :: "nat \<Rightarrow> nat \<Rightarrow> nat" where
  "days_in_month y m =
     (if m = 2 then (if leap_year y then 29 else 28)
      else if m \<in> {4, 6, 9, 11} then 30 else 31)"

text \<open>
  \<open>_valid_utc_calendar\<close>: the part before the fraction is a date and a time of day that
  \<open>datetime.strptime\<close> accepts. The checker only runs beside the pattern, whose two-digit layout
  is asked for here as well (\<open>strptime\<close> alone would also read one-digit fields).
\<close>

definition valid_utc_calendar :: "string \<Rightarrow> bool" where
  "valid_utc_calendar s \<longleftrightarrow>
     s \<noteq> [] \<and> last s = CHR ''Z'' \<and>
     (let w = takeWhile (\<lambda>c. c \<noteq> CHR ''.'') (butlast s);
          num = (\<lambda>i n. dec_val (take n (drop i w)))
      in shaped ''dddd-dd-ddTdd:dd:dd'' w \<and>
         1 \<le> num 0 4 \<and> 1 \<le> num 5 2 \<and> num 5 2 \<le> 12 \<and>
         1 \<le> num 8 2 \<and> num 8 2 \<le> days_in_month (num 0 4) (num 5 2) \<and>
         num 11 2 \<le> 23 \<and> num 14 2 \<le> 59 \<and> num 17 2 \<le> 59)"

text \<open>
  \<open>timestamp_key\<close>: the text up to the second and the fraction padded to nanoseconds. Tuples
  compare component by component; the texts have one fixed layout.
\<close>

definition ljust9 :: "string \<Rightarrow> string" where
  "ljust9 s = s @ replicate (9 - length s) CHR ''0''"

definition timestamp_key :: "string \<Rightarrow> string \<times> int" where
  "timestamp_key s =
     (let v = butlast s;
          whole = takeWhile (\<lambda>c. c \<noteq> CHR ''.'') v;
          rest = dropWhile (\<lambda>c. c \<noteq> CHR ''.'') v
      in (whole, if rest = [] then 0 else dec_int (ljust9 (tl rest))))"

definition key_after :: "string \<times> int \<Rightarrow> string \<times> int \<Rightarrow> bool" where
  "key_after a b \<longleftrightarrow> fst b < fst a \<or> (fst a = fst b \<and> snd b < snd a)"

section \<open>Schema vocabulary\<close>

text \<open>
  JSON Schema's \<open>integer\<close> admits a number with a zero fraction; \<open>True\<close> is not an integer there.
\<close>

fun json_integer :: "pyval \<Rightarrow> int option" where
  "json_integer (PInt n) = Some n"
| "json_integer (PFloat q) = (if of_int \<lfloor>q\<rfloor> = q then Some \<lfloor>q\<rfloor> else None)"
| "json_integer _ = None"

definition int_between :: "int \<Rightarrow> int \<Rightarrow> pyval \<Rightarrow> bool" where
  "int_between lo hi v = (case json_integer v of None \<Rightarrow> False | Some n \<Rightarrow> lo \<le> n \<and> n \<le> hi)"

definition safe_count :: "pyval \<Rightarrow> bool" where
  "safe_count v = int_between 0 9007199254740991 v"

fun str_len_between :: "int \<Rightarrow> int \<Rightarrow> pyval \<Rightarrow> bool" where
  "str_len_between lo hi (PStr s) = (lo \<le> int (length s) \<and> int (length s) \<le> hi)"
| "str_len_between lo hi _ = False"

fun schema_timestamp :: "pyval \<Rightarrow> bool" where
  "schema_timestamp (PStr s) = (timestamp_pattern s \<and> valid_utc_calendar s)"
| "schema_timestamp _ = False"

text \<open>Python's \<open>$\<close> also matches just before a final newline.\<close>

definition chop_newline :: "string \<Rightarrow> string" where
  "chop_newline s = (if s \<noteq> [] \<and> last s = CHR 10 then butlast s else s)"

definition or_chopped :: "(string \<Rightarrow> bool) \<Rightarrow> string \<Rightarrow> bool" where
  "or_chopped p s \<longleftrightarrow> p s \<or> p (chop_newline s)"

definition sha256_text :: "string \<Rightarrow> bool" where
  "sha256_text s \<longleftrightarrow> length s = 64 \<and> list_all is_hex_lower s"

fun schema_sha256 :: "pyval \<Rightarrow> bool" where
  "schema_sha256 (PStr s) = or_chopped sha256_text s"
| "schema_sha256 _ = False"

definition code_text :: "string \<Rightarrow> bool" where
  "code_text s \<longleftrightarrow>
     s \<noteq> [] \<and> is_upper (hd s) \<and> length (tl s) \<le> 63 \<and>
     list_all (\<lambda>c. is_upper c \<or> is_digit c \<or> c = CHR ''_'') (tl s)"

fun schema_code :: "pyval \<Rightarrow> bool" where
  "schema_code (PStr s) = or_chopped code_text s"
| "schema_code _ = False"

text \<open>\<open>^[^/]+/[^/]+/[1-9][0-9]*$\<close>\<close>

definition trace_text :: "string \<Rightarrow> bool" where
  "trace_text s \<longleftrightarrow>
     (let slash = CHR ''/'';
          a = takeWhile (\<lambda>c. c \<noteq> slash) s;
          r1 = dropWhile (\<lambda>c. c \<noteq> slash) s;
          b = takeWhile (\<lambda>c. c \<noteq> slash) (tl r1);
          r2 = dropWhile (\<lambda>c. c \<noteq> slash) (tl r1);
          n = tl r2
      in a \<noteq> [] \<and> r1 \<noteq> [] \<and> b \<noteq> [] \<and> r2 \<noteq> [] \<and> n \<noteq> [] \<and>
         list_all is_digit n \<and> hd n \<noteq> CHR ''0'')"

fun schema_trace :: "pyval \<Rightarrow> bool" where
  "schema_trace (PStr s) = or_chopped trace_text s"
| "schema_trace _ = False"

fun schema_hosts :: "pyval \<Rightarrow> bool" where
  "schema_hosts (PList vs) = (vs \<noteq> [] \<and> distinct vs \<and> list_all (str_len_between 1 255) vs)"
| "schema_hosts _ = False"

fun schema_key :: "pyval \<Rightarrow> bool" where
  "schema_key (PDict d) =
     (set (map fst d) = {''checkpoint_identity'', ''node_id''} \<and>
      list_all (\<lambda>p. str_len_between 1 4096 (snd p)) d)"
| "schema_key _ = False"

section \<open>Ledger entries\<close>

datatype ledger_event =
    LAUNCH_INTENT
  | LAUNCH_STARTED
  | LAUNCH_FINISHED
  | LAUNCH_ABANDONED
  | NODE_SETTLED
  | SETTLEMENT_RECOVERED

definition event_of :: "pyval \<Rightarrow> ledger_event option" where
  "event_of v =
     (if v = PStr ''LAUNCH_INTENT'' then Some LAUNCH_INTENT
      else if v = PStr ''LAUNCH_STARTED'' then Some LAUNCH_STARTED
      else if v = PStr ''LAUNCH_FINISHED'' then Some LAUNCH_FINISHED
      else if v = PStr ''LAUNCH_ABANDONED'' then Some LAUNCH_ABANDONED
      else if v = PStr ''NODE_SETTLED'' then Some NODE_SETTLED
      else if v = PStr ''SETTLEMENT_RECOVERED'' then Some SETTLEMENT_RECOVERED
      else None)"

text \<open>The schema of each property of an entry; a name outside the list is refused.\<close>

definition entry_property_ok :: "string \<times> pyval \<Rightarrow> bool" where
  "entry_property_ok p =
     (let k = fst p; v = snd p in
      if k = ''contract'' then v = PStr ''qraft.controller-inner-ledger@1.0''
      else if k = ''seq'' then safe_count v
      else if k = ''event'' then event_of v \<noteq> None
      else if k = ''at'' then schema_timestamp v
      else if k = ''task_id'' \<or> k = ''attempt_id'' \<or> k = ''source_attempt_id''
        then str_len_between 1 4096 v
      else if k = ''key'' then schema_key v
      else if k = ''trace_id'' then schema_trace v
      else if k = ''hosts'' then schema_hosts v
      else if k = ''ranks'' \<or> k = ''cpus_per_rank'' \<or> k = ''pid'' then safe_count v
      else if k = ''argv_sha256'' then schema_sha256 v
      else if k = ''exit_code'' then int_between (- 255) 255 v
      else if k = ''reason'' then schema_code v
      else if k = ''native_state'' then str_len_between 1 64 v
      else if k = ''evidence_digest'' then str_len_between 1 4096 v \<or> v = PNone
      else False)"

fun required_for :: "ledger_event \<Rightarrow> string list" where
  "required_for LAUNCH_INTENT = [''trace_id'', ''hosts'', ''ranks'', ''cpus_per_rank'', ''argv_sha256'']"
| "required_for LAUNCH_STARTED = [''trace_id'', ''pid'']"
| "required_for LAUNCH_FINISHED = [''trace_id'', ''exit_code'']"
| "required_for LAUNCH_ABANDONED = [''trace_id'', ''reason'']"
| "required_for NODE_SETTLED = [''trace_id'', ''native_state'', ''evidence_digest'']"
| "required_for SETTLEMENT_RECOVERED = [''native_state'', ''evidence_digest'', ''source_attempt_id'']"

definition entry_schema_ok :: "pyval dict \<Rightarrow> bool" where
  "entry_schema_ok d =
     (list_all entry_property_ok d \<and>
      list_all (\<lambda>k. k \<in> set (map fst d))
        [''contract'', ''seq'', ''event'', ''at'', ''task_id'', ''attempt_id'', ''key''] \<and>
      (case Option.bind (map_of d ''event'') event_of of
         None \<Rightarrow> False
       | Some e \<Rightarrow> list_all (\<lambda>k. k \<in> set (map fst d)) (required_for e) \<and>
                   (e = SETTLEMENT_RECOVERED \<longrightarrow> ''trace_id'' \<notin> set (map fst d))))"

text \<open>An entry the schema accepted, with the fields the rules read.\<close>

record ledger_line =
  line_seq :: int
  line_event :: ledger_event
  line_at :: string
  line_task_id :: string
  line_attempt_id :: string
  line_identity :: string
  line_node_id :: string
  line_trace_id :: string
  line_hosts :: "string list"
  line_ranks :: int
  line_cpus_per_rank :: int
  line_source_attempt_id :: string

fun str_of :: "pyval \<Rightarrow> string" where
  "str_of (PStr s) = s"
| "str_of _ = []"

fun strs_of :: "pyval \<Rightarrow> string list" where
  "strs_of (PList vs) = map str_of vs"
| "strs_of _ = []"

fun dict_of :: "pyval \<Rightarrow> pyval dict" where
  "dict_of (PDict d) = d"
| "dict_of _ = []"

definition int_field :: "pyval dict \<Rightarrow> string \<Rightarrow> int" where
  "int_field d k = (case json_integer (field_or PNone d k) of None \<Rightarrow> 0 | Some n \<Rightarrow> n)"

definition ledger_line_of :: "pyval dict \<Rightarrow> ledger_event \<Rightarrow> ledger_line" where
  "ledger_line_of d e =
     (let key = dict_of (field_or PNone d ''key'') in
      \<lparr>line_seq = int_field d ''seq'', line_event = e, line_at = str_of (field_or PNone d ''at''),
       line_task_id = str_of (field_or PNone d ''task_id''),
       line_attempt_id = str_of (field_or PNone d ''attempt_id''),
       line_identity = str_of (field_or PNone key ''checkpoint_identity''),
       line_node_id = str_of (field_or PNone key ''node_id''),
       line_trace_id = str_of (field_or PNone d ''trace_id''),
       line_hosts = strs_of (field_or PNone d ''hosts''),
       line_ranks = int_field d ''ranks'', line_cpus_per_rank = int_field d ''cpus_per_rank'',
       line_source_attempt_id = str_of (field_or PNone d ''source_attempt_id'')\<rparr>)"

text \<open>
  \<open>validate_controller_ledger_entry\<close>, returning the entry as the rules read it. The two checks
  after the schema are the function's own.
\<close>

definition validate_ledger_entry :: "pyval \<Rightarrow> ledger_line res" where
  "validate_ledger_entry v =
     (case v of
        PDict d \<Rightarrow>
          (if \<not> entry_schema_ok d
           then Inl (ValueError ''invalid qraft-controller-ledger-entry.schema.json'')
           else case Option.bind (map_of d ''event'') event_of of
                  None \<Rightarrow> Inl (ValueError ''invalid qraft-controller-ledger-entry.schema.json'')
                | Some e \<Rightarrow>
                    (let l = ledger_line_of d e in
                     if line_seq l < 1 then Inl (ValueError ''ledger sequence must start at 1'')
                     else if e = LAUNCH_INTENT \<and> (line_ranks l < 1 \<or> line_cpus_per_rank l < 1)
                     then Inl (ValueError ''ledger launch dimensions must be positive'')
                     else Inr l))
      | _ \<Rightarrow> Inl (ValueError ''invalid qraft-controller-ledger-entry.schema.json''))"

lemma validate_ledger_entry_bounds:
  assumes "validate_ledger_entry v = Inr l"
  shows "1 \<le> line_seq l"
    and "line_event l = LAUNCH_INTENT \<Longrightarrow> 1 \<le> line_ranks l \<and> 1 \<le> line_cpus_per_rank l"
  using assms
  by (auto simp: validate_ledger_entry_def Let_def ledger_line_of_def
      split: pyval.splits if_splits option.splits)

text \<open>
  \<open>read_controller_ledger\<close> takes the file line by line. A record of the model is one line with
  whether it ended in a newline and what the strict JSON parser made of it; a torn last line is
  refused, never dropped.
\<close>

fun read_controller_ledger :: "(bool \<times> pyval res) list \<Rightarrow> pyval list res" where
  "read_controller_ledger [] = Inr []"
| "read_controller_ledger ((whole_line, parsed) # rest) =
     (if \<not> whole_line then Inl (ValueError ''ledger has an incomplete line'')
      else rbind parsed (\<lambda>v. rbind (validate_ledger_entry v) (\<lambda>_.
           rbind (read_controller_ledger rest) (\<lambda>vs. Inr (v # vs)))))"

text \<open>
  \<open>_unique_object\<close>, the hook \<open>json.loads\<close> calls with the pairs of an object: a repeated key is
  an error instead of the last value winning.
\<close>

fun unique_object :: "(string \<times> pyval) list \<Rightarrow> pyval dict \<Rightarrow> pyval dict res" where
  "unique_object [] result = Inr result"
| "unique_object ((k, v) # ps) result =
     (if map_of result k \<noteq> None then Inl (ValueError (''duplicate JSON key: '' @ k))
      else unique_object ps (AList.update k v result))"

lemma unique_object_Inr:
  assumes "unique_object ps result = Inr d"
  shows "d = result @ ps \<and> distinct (map fst ps) \<and> fst ` set ps \<inter> fst ` set result = {}"
  using assms
proof (induction ps arbitrary: result)
  case Nil
  then show ?case by simp
next
  case (Cons p ps)
  obtain k v where p: "p = (k, v)" by (cases p)
  with Cons.prems have fresh: "k \<notin> fst ` set result"
    by (auto simp: map_of_eq_None_iff split: if_splits)
  with Cons.prems p have "unique_object ps (result @ [(k, v)]) = Inr d"
    by (simp add: update_new map_of_eq_None_iff)
  from Cons.IH [OF this] fresh p show ?case by auto
qed

end
