(* ===== verification/ControllerLedger.thy ===== *)
theory ControllerLedger
  imports ControllerContracts
begin

text \<open>
  The evaluation of a controller's inner launch ledgers: \<open>src/qraft/execution/controller_ledger.py\<close>.
  The evaluator walks every attempt's lines in order and returns the first broken rule. What an
  accepted history guarantees is stated over the lines themselves, without the evaluator's
  dictionaries.
\<close>

section \<open>The evaluator\<close>

datatype ledger_code =
    ACCEPT
  | LEDGER_MALFORMED
  | LEDGER_IDENTITY_CHANGED
  | INTENT_AFTER_DEADLINE
  | HOSTS_OUTSIDE_RESERVATION
  | DUPLICATE_SETTLED_LAUNCH
  | CONCURRENT_KEY_LAUNCH
  | CONCURRENCY_EXCEEDED
  | CPU_EXCEEDED
  | UNKNOWN_TRACE
  | SETTLED_WITHOUT_FINISHED_LAUNCH
  | SETTLED_KEY_MISMATCH
  | DUPLICATE_SETTLEMENT
  | RECOVERY_AFTER_LAUNCH
  | RECOVERED_WITHOUT_LAUNCH
  | UNCLOSED_INTENT

definition resource_codes :: "ledger_code set" where
  "resource_codes =
     {HOSTS_OUTSIDE_RESERVATION, CPU_EXCEEDED, CONCURRENCY_EXCEEDED, INTENT_AFTER_DEADLINE}"

definition verdict_reason :: "ledger_code \<Rightarrow> string option" where
  "verdict_reason c =
     (if c = ACCEPT then None
      else Some (if c \<in> resource_codes then ''CONTROLLER_RESERVATION_VIOLATED''
                 else ''CONTROLLER_LEDGER_INCONSISTENT''))"

text \<open>The rules projection of a reservation, and an attempt's ledger with how it ended.\<close>

record ledger_rules =
  rules_task_id :: string
  rules_hosts :: "string list"
  rules_runtime_cpus :: int
  rules_max_concurrent :: int
  rules_stop_launching_at :: string

record ledger_attempt =
  att_id :: string
  att_end :: string
  att_lines :: "pyval list"

type_synonym ledger_key = "string \<times> string"

definition line_key :: "ledger_line \<Rightarrow> ledger_key" where
  "line_key l = (line_identity l, line_node_id l)"

definition launch_cpus :: "ledger_line \<Rightarrow> int" where
  "launch_cpus l = line_ranks l * line_cpus_per_rank l"

definition trace_name :: "string \<Rightarrow> string \<Rightarrow> int \<Rightarrow> string" where
  "trace_name task attempt seq = task @ ''/'' @ attempt @ ''/'' @ int_str seq"

text \<open>
  The evaluator's variables: \<open>settled\<close>, \<open>finished_by_attempt\<close> and \<open>identity\<close> live across
  attempts; \<open>opened\<close>, \<open>closed\<close>, \<open>finished\<close> and \<open>launched\<close> are per attempt.
\<close>

record ledger_state =
  settled :: "ledger_key set"
  finished_by_attempt :: "ledger_key set dict"
  ledger_identity :: "string option"
  opened :: "(ledger_key \<times> int) dict"
  closed_launches :: "(ledger_key \<times> bool) dict"
  finished :: "ledger_key set"
  launched :: bool

definition ledger_start :: ledger_state where
  "ledger_start = \<lparr>settled = {}, finished_by_attempt = [], ledger_identity = None, opened = [],
     closed_launches = [], finished = {}, launched = False\<rparr>"

definition begin_attempt :: "ledger_state \<Rightarrow> ledger_state" where
  "begin_attempt st = st\<lparr>opened := [], closed_launches := [], finished := {}, launched := False\<rparr>"

text \<open>The branch of a \<open>LAUNCH_INTENT\<close> line, with its guards in the code's order.\<close>

definition check_intent ::
  "ledger_rules \<Rightarrow> int \<Rightarrow> ledger_line \<Rightarrow> ledger_state \<Rightarrow> ledger_code + ledger_state" where
  "check_intent rules seq l st =
     (let key = line_key l; trace = line_trace_id l; cpus = launch_cpus l in
      if trace \<noteq> trace_name (line_task_id l) (line_attempt_id l) seq then Inl LEDGER_MALFORMED
      else if key_after (timestamp_key (line_at l)) (timestamp_key (rules_stop_launching_at rules))
        then Inl INTENT_AFTER_DEADLINE
      else if list_ex (\<lambda>h. h \<notin> set (rules_hosts rules)) (line_hosts l)
        then Inl HOSTS_OUTSIDE_RESERVATION
      else if key \<in> settled st then Inl DUPLICATE_SETTLED_LAUNCH
      else if list_ex (\<lambda>p. fst (snd p) = key) (opened st) then Inl CONCURRENT_KEY_LAUNCH
      else if rules_max_concurrent rules < int (length (opened st)) + 1
        then Inl CONCURRENCY_EXCEEDED
      else if rules_runtime_cpus rules < sum_list (map (snd \<circ> snd) (opened st)) + cpus
        then Inl CPU_EXCEEDED
      else Inr (st\<lparr>opened := AList.update trace (key, cpus) (opened st), launched := True\<rparr>))"

text \<open>\<open>LAUNCH_STARTED\<close>, \<open>LAUNCH_FINISHED\<close> and \<open>LAUNCH_ABANDONED\<close>: the trace must be open for its key.\<close>

definition check_launch_event :: "ledger_line \<Rightarrow> ledger_state \<Rightarrow> ledger_code + ledger_state" where
  "check_launch_event l st =
     (let key = line_key l; trace = line_trace_id l; done = (line_event l = LAUNCH_FINISHED) in
      case map_of (opened st) trace of
        None \<Rightarrow> Inl UNKNOWN_TRACE
      | Some (k, _) \<Rightarrow>
          if k \<noteq> key then Inl UNKNOWN_TRACE
          else if line_event l \<noteq> LAUNCH_STARTED
          then Inr (st\<lparr>opened := AList.delete trace (opened st),
                       closed_launches := AList.update trace (key, done) (closed_launches st),
                       finished := (if done then insert key (finished st) else finished st)\<rparr>)
          else Inr st)"

definition check_settled :: "ledger_line \<Rightarrow> ledger_state \<Rightarrow> ledger_code + ledger_state" where
  "check_settled l st =
     (let key = line_key l in
      case map_of (closed_launches st) (line_trace_id l) of
        None \<Rightarrow> Inl SETTLED_WITHOUT_FINISHED_LAUNCH
      | Some (k, done) \<Rightarrow>
          if \<not> done then Inl SETTLED_WITHOUT_FINISHED_LAUNCH
          else if k \<noteq> key then Inl SETTLED_KEY_MISMATCH
          else if key \<in> settled st then Inl DUPLICATE_SETTLEMENT
          else Inr (st\<lparr>settled := insert key (settled st)\<rparr>))"

definition check_recovered :: "ledger_line \<Rightarrow> ledger_state \<Rightarrow> ledger_code + ledger_state" where
  "check_recovered l st =
     (let key = line_key l in
      if launched st then Inl RECOVERY_AFTER_LAUNCH
      else if key \<in> settled st then Inl DUPLICATE_SETTLEMENT
      else if key \<notin> (case map_of (finished_by_attempt st) (line_source_attempt_id l) of
                         None \<Rightarrow> {} | Some ks \<Rightarrow> ks)
        then Inl RECOVERED_WITHOUT_LAUNCH
      else Inr (st\<lparr>settled := insert key (settled st)\<rparr>))"

fun check_event ::
  "ledger_rules \<Rightarrow> int \<Rightarrow> ledger_line \<Rightarrow> ledger_state \<Rightarrow> ledger_code + ledger_state" where
  "check_event rules seq l st =
     (case line_event l of
        LAUNCH_INTENT \<Rightarrow> check_intent rules seq l st
      | LAUNCH_STARTED \<Rightarrow> check_launch_event l st
      | LAUNCH_FINISHED \<Rightarrow> check_launch_event l st
      | LAUNCH_ABANDONED \<Rightarrow> check_launch_event l st
      | NODE_SETTLED \<Rightarrow> check_settled l st
      | SETTLEMENT_RECOVERED \<Rightarrow> check_recovered l st)"

definition check_line ::
  "string \<Rightarrow> ledger_rules \<Rightarrow> string \<Rightarrow> int \<Rightarrow> ledger_line \<Rightarrow> ledger_state \<Rightarrow>
   ledger_code + ledger_state" where
  "check_line task rules aid seq l st =
     (if line_seq l \<noteq> seq \<or> line_task_id l \<noteq> task \<or> line_attempt_id l \<noteq> aid
      then Inl LEDGER_MALFORMED
      else let st1 = (case ledger_identity st of
                        None \<Rightarrow> st\<lparr>ledger_identity := Some (line_identity l)\<rparr> | Some _ \<Rightarrow> st)
           in if ledger_identity st1 \<noteq> Some (line_identity l) then Inl LEDGER_IDENTITY_CHANGED
              else check_event rules seq l st1)"

fun check_lines ::
  "string \<Rightarrow> ledger_rules \<Rightarrow> string \<Rightarrow> int \<Rightarrow> pyval list \<Rightarrow> ledger_state \<Rightarrow>
   ledger_code + ledger_state" where
  "check_lines task rules aid seq [] st = Inr st"
| "check_lines task rules aid seq (v # vs) st =
     (case validate_ledger_entry v of
        Inl _ \<Rightarrow> Inl LEDGER_MALFORMED
      | Inr l \<Rightarrow> (case check_line task rules aid seq l st of
                    Inl c \<Rightarrow> Inl c
                  | Inr st' \<Rightarrow> check_lines task rules aid (seq + 1) vs st'))"

text \<open>
  \<open>attempt_reservations\<close>, when given, has the rules each attempt was recorded under; its keys
  were checked to be the attempts' ids.
\<close>

definition rules_for :: "ledger_rules \<Rightarrow> ledger_rules dict option \<Rightarrow> string \<Rightarrow> ledger_rules" where
  "rules_for reservation recorded aid =
     (case recorded of None \<Rightarrow> reservation
      | Some d \<Rightarrow> (case map_of d aid of None \<Rightarrow> reservation | Some r \<Rightarrow> r))"

definition check_attempt ::
  "ledger_rules \<Rightarrow> ledger_rules dict option \<Rightarrow> ledger_attempt \<Rightarrow> ledger_state \<Rightarrow>
   ledger_code + ledger_state" where
  "check_attempt reservation recorded a st =
     (let rules = rules_for reservation recorded (att_id a) in
      if rules_task_id rules \<noteq> rules_task_id reservation then Inl LEDGER_MALFORMED
      else (case check_lines (rules_task_id reservation) rules (att_id a) 1 (att_lines a)
                   (begin_attempt st) of
              Inl c \<Rightarrow> Inl c
            | Inr st' \<Rightarrow>
                if att_end a = ''NORMAL'' \<and> opened st' \<noteq> [] then Inl UNCLOSED_INTENT
                else Inr (st'\<lparr>finished_by_attempt :=
                                AList.update (att_id a) (finished st') (finished_by_attempt st')\<rparr>)))"

fun check_attempts ::
  "ledger_rules \<Rightarrow> ledger_rules dict option \<Rightarrow> ledger_attempt list \<Rightarrow> ledger_state \<Rightarrow>
   ledger_code + ledger_state" where
  "check_attempts reservation recorded [] st = Inr st"
| "check_attempts reservation recorded (a # as) st =
     (case check_attempt reservation recorded a st of
        Inl c \<Rightarrow> Inl c
      | Inr st' \<Rightarrow> check_attempts reservation recorded as st')"

definition evaluate_controller_ledger ::
  "ledger_rules \<Rightarrow> ledger_attempt list \<Rightarrow> ledger_rules dict option \<Rightarrow> ledger_code" where
  "evaluate_controller_ledger reservation attempts recorded =
     (let ids = map att_id attempts in
      if \<not> distinct ids then LEDGER_MALFORMED
      else if (case recorded of None \<Rightarrow> False | Some d \<Rightarrow> set (map fst d) \<noteq> set ids)
        then LEDGER_MALFORMED
      else (case check_attempts reservation recorded attempts ledger_start of
              Inl c \<Rightarrow> c | Inr _ \<Rightarrow> ACCEPT))"

section \<open>What the lines of a ledger say\<close>

text \<open>
  The lines of an attempt as validated entries; the launches that are open at the end of a list of
  lines: the intents whose trace no later line closed; the keys settled, in order.
\<close>

definition ledger_lines :: "pyval list \<Rightarrow> ledger_line list" where
  "ledger_lines vs =
     concat (map (\<lambda>v. case validate_ledger_entry v of Inl _ \<Rightarrow> [] | Inr l \<Rightarrow> [l]) vs)"

definition closes :: "ledger_line \<Rightarrow> bool" where
  "closes l \<longleftrightarrow> line_event l = LAUNCH_FINISHED \<or> line_event l = LAUNCH_ABANDONED"

definition open_launches :: "ledger_line list \<Rightarrow> ledger_line list" where
  "open_launches ls =
     filter (\<lambda>l. line_event l = LAUNCH_INTENT \<and>
                 \<not> list_ex (\<lambda>m. closes m \<and> line_trace_id m = line_trace_id l) ls) ls"

definition settles :: "ledger_line \<Rightarrow> bool" where
  "settles l \<longleftrightarrow> line_event l = NODE_SETTLED \<or> line_event l = SETTLEMENT_RECOVERED"

definition settled_keys :: "ledger_line list \<Rightarrow> ledger_key list" where
  "settled_keys ls = map line_key (filter settles ls)"

definition resource_safe :: "ledger_rules \<Rightarrow> ledger_line list \<Rightarrow> bool" where
  "resource_safe rules live \<longleftrightarrow>
     live = [] \<or>
     (sum_list (map launch_cpus live) \<le> rules_runtime_cpus rules \<and>
      int (length live) \<le> rules_max_concurrent rules \<and>
      distinct (map line_key live) \<and>
      (\<forall>l \<in> set live. set (line_hosts l) \<subseteq> set (rules_hosts rules) \<and>
         \<not> key_after (timestamp_key (line_at l)) (timestamp_key (rules_stop_launching_at rules))))"

section \<open>Accepted lines\<close>

text \<open>The walk over validated lines.\<close>

fun run_lines ::
  "string \<Rightarrow> ledger_rules \<Rightarrow> string \<Rightarrow> int \<Rightarrow> ledger_line list \<Rightarrow> ledger_state \<Rightarrow>
   ledger_code + ledger_state" where
  "run_lines task rules aid seq [] st = Inr st"
| "run_lines task rules aid seq (l # ls) st =
     (case check_line task rules aid seq l st of
        Inl c \<Rightarrow> Inl c | Inr st' \<Rightarrow> run_lines task rules aid (seq + 1) ls st')"

lemma ledger_lines_Nil [simp]: "ledger_lines [] = []"
  by (simp add: ledger_lines_def)

lemma ledger_lines_Cons:
  "validate_ledger_entry v = Inr l \<Longrightarrow> ledger_lines (v # vs) = l # ledger_lines vs"
  by (simp add: ledger_lines_def)

lemma check_lines_run:
  "check_lines task rules aid seq vs st = Inr st' \<Longrightarrow>
   run_lines task rules aid seq (ledger_lines vs) st = Inr st'"
  by (induction vs arbitrary: seq st) (auto simp: ledger_lines_Cons split: sum.splits)

lemma run_lines_append:
  "run_lines task rules aid seq (xs @ ys) st =
     (case run_lines task rules aid seq xs st of
        Inl c \<Rightarrow> Inl c | Inr st' \<Rightarrow> run_lines task rules aid (seq + int (length xs)) ys st')"
  by (induction xs arbitrary: seq st) (auto split: sum.splits simp: algebra_simps)

lemma run_lines_snocE:
  assumes "run_lines task rules aid seq (ls @ [l]) st = Inr st'"
  obtains st1 where "run_lines task rules aid seq ls st = Inr st1"
    and "check_line task rules aid (seq + int (length ls)) l st1 = Inr st'"
  using assms by (auto simp: run_lines_append split: sum.splits)

lemma run_lines_splitE:
  assumes "run_lines task rules aid seq (pre @ l # post) st = Inr st'"
  obtains st1 st2 where "run_lines task rules aid seq pre st = Inr st1"
    and "check_line task rules aid (seq + int (length pre)) l st1 = Inr st2"
    and "run_lines task rules aid seq (pre @ [l]) st = Inr st2"
    and "run_lines task rules aid (seq + int (length pre) + 1) post st2 = Inr st'"
  using assms by (auto simp: run_lines_append split: sum.splits)

text \<open>What a line that passed says, event by event.\<close>

definition named :: "ledger_line \<Rightarrow> ledger_state \<Rightarrow> ledger_state" where
  "named l st = (case ledger_identity st of
                   None \<Rightarrow> st\<lparr>ledger_identity := Some (line_identity l)\<rparr> | Some _ \<Rightarrow> st)"

lemma named_simps [simp]:
  "settled (named l st) = settled st" "finished_by_attempt (named l st) = finished_by_attempt st"
  "opened (named l st) = opened st" "closed_launches (named l st) = closed_launches st"
  "finished (named l st) = finished st" "launched (named l st) = launched st"
  by (simp_all add: named_def split: option.splits)

lemma check_line_Inr:
  assumes "check_line task rules aid seq l st = Inr st'"
  shows "line_seq l = seq" "line_task_id l = task" "line_attempt_id l = aid"
    and "ledger_identity (named l st) = Some (line_identity l)"
    and "check_event rules seq l (named l st) = Inr st'"
  using assms by (auto simp: check_line_def named_def Let_def split: if_splits)

lemma check_intent_Inr:
  assumes "check_intent rules seq l st = Inr st'"
  shows "line_trace_id l = trace_name (line_task_id l) (line_attempt_id l) seq"
    and "\<not> key_after (timestamp_key (line_at l)) (timestamp_key (rules_stop_launching_at rules))"
    and "set (line_hosts l) \<subseteq> set (rules_hosts rules)"
    and "line_key l \<notin> settled st"
    and "line_key l \<notin> (fst \<circ> snd) ` set (opened st)"
    and "int (length (opened st)) + 1 \<le> rules_max_concurrent rules"
    and "sum_list (map (snd \<circ> snd) (opened st)) + launch_cpus l \<le> rules_runtime_cpus rules"
    and "st' = st\<lparr>opened := AList.update (line_trace_id l) (line_key l, launch_cpus l) (opened st),
                  launched := True\<rparr>"
  using assms
  by (auto simp: check_intent_def Let_def list_ex_iff image_iff simp del: update.simps
      split: if_splits)

lemma check_launch_event_Inr:
  assumes "check_launch_event l st = Inr st'"
  shows "\<exists>c. map_of (opened st) (line_trace_id l) = Some (line_key l, c)"
    and "line_event l = LAUNCH_STARTED \<Longrightarrow> st' = st"
    and "line_event l \<noteq> LAUNCH_STARTED \<Longrightarrow>
         st' = st\<lparr>opened := AList.delete (line_trace_id l) (opened st),
                  closed_launches := AList.update (line_trace_id l)
                    (line_key l, line_event l = LAUNCH_FINISHED) (closed_launches st),
                  finished := (if line_event l = LAUNCH_FINISHED
                               then insert (line_key l) (finished st) else finished st)\<rparr>"
  using assms by (auto simp: check_launch_event_def Let_def split: option.splits if_splits)

lemma check_settled_Inr:
  assumes "check_settled l st = Inr st'"
  shows "map_of (closed_launches st) (line_trace_id l) = Some (line_key l, True)"
    and "line_key l \<notin> settled st" and "st' = st\<lparr>settled := insert (line_key l) (settled st)\<rparr>"
  using assms by (auto simp: check_settled_def Let_def split: option.splits if_splits)

lemma check_recovered_Inr:
  assumes "check_recovered l st = Inr st'"
  shows "\<not> launched st" and "line_key l \<notin> settled st"
    and "\<exists>ks. map_of (finished_by_attempt st) (line_source_attempt_id l) = Some ks \<and>
              line_key l \<in> ks"
    and "st' = st\<lparr>settled := insert (line_key l) (settled st)\<rparr>"
  using assms by (auto simp: check_recovered_def Let_def split: option.splits if_splits)

section \<open>The invariant of an attempt\<close>

text \<open>
  After the lines \<open>ls\<close> of an attempt the evaluator's dictionaries are functions of \<open>ls\<close>: \<open>opened\<close>
  lists the open launches, \<open>closed\<close> only what a closing line said, \<open>finished\<close> the keys of the
  finished launches; a closing line always closes an intent of its own key.
\<close>

definition is_intent :: "ledger_line \<Rightarrow> bool" where
  "is_intent l \<longleftrightarrow> line_event l = LAUNCH_INTENT"

definition finished_keys :: "ledger_line list \<Rightarrow> ledger_key set" where
  "finished_keys ls = line_key ` {l \<in> set ls. line_event l = LAUNCH_FINISHED}"

definition open_entry :: "ledger_line \<Rightarrow> string \<times> ledger_key \<times> int" where
  "open_entry l = (line_trace_id l, line_key l, launch_cpus l)"

definition launch_inv :: "string \<Rightarrow> string \<Rightarrow> ledger_line list \<Rightarrow> ledger_state \<Rightarrow> bool" where
  "launch_inv task aid ls st \<longleftrightarrow>
     opened st = map open_entry (open_launches ls) \<and>
     (\<forall>l \<in> set ls. is_intent l \<longrightarrow>
        (\<exists>k. 1 \<le> k \<and> k \<le> int (length ls) \<and> line_trace_id l = trace_name task aid k)) \<and>
     distinct (map line_trace_id (filter is_intent ls)) \<and>
     (\<forall>l \<in> set ls. closes l \<longrightarrow>
        (\<exists>m \<in> set ls. is_intent m \<and> line_trace_id m = line_trace_id l)) \<and>
     (\<forall>t k. map_of (closed_launches st) t = Some (k, True) \<longrightarrow>
        (\<exists>l \<in> set ls. line_event l = LAUNCH_FINISHED \<and> line_trace_id l = t \<and> line_key l = k)) \<and>
     finished st = finished_keys ls \<and>
     (launched st \<longleftrightarrow> list_ex is_intent ls)"

lemma trace_name_inj:
  "0 \<le> i \<Longrightarrow> 0 \<le> j \<Longrightarrow> trace_name task aid i = trace_name task aid j \<longleftrightarrow> i = j"
  by (simp add: trace_name_def int_str_inj_pos)

lemma open_launches_subset: "set (open_launches ls) \<subseteq> {l \<in> set ls. is_intent l}"
  by (auto simp: open_launches_def is_intent_def)

lemma open_launches_intent:
  assumes "is_intent l"
    and "\<And>m. m \<in> set ls \<Longrightarrow> closes m \<Longrightarrow> line_trace_id m \<noteq> line_trace_id l"
  shows "open_launches (ls @ [l]) = open_launches ls @ [l]"
proof -
  have "\<not> closes l" using assms(1) by (simp add: is_intent_def closes_def)
  with assms show ?thesis
    by (auto simp: open_launches_def is_intent_def list_ex_iff intro!: filter_cong)
qed

lemma open_launches_closes:
  assumes "closes l"
  shows "open_launches (ls @ [l]) =
         filter (\<lambda>m. line_trace_id m \<noteq> line_trace_id l) (open_launches ls)"
  using assms
  by (auto simp: open_launches_def closes_def list_ex_iff intro!: filter_cong)

lemma open_launches_other:
  assumes "\<not> is_intent l" "\<not> closes l"
  shows "open_launches (ls @ [l]) = open_launches ls"
  using assms by (auto simp: open_launches_def is_intent_def list_ex_iff)

lemma delete_open_entry:
  "AList.delete t (map open_entry ls) =
   map open_entry (filter (\<lambda>m. line_trace_id m \<noteq> t) ls)"
  by (induction ls) (auto simp: open_entry_def)

lemma finished_keys_snoc:
  "finished_keys (ls @ [l]) =
   (if line_event l = LAUNCH_FINISHED then insert (line_key l) (finished_keys ls)
    else finished_keys ls)"
  by (auto simp: finished_keys_def)

lemma launch_invD:
  assumes "launch_inv task aid ls st"
  shows "opened st = map open_entry (open_launches ls)"
    and "finished st = finished_keys ls"
    and "launched st \<longleftrightarrow> list_ex is_intent ls"
    and "map_of (closed_launches st) t = Some (k, True) \<Longrightarrow>
         \<exists>l \<in> set ls. line_event l = LAUNCH_FINISHED \<and> line_trace_id l = t \<and> line_key l = k"
  using assms unfolding launch_inv_def by blast+

lemma launch_inv_start: "launch_inv task aid [] (begin_attempt st)"
  by (simp add: launch_inv_def begin_attempt_def open_launches_def finished_keys_def)

lemma launch_inv_intent:
  assumes inv: "launch_inv task aid ls st" and l: "is_intent l"
    and t: "line_trace_id l = trace_name task aid (1 + int (length ls))"
    and st': "st' = st\<lparr>opened := AList.update (line_trace_id l) (line_key l, launch_cpus l)
                                (opened st), launched := True\<rparr>"
  shows "launch_inv task aid (ls @ [l]) st'"
proof -
  have old: "line_trace_id m \<noteq> line_trace_id l" if m: "m \<in> set ls" "is_intent m" for m
  proof -
    from inv m obtain k where "1 \<le> k" "k \<le> int (length ls)"
      "line_trace_id m = trace_name task aid k" unfolding launch_inv_def by blast
    with t show ?thesis by (simp add: trace_name_inj)
  qed
  have fresh: "line_trace_id m \<noteq> line_trace_id l" if "m \<in> set ls" "closes m" for m
    using inv that old unfolding launch_inv_def by metis
  have ol: "open_launches (ls @ [l]) = open_launches ls @ [l]"
    by (rule open_launches_intent [OF l fresh])
  have nin: "line_trace_id l \<notin> fst ` set (map open_entry (open_launches ls))"
    using old open_launches_subset [of ls] by (force simp: open_entry_def)
  have "opened st' = map open_entry (open_launches (ls @ [l]))"
    using launch_invD(1) [OF inv] nin by (simp add: st' ol update_new open_entry_def)
  moreover have "\<forall>m \<in> set (ls @ [l]). is_intent m \<longrightarrow>
      (\<exists>k. 1 \<le> k \<and> k \<le> int (length (ls @ [l])) \<and> line_trace_id m = trace_name task aid k)"
  proof (intro ballI impI)
    fix m assume m: "m \<in> set (ls @ [l])" "is_intent m"
    show "\<exists>k. 1 \<le> k \<and> k \<le> int (length (ls @ [l])) \<and> line_trace_id m = trace_name task aid k"
    proof (cases "m \<in> set ls")
      case True
      with inv m(2) obtain k where "1 \<le> k" "k \<le> int (length ls)"
        "line_trace_id m = trace_name task aid k" unfolding launch_inv_def by blast
      then show ?thesis by (intro exI [of _ k]) simp
    next
      case False
      with m have "m = l" by simp
      with t show ?thesis by (intro exI [of _ "1 + int (length ls)"]) simp
    qed
  qed
  moreover have "distinct (map line_trace_id (filter is_intent (ls @ [l])))"
    using inv old l unfolding launch_inv_def by force
  moreover have "\<not> closes l" "line_event l \<noteq> LAUNCH_FINISHED"
    using l by (simp_all add: is_intent_def closes_def)
  ultimately show ?thesis
    using inv l unfolding launch_inv_def st' by (simp add: finished_keys_snoc)
qed

lemma launch_inv_closes:
  assumes inv: "launch_inv task aid ls st" and l: "closes l"
    and o: "\<exists>c. map_of (opened st) (line_trace_id l) = Some (line_key l, c)"
    and st': "st' = st\<lparr>opened := AList.delete (line_trace_id l) (opened st),
                  closed_launches := AList.update (line_trace_id l)
                    (line_key l, line_event l = LAUNCH_FINISHED) (closed_launches st),
                  finished := (if line_event l = LAUNCH_FINISHED
                               then insert (line_key l) (finished st) else finished st)\<rparr>"
  shows "launch_inv task aid (ls @ [l]) st'"
proof -
  have ni: "\<not> is_intent l" using l by (auto simp: is_intent_def closes_def)
  obtain c where "(line_trace_id l, line_key l, c) \<in> set (opened st)"
    using o map_of_SomeD by fastforce
  then obtain m where m: "m \<in> set (open_launches ls)" "line_trace_id m = line_trace_id l"
    using launch_invD(1) [OF inv] by (auto simp: open_entry_def)
  then have src: "\<exists>m \<in> set ls. is_intent m \<and> line_trace_id m = line_trace_id l"
    using open_launches_subset [of ls] by blast
  have "opened st' = map open_entry (open_launches (ls @ [l]))"
    using launch_invD(1) [OF inv] by (simp add: st' delete_open_entry open_launches_closes [OF l])
  moreover have "\<forall>t k. map_of (closed_launches st') t = Some (k, True) \<longrightarrow>
      (\<exists>m \<in> set (ls @ [l]). line_event m = LAUNCH_FINISHED \<and> line_trace_id m = t \<and>
         line_key m = k)"
  proof (intro allI impI)
    fix t k assume a: "map_of (closed_launches st') t = Some (k, True)"
    show "\<exists>m \<in> set (ls @ [l]). line_event m = LAUNCH_FINISHED \<and> line_trace_id m = t \<and>
         line_key m = k"
    proof (cases "t = line_trace_id l")
      case True
      with a show ?thesis by (simp add: st')
    next
      case False
      with a have "map_of (closed_launches st) t = Some (k, True)" by (simp add: st')
      from launch_invD(4) [OF inv this] show ?thesis by auto
    qed
  qed
  moreover have "\<forall>m \<in> set (ls @ [l]). is_intent m \<longrightarrow>
      (\<exists>k. 1 \<le> k \<and> k \<le> int (length (ls @ [l])) \<and> line_trace_id m = trace_name task aid k)"
    using inv ni unfolding launch_inv_def by fastforce
  moreover have "finished st' = finished_keys (ls @ [l])"
    using launch_invD(2) [OF inv] by (simp add: st' finished_keys_snoc)
  moreover have "\<forall>x \<in> set (ls @ [l]). closes x \<longrightarrow>
      (\<exists>m \<in> set (ls @ [l]). is_intent m \<and> line_trace_id m = line_trace_id x)"
    using inv src unfolding launch_inv_def by (simp; blast)
  ultimately show ?thesis
    using inv ni unfolding launch_inv_def by (simp add: st')
qed

lemma launch_inv_other:
  assumes inv: "launch_inv task aid ls st" and l: "\<not> is_intent l" "\<not> closes l"
    and st': "opened st' = opened st" "closed_launches st' = closed_launches st"
      "finished st' = finished st" "launched st' = launched st"
  shows "launch_inv task aid (ls @ [l]) st'"
proof -
  have "line_event l \<noteq> LAUNCH_FINISHED" using l by (simp add: closes_def)
  moreover have "\<forall>m \<in> set (ls @ [l]). is_intent m \<longrightarrow>
      (\<exists>k. 1 \<le> k \<and> k \<le> int (length (ls @ [l])) \<and> line_trace_id m = trace_name task aid k)"
    using inv l unfolding launch_inv_def by fastforce
  ultimately show ?thesis
    using inv l unfolding launch_inv_def
    by (simp add: st' open_launches_other finished_keys_snoc)
qed

lemma launch_inv_named [simp]: "launch_inv task aid ls (named l st) = launch_inv task aid ls st"
  by (simp add: launch_inv_def)

lemma launch_inv_step:
  assumes inv: "launch_inv task aid ls st"
    and step: "check_line task rules aid (1 + int (length ls)) l st = Inr st'"
  shows "launch_inv task aid (ls @ [l]) st'"
proof -
  note c = check_line_Inr [OF step]
  have inv': "launch_inv task aid ls (named l st)" using inv by simp
  show ?thesis
  proof (cases "line_event l")
    case LAUNCH_INTENT
    with c(5) have i: "check_intent rules (1 + int (length ls)) l (named l st) = Inr st'" by simp
    show ?thesis
      by (rule launch_inv_intent [OF inv' _ _ check_intent_Inr(8) [OF i]])
        (use LAUNCH_INTENT check_intent_Inr(1) [OF i] c in \<open>simp_all add: is_intent_def\<close>)
  next
    case LAUNCH_STARTED
    with c(5) have i: "check_launch_event l (named l st) = Inr st'" by simp
    show ?thesis
      by (rule launch_inv_other [OF inv'])
        (use LAUNCH_STARTED check_launch_event_Inr(2) [OF i]
         in \<open>simp_all add: is_intent_def closes_def\<close>)
  next
    case LAUNCH_FINISHED
    with c(5) have i: "check_launch_event l (named l st) = Inr st'" by simp
    show ?thesis
      by (rule launch_inv_closes [OF inv' _ check_launch_event_Inr(1) [OF i]
            check_launch_event_Inr(3) [OF i]]) (simp_all add: LAUNCH_FINISHED closes_def)
  next
    case LAUNCH_ABANDONED
    with c(5) have i: "check_launch_event l (named l st) = Inr st'" by simp
    show ?thesis
      by (rule launch_inv_closes [OF inv' _ check_launch_event_Inr(1) [OF i]
            check_launch_event_Inr(3) [OF i]]) (simp_all add: LAUNCH_ABANDONED closes_def)
  next
    case NODE_SETTLED
    with c(5) have i: "check_settled l (named l st) = Inr st'" by simp
    show ?thesis
      by (rule launch_inv_other [OF inv'])
        (use NODE_SETTLED check_settled_Inr(3) [OF i]
         in \<open>simp_all add: is_intent_def closes_def\<close>)
  next
    case SETTLEMENT_RECOVERED
    with c(5) have i: "check_recovered l (named l st) = Inr st'" by simp
    show ?thesis
      by (rule launch_inv_other [OF inv'])
        (use SETTLEMENT_RECOVERED check_recovered_Inr(4) [OF i]
         in \<open>simp_all add: is_intent_def closes_def\<close>)
  qed
qed

lemma run_launch_inv:
  "run_lines task rules aid 1 ls (begin_attempt st) = Inr st' \<Longrightarrow> launch_inv task aid ls st'"
proof (induction ls arbitrary: st' rule: rev_induct)
  case Nil
  then show ?case using launch_inv_start [of task aid st] by simp
next
  case (snoc l ls)
  from snoc.prems show ?case
    by (rule run_lines_snocE) (use snoc.IH launch_inv_step in blast)
qed

section \<open>Settlements and the histories of attempts\<close>

definition attempt_lines :: "ledger_attempt \<Rightarrow> ledger_line list" where
  "attempt_lines a = ledger_lines (att_lines a)"

definition history_lines :: "ledger_attempt list \<Rightarrow> ledger_line list" where
  "history_lines as = concat (map attempt_lines as)"

lemma settled_keys_append [simp]: "settled_keys (xs @ ys) = settled_keys xs @ settled_keys ys"
  by (simp add: settled_keys_def)

lemma settled_keys_single:
  "settled_keys [l] = (if settles l then [line_key l] else [])"
  by (simp add: settled_keys_def)

lemma check_event_settled:
  assumes "check_event rules seq l st = Inr st'"
  shows "settled st' = settled st \<union> set (settled_keys [l])"
    and "set (settled_keys [l]) \<inter> settled st = {}"
    and "finished_by_attempt st' = finished_by_attempt st"
    and "ledger_identity st' = ledger_identity st"
  using assms
  by (cases "line_event l";
      fastforce simp: settled_keys_single settles_def
        dest: check_intent_Inr(8) check_launch_event_Inr(2,3) check_settled_Inr(2,3)
          check_recovered_Inr(2,4))+

lemma check_line_settled:
  assumes "check_line task rules aid seq l st = Inr st'"
  shows "settled st' = settled st \<union> set (settled_keys [l])"
    and "set (settled_keys [l]) \<inter> settled st = {}"
    and "finished_by_attempt st' = finished_by_attempt st"
    and "ledger_identity st' = Some (line_identity l)"
  using check_event_settled [OF check_line_Inr(5) [OF assms]] check_line_Inr(4) [OF assms]
  by simp_all

lemma check_line_identity:
  assumes "check_line task rules aid seq l st = Inr st'"
  shows "ledger_identity st \<in> {None, Some (line_identity l)}"
  using check_line_Inr(4) [OF assms] by (auto simp: named_def split: option.splits)

lemma run_lines_settled:
  assumes "run_lines task rules aid seq ls st = Inr st'"
  shows "settled st' = settled st \<union> set (settled_keys ls) \<and> distinct (settled_keys ls) \<and>
         set (settled_keys ls) \<inter> settled st = {} \<and>
         finished_by_attempt st' = finished_by_attempt st"
  using assms
proof (induction ls arbitrary: st' rule: rev_induct)
  case Nil
  then show ?case by (simp add: settled_keys_def)
next
  case (snoc l ls)
  from snoc.prems obtain st1 where r: "run_lines task rules aid seq ls st = Inr st1"
    and c: "check_line task rules aid (seq + int (length ls)) l st1 = Inr st'"
    by (rule run_lines_snocE)
  note ih = snoc.IH [OF r] and s = check_line_settled [OF c]
  have "distinct (settled_keys (ls @ [l]))"
    using ih s(2) by (auto simp: settled_keys_single split: if_splits)
  then show ?case using ih s by auto
qed

lemma run_lines_identity:
  assumes "run_lines task rules aid seq ls st = Inr st'"
  shows "ls = [] \<and> ledger_identity st' = ledger_identity st \<or>
         (\<exists>i. ledger_identity st \<in> {None, Some i} \<and> ledger_identity st' = Some i \<and>
              (\<forall>l \<in> set ls. line_identity l = i))"
  using assms
proof (induction ls arbitrary: st' rule: rev_induct)
  case Nil
  then show ?case by simp
next
  case (snoc l ls)
  from snoc.prems obtain st1 where r: "run_lines task rules aid seq ls st = Inr st1"
    and c: "check_line task rules aid (seq + int (length ls)) l st1 = Inr st'"
    by (rule run_lines_snocE)
  note ih = snoc.IH [OF r] and i = check_line_identity [OF c] and s = check_line_settled(4) [OF c]
  from ih show ?case
  proof
    assume "ls = [] \<and> ledger_identity st1 = ledger_identity st"
    with i s show ?thesis by (intro disjI2 exI [of _ "line_identity l"]) simp
  next
    assume "\<exists>i. ledger_identity st \<in> {None, Some i} \<and> ledger_identity st1 = Some i \<and>
              (\<forall>l \<in> set ls. line_identity l = i)"
    with i s show ?thesis by (intro disjI2 exI [of _ "line_identity l"]) auto
  qed
qed

text \<open>The state between attempts, as a function of the attempts walked.\<close>

definition history_inv :: "ledger_attempt list \<Rightarrow> ledger_state \<Rightarrow> bool" where
  "history_inv ds st \<longleftrightarrow>
     settled st = set (settled_keys (history_lines ds)) \<and>
     distinct (settled_keys (history_lines ds)) \<and>
     (\<forall>aid ks. map_of (finished_by_attempt st) aid = Some ks \<longrightarrow>
        (\<exists>a \<in> set ds. att_id a = aid \<and> ks = finished_keys (attempt_lines a))) \<and>
     (case ledger_identity st of
        None \<Rightarrow> history_lines ds = []
      | Some i \<Rightarrow> \<forall>l \<in> set (history_lines ds). line_identity l = i)"

lemma history_inv_start: "history_inv [] ledger_start"
  by (simp add: history_inv_def history_lines_def ledger_start_def settled_keys_def)

lemma check_attempt_Inr:
  assumes "check_attempt reservation recorded a st = Inr st'"
  obtains st1 where
    "run_lines (rules_task_id reservation) (rules_for reservation recorded (att_id a)) (att_id a)
       1 (attempt_lines a) (begin_attempt st) = Inr st1"
    "att_end a = ''NORMAL'' \<Longrightarrow> opened st1 = []"
    "st' = st1\<lparr>finished_by_attempt :=
             AList.update (att_id a) (finished st1) (finished_by_attempt st1)\<rparr>"
  using assms check_lines_run
  by (fastforce simp: check_attempt_def Let_def attempt_lines_def split: if_splits sum.splits)

lemma history_inv_attempt:
  assumes inv: "history_inv ds st" and ok: "check_attempt reservation recorded a st = Inr st'"
  shows "history_inv (ds @ [a]) st'"
proof -
  from ok obtain st1 where r: "run_lines (rules_task_id reservation)
      (rules_for reservation recorded (att_id a)) (att_id a) 1 (attempt_lines a)
      (begin_attempt st) = Inr st1"
    and st': "st' = st1\<lparr>finished_by_attempt :=
             AList.update (att_id a) (finished st1) (finished_by_attempt st1)\<rparr>"
    by (rule check_attempt_Inr)
  have b: "settled (begin_attempt st) = settled st" "ledger_identity (begin_attempt st) = ledger_identity st"
    "finished_by_attempt (begin_attempt st) = finished_by_attempt st"
    by (simp_all add: begin_attempt_def)
  note s = run_lines_settled [OF r, unfolded b] and i = run_lines_identity [OF r, unfolded b]
  have h: "history_lines (ds @ [a]) = history_lines ds @ attempt_lines a"
    by (simp add: history_lines_def)
  have "settled st' = set (settled_keys (history_lines (ds @ [a])))"
    and "distinct (settled_keys (history_lines (ds @ [a])))"
    using inv s unfolding history_inv_def by (auto simp: st' h)
  moreover have "\<exists>x \<in> set (ds @ [a]). att_id x = aid \<and> ks = finished_keys (attempt_lines x)"
    if m: "map_of (finished_by_attempt st') aid = Some ks" for aid ks
  proof (cases "aid = att_id a")
    case True
    with m launch_invD(2) [OF run_launch_inv [OF r]] show ?thesis by (simp add: st')
  next
    case False
    with m s have "map_of (finished_by_attempt st) aid = Some ks" by (simp add: st')
    with inv show ?thesis unfolding history_inv_def by (metis UnCI set_append)
  qed
  moreover have "case ledger_identity st' of
        None \<Rightarrow> history_lines (ds @ [a]) = []
      | Some i \<Rightarrow> \<forall>l \<in> set (history_lines (ds @ [a])). line_identity l = i"
    using inv i unfolding history_inv_def by (auto simp: st' h split: option.splits)
  ultimately show ?thesis unfolding history_inv_def by blast
qed

lemma check_attempts_split:
  assumes "check_attempts reservation recorded (ds @ es) st = Inr st'" and "history_inv ps st"
  obtains st1 where "history_inv (ps @ ds) st1"
    and "check_attempts reservation recorded es st1 = Inr st'"
  using assms
proof (induction ds arbitrary: st ps thesis)
  case Nil
  then show ?case by simp
next
  case (Cons d ds)
  from Cons.prems(2) obtain st2 where c: "check_attempt reservation recorded d st = Inr st2"
    and r: "check_attempts reservation recorded (ds @ es) st2 = Inr st'"
    by (auto split: sum.splits)
  from history_inv_attempt [OF Cons.prems(3) c] have h: "history_inv (ps @ [d]) st2" .
  show ?case
  proof (rule Cons.IH [OF _ r h])
    fix st1
    assume "history_inv ((ps @ [d]) @ ds) st1"
      and "check_attempts reservation recorded es st1 = Inr st'"
    then show thesis using Cons.prems(1) [of st1] by simp
  qed
qed

lemma check_event_not_ACCEPT: "check_event rules seq l st \<noteq> Inl ACCEPT"
proof -
  have "check_intent rules seq l st \<noteq> Inl ACCEPT"
    unfolding check_intent_def Let_def by (simp split: if_split)
  moreover have "check_launch_event l st \<noteq> Inl ACCEPT"
    unfolding check_launch_event_def Let_def by (simp split: option.split prod.split if_split)
  moreover have "check_settled l st \<noteq> Inl ACCEPT"
    unfolding check_settled_def Let_def by (simp split: option.split prod.split if_split)
  moreover have "check_recovered l st \<noteq> Inl ACCEPT"
    unfolding check_recovered_def Let_def by (simp split: option.split if_split)
  ultimately show ?thesis by (cases "line_event l") simp_all
qed

lemma check_lines_not_ACCEPT: "check_lines task rules aid seq vs st \<noteq> Inl ACCEPT"
  using check_event_not_ACCEPT
  by (induction vs arbitrary: seq st)
    (auto simp: check_line_def Let_def simp del: check_event.simps split: sum.splits if_splits option.splits)

lemma check_attempts_not_ACCEPT: "check_attempts reservation recorded as st \<noteq> Inl ACCEPT"
  using check_lines_not_ACCEPT
  by (induction as arbitrary: st) (auto simp: check_attempt_def Let_def split: sum.splits if_splits)

lemma evaluate_ACCEPT:
  assumes "evaluate_controller_ledger reservation attempts recorded = ACCEPT"
  shows "\<exists>st. check_attempts reservation recorded attempts ledger_start = Inr st"
    and "distinct (map att_id attempts)"
  using assms check_attempts_not_ACCEPT
  by (auto simp: evaluate_controller_ledger_def Let_def split: if_splits sum.splits)

text \<open>An accepted history, opened at one attempt.\<close>

lemma accepted_attempt:
  assumes "evaluate_controller_ledger reservation attempts recorded = ACCEPT"
    and "attempts = ds @ a # es"
  obtains st st1 where "history_inv ds st"
    and "run_lines (rules_task_id reservation) (rules_for reservation recorded (att_id a)) (att_id a)
           1 (attempt_lines a) (begin_attempt st) = Inr st1"
    and "att_end a = ''NORMAL'' \<Longrightarrow> opened st1 = []"
proof -
  from evaluate_ACCEPT(1) [OF assms(1)] assms(2) obtain st'
    where "check_attempts reservation recorded (ds @ a # es) ledger_start = Inr st'" by blast
  from check_attempts_split [OF this history_inv_start] obtain st
    where h: "history_inv ds st"
      and "check_attempts reservation recorded (a # es) st = Inr st'" by auto
  then obtain st2 where "check_attempt reservation recorded a st = Inr st2"
    by (auto split: sum.splits)
  from check_attempt_Inr [OF this] h that show ?thesis by metis
qed

lemma resource_safe_open_start: "resource_safe rules (open_launches [])"
  by (simp add: resource_safe_def open_launches_def)

lemma sum_launch_filter:
  assumes "\<forall>l \<in> set ls. 0 \<le> launch_cpus l"
  shows "sum_list (map launch_cpus (filter P ls)) \<le> sum_list (map launch_cpus ls)"
  using assms by (induction ls) auto

lemma sum_open_entry: "sum_list (map (snd \<circ> snd) (map open_entry ls)) = sum_list (map launch_cpus ls)"
  by (induction ls) (simp_all add: open_entry_def)

lemma keys_open_entry: "(fst \<circ> snd) ` set (map open_entry ls) = set (map line_key ls)"
  by (simp add: open_entry_def image_comp comp_def)

lemma resource_safe_filter:
  assumes "resource_safe rules ls" and "\<forall>l \<in> set ls. 0 \<le> launch_cpus l"
  shows "resource_safe rules (filter P ls)"
proof (cases "ls = []")
  case False
  have d: "distinct (map line_key (filter P ls))" if "distinct (map line_key ls)"
    using that by (simp add: distinct_map_filter)
  have "int (length (filter P ls)) \<le> rules_max_concurrent rules"
    using assms(1) False length_filter_le [of P ls] unfolding resource_safe_def by linarith
  moreover note sum_launch_filter [OF assms(2), of P]
  ultimately show ?thesis
    using assms(1) False d unfolding resource_safe_def by (auto intro: order_trans)
qed (simp add: resource_safe_def)

definition intents_positive :: "ledger_line list \<Rightarrow> bool" where
  "intents_positive ls \<longleftrightarrow> (\<forall>l \<in> set ls. is_intent l \<longrightarrow> 0 \<le> launch_cpus l)"

lemma ledger_lines_positive: "intents_positive (ledger_lines vs)"
proof -
  have "0 \<le> launch_cpus l" if "validate_ledger_entry v = Inr l" "is_intent l" for v l
    using validate_ledger_entry_bounds [OF that(1)] that(2)
    by (simp add: launch_cpus_def is_intent_def)
  then show ?thesis
    by (auto simp: intents_positive_def ledger_lines_def split: sum.splits)
qed

lemma resource_safe_step:
  assumes inv: "launch_inv task aid ls st" and safe: "resource_safe rules (open_launches ls)"
    and pos: "intents_positive (ls @ [l])"
    and step: "check_line task rules aid (1 + int (length ls)) l st = Inr st'"
  shows "resource_safe rules (open_launches (ls @ [l]))"
proof -
  consider "is_intent l" | "closes l" | "\<not> is_intent l" "\<not> closes l" by blast
  then show ?thesis
  proof cases
    case 1
    then have i: "check_intent rules (1 + int (length ls)) l (named l st) = Inr st'"
      using check_line_Inr(5) [OF step] by (simp add: is_intent_def)
    note c = check_intent_Inr [OF i, simplified named_simps launch_invD(1) [OF inv]]
    have o: "opened st' = map open_entry (open_launches (ls @ [l]))"
      by (rule launch_invD(1) [OF launch_inv_step [OF inv step]])
    have "open_launches (ls @ [l]) = open_launches ls @ [l]"
    proof (rule open_launches_intent [OF 1])
      fix m assume m: "m \<in> set ls" "closes m"
      with inv obtain k j where "j \<in> set ls" "is_intent j" "line_trace_id j = line_trace_id m"
        unfolding launch_inv_def by blast
      with inv obtain k where "1 \<le> k" "k \<le> int (length ls)"
        "line_trace_id m = trace_name task aid k" unfolding launch_inv_def by metis
      then show "line_trace_id m \<noteq> line_trace_id l"
        using c(1) check_line_Inr(2,3) [OF step] by (simp add: trace_name_inj)
    qed
    moreover have "line_key l \<notin> set (map line_key (open_launches ls))"
      using c(5) keys_open_entry by metis
    moreover have "sum_list (map launch_cpus (open_launches ls)) + launch_cpus l
        \<le> rules_runtime_cpus rules"
      using c(7) sum_open_entry by metis
    ultimately show ?thesis
      using safe c(2,3,6) unfolding resource_safe_def by auto
  next
    case 2
    have "\<forall>m \<in> set (open_launches ls). 0 \<le> launch_cpus m"
      using pos open_launches_subset [of ls] unfolding intents_positive_def by auto
    with safe show ?thesis unfolding open_launches_closes [OF 2] by (rule resource_safe_filter)
  next
    case 3
    with safe show ?thesis by (simp add: open_launches_other)
  qed
qed

lemma run_resource_safe:
  assumes "run_lines task rules aid 1 ls (begin_attempt st) = Inr st'" "intents_positive ls"
  shows "resource_safe rules (open_launches ls)"
  using assms
proof (induction ls arbitrary: st' rule: rev_induct)
  case Nil
  then show ?case using resource_safe_open_start by blast
next
  case (snoc l ls)
  from snoc.prems(1) obtain st1 where r: "run_lines task rules aid 1 ls (begin_attempt st) = Inr st1"
    and c: "check_line task rules aid (1 + int (length ls)) l st1 = Inr st'"
    by (rule run_lines_snocE)
  have "intents_positive ls" using snoc.prems(2) by (simp add: intents_positive_def)
  from resource_safe_step [OF run_launch_inv [OF r] snoc.IH [OF r this] snoc.prems(2) c]
  show ?case .
qed

section \<open>What an accepted history guarantees\<close>

text \<open>Two attempts used as concrete inputs: the second recovers what the first did not settle.\<close>

definition sample_entry :: "int \<Rightarrow> string \<Rightarrow> string \<Rightarrow> string \<Rightarrow> pyval dict \<Rightarrow> pyval" where
  "sample_entry seq event aid node extra =
     PDict ([(''contract'', PStr ''qraft.controller-inner-ledger@1.0''), (''seq'', PInt seq),
       (''event'', PStr event), (''at'', PStr ''2026-01-01T00:00:00Z''), (''task_id'', PStr ''t''),
       (''attempt_id'', PStr aid),
       (''key'', PDict [(''checkpoint_identity'', PStr ''c''), (''node_id'', PStr node)])] @ extra)"

definition sample_intent :: "int \<Rightarrow> string \<Rightarrow> string \<Rightarrow> pyval" where
  "sample_intent seq aid node =
     sample_entry seq ''LAUNCH_INTENT'' aid node
       [(''trace_id'', PStr (trace_name ''t'' aid seq)), (''hosts'', PList [PStr ''n1'']),
        (''ranks'', PInt 2), (''cpus_per_rank'', PInt 2),
        (''argv_sha256'', PStr (replicate 64 CHR ''a''))]"

definition sample_finish :: "int \<Rightarrow> string \<Rightarrow> string \<Rightarrow> int \<Rightarrow> pyval" where
  "sample_finish seq aid node k =
     sample_entry seq ''LAUNCH_FINISHED'' aid node
       [(''trace_id'', PStr (trace_name ''t'' aid k)), (''exit_code'', PInt 0)]"

definition sample_history :: "ledger_attempt list" where
  "sample_history =
     [\<lparr>att_id = ''a1'', att_end = ''LOST'',
       att_lines = [sample_intent 1 ''a1'' ''x'', sample_finish 2 ''a1'' ''x'' 1]\<rparr>,
      \<lparr>att_id = ''a2'', att_end = ''NORMAL'',
       att_lines =
         [sample_entry 1 ''SETTLEMENT_RECOVERED'' ''a2'' ''x''
            [(''native_state'', PStr ''COMPLETED''), (''evidence_digest'', PNone),
             (''source_attempt_id'', PStr ''a1'')],
          sample_intent 2 ''a2'' ''y'', sample_finish 3 ''a2'' ''y'' 2,
          sample_entry 4 ''NODE_SETTLED'' ''a2'' ''y''
            [(''trace_id'', PStr ''t/a2/2''), (''native_state'', PStr ''COMPLETED''),
             (''evidence_digest'', PNone)]]\<rparr>]"

definition sample_rules :: ledger_rules where
  "sample_rules = \<lparr>rules_task_id = ''t'', rules_hosts = [''n1''], rules_runtime_cpus = 4,
     rules_max_concurrent = 1, rules_stop_launching_at = ''2026-01-01T00:00:00.5Z''\<rparr>"

lemma sample_accepted: "evaluate_controller_ledger sample_rules sample_history None = ACCEPT"
  by code_simp

text \<open>
  Property C6. In a history the evaluator accepts, at every moment of every attempt the launches
  that are open (their intent written, neither finished nor abandoned) fit the reservation the
  attempt was recorded under: their CPUs and their number stay within its limits, no two of them
  work on the same native key, they run on reserved hosts only and none was started after the
  launch deadline. The open launches are read off the ledger's lines, not off the evaluator.
\<close>

theorem accepted_ledger_resource_safe:
  assumes "evaluate_controller_ledger reservation attempts recorded = ACCEPT"
    and "a \<in> set attempts" and "attempt_lines a = pre @ post"
  shows "resource_safe (rules_for reservation recorded (att_id a)) (open_launches pre)"
proof -
  from assms(2) obtain ds es where "attempts = ds @ a # es" by (meson split_list)
  from accepted_attempt [OF assms(1) this] obtain st st1 where
    "run_lines (rules_task_id reservation) (rules_for reservation recorded (att_id a)) (att_id a)
       1 (pre @ post) (begin_attempt st) = Inr st1" using assms(3) by metis
  then obtain st2 where r: "run_lines (rules_task_id reservation)
      (rules_for reservation recorded (att_id a)) (att_id a) 1 pre (begin_attempt st) = Inr st2"
    by (auto simp: run_lines_append split: sum.splits)
  have "intents_positive pre"
    using ledger_lines_positive [of "att_lines a"] assms(3)
    by (simp add: intents_positive_def attempt_lines_def)
  with r show ?thesis by (rule run_resource_safe)
qed

theorem accepted_ledger_resource_safe_witness:
  "resource_safe sample_rules (open_launches (take 2 (attempt_lines (sample_history ! 1)))) \<and>
   length (open_launches (take 2 (attempt_lines (sample_history ! 1)))) = 1"
proof -
  have r: "rules_for sample_rules None s = sample_rules" for s by (simp add: rules_for_def)
  have "resource_safe (rules_for sample_rules None (att_id (sample_history ! 1)))
      (open_launches (take 2 (attempt_lines (sample_history ! 1))))"
    by (rule accepted_ledger_resource_safe [OF sample_accepted _ append_take_drop_id [symmetric]])
      (simp add: sample_history_def)
  moreover have "length (open_launches (take 2 (attempt_lines (sample_history ! 1)))) = 1"
    by code_simp
  ultimately show ?thesis by (simp only: r simp_thms)
qed

text \<open>
  Property C21. In an accepted history no native key is settled twice over all its attempts, and
  no launch is ever started for a key that an earlier line of the history, of this or of an
  earlier attempt, has settled; all lines carry one checkpoint identity.
\<close>

theorem accepted_ledger_settles_once:
  assumes "evaluate_controller_ledger reservation attempts recorded = ACCEPT"
    and "attempts = ds @ a # es" and "attempt_lines a = pre @ l # post"
  shows "distinct (settled_keys (history_lines ds @ attempt_lines a)) \<and>
         (line_event l = LAUNCH_INTENT \<longrightarrow>
            line_key l \<notin> set (settled_keys (history_lines ds @ pre))) \<and>
         (\<forall>m \<in> set (history_lines ds @ attempt_lines a). line_identity m = line_identity l)"
proof -
  from accepted_attempt [OF assms(1,2)] obtain st st1 where h: "history_inv ds st" and
    r: "run_lines (rules_task_id reservation) (rules_for reservation recorded (att_id a)) (att_id a)
       1 (pre @ l # post) (begin_attempt st) = Inr st1" using assms(3) by metis
  from r obtain st2 st3 where r2: "run_lines (rules_task_id reservation)
      (rules_for reservation recorded (att_id a)) (att_id a) 1 pre (begin_attempt st) = Inr st2"
    and c: "check_line (rules_task_id reservation) (rules_for reservation recorded (att_id a))
      (att_id a) (1 + int (length pre)) l st2 = Inr st3" by (rule run_lines_splitE)
  have b: "settled (begin_attempt st) = settled st"
    "ledger_identity (begin_attempt st) = ledger_identity st" by (simp_all add: begin_attempt_def)
  note s = run_lines_settled [OF r, unfolded b] and s2 = run_lines_settled [OF r2, unfolded b]
  have d: "distinct (settled_keys (history_lines ds @ attempt_lines a))"
    using h s unfolding history_inv_def assms(3) by auto
  have i: "line_key l \<notin> set (settled_keys (history_lines ds @ pre))"
    if "line_event l = LAUNCH_INTENT"
  proof -
    have "check_intent (rules_for reservation recorded (att_id a)) (1 + int (length pre)) l
        (named l st2) = Inr st3" using check_line_Inr(5) [OF c] that by simp
    from check_intent_Inr(4) [OF this] h s2 show ?thesis unfolding history_inv_def by auto
  qed
  have "\<forall>m \<in> set (history_lines ds @ attempt_lines a). line_identity m = line_identity l"
    using h run_lines_identity [OF r, unfolded b] unfolding history_inv_def assms(3)
    by (auto split: option.splits)
  with d i show ?thesis by blast
qed

theorem accepted_ledger_settles_once_witness:
  "distinct (settled_keys (history_lines (take 1 sample_history) @
              attempt_lines (sample_history ! 1)))"
proof -
  have a: "sample_history = take 1 sample_history @ sample_history ! 1 # []"
    by (simp add: sample_history_def)
  have "attempt_lines (sample_history ! 1) \<noteq> []" by code_simp
  then have l: "attempt_lines (sample_history ! 1) =
      [] @ hd (attempt_lines (sample_history ! 1)) # tl (attempt_lines (sample_history ! 1))"
    by simp
  from accepted_ledger_settles_once [OF sample_accepted a l] show ?thesis by (rule conjunct1)
qed

text \<open>
  Property C25. In an accepted history every settlement rests on a finished launch. A
  \<open>NODE_SETTLED\<close> line follows, in its own attempt, a \<open>LAUNCH_FINISHED\<close> line of the same trace and
  the same native key. A \<open>SETTLEMENT_RECOVERED\<close> line stands before every launch of its attempt and
  names an earlier attempt whose lines have a finished launch of that key. A line that starts,
  finishes or abandons a launch names a trace that is open for its key at that moment.
\<close>

theorem accepted_ledger_settlements_justified:
  assumes "evaluate_controller_ledger reservation attempts recorded = ACCEPT"
    and "attempts = ds @ a # es" and "attempt_lines a = pre @ l # post"
  shows "(line_event l = NODE_SETTLED \<longrightarrow>
            (\<exists>m \<in> set pre. line_event m = LAUNCH_FINISHED \<and>
               line_trace_id m = line_trace_id l \<and> line_key m = line_key l)) \<and>
         (line_event l = SETTLEMENT_RECOVERED \<longrightarrow>
            \<not> list_ex is_intent pre \<and>
            (\<exists>b \<in> set ds. att_id b = line_source_attempt_id l \<and>
               line_key l \<in> finished_keys (attempt_lines b))) \<and>
         (line_event l \<in> {LAUNCH_STARTED, LAUNCH_FINISHED, LAUNCH_ABANDONED} \<longrightarrow>
            (\<exists>m \<in> set (open_launches pre).
               line_trace_id m = line_trace_id l \<and> line_key m = line_key l))"
proof -
  let ?rules = "rules_for reservation recorded (att_id a)"
  from accepted_attempt [OF assms(1,2)] obtain st st1 where h: "history_inv ds st" and
    r: "run_lines (rules_task_id reservation) ?rules (att_id a) 1 (pre @ l # post)
       (begin_attempt st) = Inr st1" using assms(3) by metis
  from r obtain st2 st3 where r2: "run_lines (rules_task_id reservation) ?rules (att_id a) 1 pre
       (begin_attempt st) = Inr st2"
    and c: "check_line (rules_task_id reservation) ?rules (att_id a) (1 + int (length pre)) l st2 =
       Inr st3" by (rule run_lines_splitE)
  note inv = run_launch_inv [OF r2] and ev = check_line_Inr(5) [OF c]
  have f: "finished_by_attempt st2 = finished_by_attempt st"
    using run_lines_settled [OF r2] by (simp add: begin_attempt_def)
  have "\<exists>m \<in> set pre. line_event m = LAUNCH_FINISHED \<and>
       line_trace_id m = line_trace_id l \<and> line_key m = line_key l"
    if "line_event l = NODE_SETTLED"
  proof -
    from ev that have "check_settled l (named l st2) = Inr st3" by simp
    from check_settled_Inr(1) [OF this] launch_invD(4) [OF inv] show ?thesis by simp
  qed
  moreover have "\<not> list_ex is_intent pre \<and>
            (\<exists>b \<in> set ds. att_id b = line_source_attempt_id l \<and>
               line_key l \<in> finished_keys (attempt_lines b))"
    if "line_event l = SETTLEMENT_RECOVERED"
  proof -
    from ev that have e: "check_recovered l (named l st2) = Inr st3" by simp
    from check_recovered_Inr(3) [OF e] f obtain ks where
      k: "map_of (finished_by_attempt st) (line_source_attempt_id l) = Some ks" "line_key l \<in> ks"
      by auto
    with h have "\<exists>b \<in> set ds. att_id b = line_source_attempt_id l \<and>
        ks = finished_keys (attempt_lines b)" unfolding history_inv_def by blast
    with k(2) check_recovered_Inr(1) [OF e] launch_invD(3) [OF inv] show ?thesis by auto
  qed
  moreover have "\<exists>m \<in> set (open_launches pre).
       line_trace_id m = line_trace_id l \<and> line_key m = line_key l"
    if "line_event l \<in> {LAUNCH_STARTED, LAUNCH_FINISHED, LAUNCH_ABANDONED}"
  proof -
    from ev that have "check_launch_event l (named l st2) = Inr st3" by auto
    from check_launch_event_Inr(1) [OF this] launch_invD(1) [OF inv] obtain c where
      "(line_trace_id l, line_key l, c) \<in> set (map open_entry (open_launches pre))"
      using map_of_SomeD by fastforce
    then show ?thesis by (auto simp: open_entry_def)
  qed
  ultimately show ?thesis by blast
qed

theorem accepted_ledger_settlements_justified_witness:
  "\<exists>b \<in> set (take 1 sample_history). att_id b = ''a1'' \<and>
     (''c'', ''x'') \<in> finished_keys (attempt_lines b)"
proof -
  let ?l = "hd (attempt_lines (sample_history ! 1))"
  have a: "sample_history = take 1 sample_history @ sample_history ! 1 # []"
    by (simp add: sample_history_def)
  have "attempt_lines (sample_history ! 1) \<noteq> []" by code_simp
  then have l: "attempt_lines (sample_history ! 1) =
      [] @ ?l # tl (attempt_lines (sample_history ! 1))" by simp
  have e: "line_event ?l = SETTLEMENT_RECOVERED" "line_key ?l = (''c'', ''x'')"
    "line_source_attempt_id ?l = ''a1''" by code_simp+
  from accepted_ledger_settlements_justified [OF sample_accepted a l, THEN conjunct2, THEN conjunct1]
  show ?thesis by (simp only: e simp_thms)
qed

text \<open>
  Property C35. An attempt that an accepted history reports as ended normally has no open launch
  left: each of its intents is followed by a line that finishes or abandons its trace.
\<close>

theorem accepted_ledger_normal_end_closed:
  assumes "evaluate_controller_ledger reservation attempts recorded = ACCEPT"
    and "a \<in> set attempts" and "att_end a = ''NORMAL''"
  shows "open_launches (attempt_lines a) = []"
proof -
  from assms(2) obtain ds es where "attempts = ds @ a # es" by (meson split_list)
  from accepted_attempt [OF assms(1) this] obtain st st1 where
    r: "run_lines (rules_task_id reservation) (rules_for reservation recorded (att_id a)) (att_id a)
       1 (attempt_lines a) (begin_attempt st) = Inr st1" and "opened st1 = []"
    using assms(3) by metis
  with launch_invD(1) [OF run_launch_inv [OF r]] show ?thesis by simp
qed

theorem accepted_ledger_normal_end_closed_witness:
  "open_launches (attempt_lines (sample_history ! 1)) = []"
  by (rule accepted_ledger_normal_end_closed [OF sample_accepted])
    (simp_all add: sample_history_def)

end
