(* ===== verification/Versioning.thy ===== *)
theory Versioning
  imports Prelude
begin

text \<open>
  Identifiers, contract versions and contract references: \<open>src/qraft/contracts/versioning.py\<close>,
  the local identifiers of \<open>contracts/workflow.py\<close> and the decision vocabulary of
  \<open>contracts/status.py\<close>.
\<close>

section \<open>Identifiers\<close>

text \<open>\<open>^[a-z][a-z0-9]*(?:[.-][a-z0-9]+)+$\<close>, read as its pieces between separators.\<close>

definition lower_or_digit :: "char \<Rightarrow> bool" where
  "lower_or_digit c \<longleftrightarrow> is_lower c \<or> is_digit c"

definition name_separator :: "char \<Rightarrow> bool" where
  "name_separator c \<longleftrightarrow> c = CHR ''.'' \<or> c = CHR ''-''"

definition contract_name :: "string \<Rightarrow> bool" where
  "contract_name s \<longleftrightarrow>
     (case split_on name_separator s of
        [] \<Rightarrow> False
      | x # xs \<Rightarrow> xs \<noteq> [] \<and> x \<noteq> [] \<and> is_lower (hd x) \<and> list_all lower_or_digit x \<and>
                  list_all (\<lambda>y. y \<noteq> [] \<and> list_all lower_or_digit y) xs)"

definition require_namespaced_identifier :: "string \<Rightarrow> string \<Rightarrow> string res" where
  "require_namespaced_identifier v field =
     (let normalized = py_strip v in
      if \<not> contract_name normalized
      then Inl (ValueError (field @ '' must be a lowercase namespaced identifier: '' @ repr_str v))
      else Inr normalized)"

text \<open>\<open>^[A-Za-z0-9][A-Za-z0-9_.-]*$\<close>\<close>

definition local_char :: "char \<Rightarrow> bool" where
  "local_char c \<longleftrightarrow> is_alnum c \<or> c \<in> set ''_.-''"

definition local_id :: "string \<Rightarrow> bool" where
  "local_id s \<longleftrightarrow> s \<noteq> [] \<and> is_alnum (hd s) \<and> list_all local_char (tl s)"

definition require_local_id :: "string \<Rightarrow> string \<Rightarrow> string res" where
  "require_local_id v field_name =
     (let normalized = py_strip v in
      if \<not> local_id normalized
      then Inl (ValueError (field_name @ '' is not a valid local identifier: '' @ repr_str v))
      else Inr normalized)"

lemma require_local_id_Inr:
  "require_local_id v f = Inr s \<longleftrightarrow> s = py_strip v \<and> local_id s"
  by (auto simp: require_local_id_def Let_def)

lemma require_namespaced_identifier_Inr:
  "require_namespaced_identifier v f = Inr s \<longleftrightarrow> s = py_strip v \<and> contract_name s"
  by (auto simp: require_namespaced_identifier_def Let_def)

lemma local_char_not_space: "local_char c \<Longrightarrow> \<not> is_py_space c"
  by (auto simp: local_char_def is_alnum_def is_digit_def is_lower_def is_upper_def is_py_space_def)

lemma local_id_chars: "local_id s \<Longrightarrow> c \<in> set s \<Longrightarrow> local_char c"
  by (cases s) (auto simp: local_id_def list_all_iff local_char_def)

lemma local_id_strip: "local_id s \<Longrightarrow> py_strip s = s"
proof -
  assume l: "local_id s"
  then have ne: "s \<noteq> []" by (simp add: local_id_def)
  with local_char_not_space [OF local_id_chars [OF l]] show ?thesis
    by (intro py_strip_id) simp_all
qed

lemma require_local_id_id: "local_id s \<Longrightarrow> require_local_id s f = Inr s"
  by (simp add: require_local_id_Inr local_id_strip)

lemma contract_name_chars:
  assumes "contract_name s" "c \<in> set s"
  shows "lower_or_digit c \<or> name_separator c"
proof (rule ccontr)
  assume n: "\<not> ?thesis"
  obtain x xs where x: "split_on name_separator s = x # xs"
    by (meson list.exhaust split_on_nonempty)
  have "\<not> name_separator c \<Longrightarrow> \<exists>y \<in> set (split_on name_separator s). c \<in> set y"
    using assms(2)
  proof (induction s)
    case (Cons d s)
    then show ?case by (auto split: list.splits)
  qed simp
  with n obtain y where "y \<in> set (x # xs)" "c \<in> set y" using x by auto
  with assms(1) x n show False by (auto simp: contract_name_def list_all_iff)
qed

lemma contract_name_strip: "contract_name s \<Longrightarrow> py_strip s = s"
proof (rule py_strip_id)
  assume c: "contract_name s"
  show ne: "s \<noteq> []" using c by (auto simp: contract_name_def)
  have "\<not> is_py_space c" if "c \<in> set s" for c
    using contract_name_chars [OF c that]
    by (auto simp: lower_or_digit_def name_separator_def is_digit_def is_lower_def is_py_space_def)
  with ne show "\<not> is_py_space (hd s)" "\<not> is_py_space (last s)" by simp_all
qed

section \<open>Versions\<close>

datatype contract_version = ContractVersion (major: int) (minor: int)

definition contract_version :: "int \<Rightarrow> int \<Rightarrow> contract_version res" where
  "contract_version ma mi =
     (if ma < 1 \<or> mi < 0
      then Inl (ValueError ''contract versions must be MAJOR>=1 and MINOR>=0'')
      else Inr (ContractVersion ma mi))"

definition version_ok :: "contract_version \<Rightarrow> bool" where
  "version_ok v \<longleftrightarrow> 1 \<le> major v \<and> 0 \<le> minor v"

text \<open>\<open>@total_ordering\<close> with \<open>__lt__\<close> on the pair (major, minor).\<close>

definition version_less :: "contract_version \<Rightarrow> contract_version \<Rightarrow> bool" where
  "version_less a b \<longleftrightarrow> major a < major b \<or> (major a = major b \<and> minor a < minor b)"

instantiation contract_version :: linorder
begin

definition less_contract_version :: "contract_version \<Rightarrow> contract_version \<Rightarrow> bool" where
  "less_contract_version = version_less"

definition less_eq_contract_version :: "contract_version \<Rightarrow> contract_version \<Rightarrow> bool" where
  "less_eq_contract_version a b \<longleftrightarrow> a < b \<or> a = b"

lemmas version_order_defs = less_eq_contract_version_def less_contract_version_def version_less_def

instance
proof
  fix x y z :: contract_version
  show "x < y \<longleftrightarrow> x \<le> y \<and> \<not> y \<le> x" by (auto simp: version_order_defs)
  show "x \<le> x" by (simp add: version_order_defs)
  show "x \<le> y \<Longrightarrow> y \<le> z \<Longrightarrow> x \<le> z" by (auto simp: version_order_defs)
  show "x \<le> y \<Longrightarrow> y \<le> x \<Longrightarrow> x = y" by (auto simp: version_order_defs)
  show "x \<le> y \<or> y \<le> x" by (cases x; cases y) (auto simp: version_order_defs)
qed

end

text \<open>\<open>([1-9][0-9]*)\.([0-9]+)\<close>, on the stripped text.\<close>

definition version_text :: "string \<Rightarrow> bool" where
  "version_text s \<longleftrightarrow>
     (case split_on (\<lambda>c. c = CHR ''.'') s of
        [a, b] \<Rightarrow> a \<noteq> [] \<and> hd a \<noteq> CHR ''0'' \<and> list_all is_digit a \<and> b \<noteq> [] \<and> list_all is_digit b
      | _ \<Rightarrow> False)"

definition parse_version :: "string \<Rightarrow> contract_version res" where
  "parse_version v =
     (let s = py_strip v in
      if \<not> version_text s then Inl (ValueError (''invalid contract version: '' @ repr_str v))
      else (case split_on (\<lambda>c. c = CHR ''.'') s of
              a # b # _ \<Rightarrow> contract_version (dec_int a) (dec_int b)
            | _ \<Rightarrow> Inl (ValueError (''invalid contract version: '' @ repr_str v))))"

definition version_str :: "contract_version \<Rightarrow> string" where
  "version_str v = int_str (major v) @ ''.'' @ int_str (minor v)"

definition supports :: "contract_version \<Rightarrow> contract_version \<Rightarrow> bool" where
  "supports provided requirement \<longleftrightarrow>
     major provided = major requirement \<and> minor requirement \<le> minor provided"

definition require_supports :: "contract_version \<Rightarrow> contract_version \<Rightarrow> unit res" where
  "require_supports provided requirement =
     (if \<not> supports provided requirement
      then Inl (ValueError (''provided contract '' @ version_str provided @
                            '' does not satisfy required '' @ version_str requirement))
      else Inr ())"

section \<open>References\<close>

datatype contract_ref = ContractRef (ref_name: string) (ref_version: contract_version)

definition contract_ref :: "string \<Rightarrow> contract_version \<Rightarrow> contract_ref res" where
  "contract_ref name v =
     rbind (require_namespaced_identifier name ''contract name'') (\<lambda>n. Inr (ContractRef n v))"

text \<open>\<open>rpartition\<close>: the text before the last separator, whether there is one, the text after it.\<close>

definition rpartition :: "char \<Rightarrow> string \<Rightarrow> string \<times> bool \<times> string" where
  "rpartition c s =
     (let after = rev (takeWhile (\<lambda>d. d \<noteq> c) (rev s)); rest = dropWhile (\<lambda>d. d \<noteq> c) (rev s)
      in if rest = [] then ([], False, s) else (rev (tl rest), True, after))"

definition parse_ref :: "string \<Rightarrow> contract_ref res" where
  "parse_ref v =
     (case rpartition CHR ''@'' v of (name, separator, version) \<Rightarrow>
        if \<not> separator
        then Inl (ValueError (''contract reference must use name@major.minor: '' @ repr_str v))
        else rbind (parse_version version) (\<lambda>w. contract_ref name w))"

definition ref_str :: "contract_ref \<Rightarrow> string" where
  "ref_str r = ref_name r @ ''@'' @ version_str (ref_version r)"

definition satisfies :: "contract_ref \<Rightarrow> contract_ref \<Rightarrow> bool" where
  "satisfies provided required \<longleftrightarrow>
     ref_name provided = ref_name required \<and> supports (ref_version provided) (ref_version required)"

definition require_satisfies :: "contract_ref \<Rightarrow> contract_ref \<Rightarrow> unit res" where
  "require_satisfies provided required =
     (if ref_name provided \<noteq> ref_name required
      then Inl (ValueError (''provided contract '' @ repr_str (ref_name provided) @ '' does not match '' @
                            repr_str (ref_name required)))
      else require_supports (ref_version provided) (ref_version required))"

section \<open>Round trips and the compatibility order\<close>

lemma dec_int_int_str: "0 \<le> i \<Longrightarrow> dec_int (int_str i) = i"
  by (simp add: dec_int_dec_val int_str_def)

lemma int_str_digits: "0 \<le> i \<Longrightarrow> list_all is_digit (int_str i)"
  using nat_str_digits [of "nat i"] by (simp add: int_str_def list_all_iff)

lemma int_str_nonempty [simp]: "int_str i \<noteq> []"
  by (simp add: int_str_def nat_str_nonempty)

lemma nat_str_head: "0 < n \<Longrightarrow> hd (nat_str n) \<noteq> CHR ''0''"
proof (induction n rule: nat_str.induct)
  case (1 n)
  show ?case
  proof (cases "n < 10")
    case True
    have "digit_val CHR ''0'' = 0" by code_simp
    then have "digit_char n \<noteq> CHR ''0''" using True 1 by (metis digit_val_char less_irrefl)
    with True show ?thesis by (simp add: nat_str.simps [of n])
  next
    case False
    then have "hd (nat_str (n div 10)) \<noteq> CHR ''0''" using 1 by simp
    with False show ?thesis by (simp add: nat_str.simps [of n] hd_append nat_str_nonempty)
  qed
qed

lemma int_str_not_in: "0 \<le> i \<Longrightarrow> \<not> is_digit c \<Longrightarrow> c \<notin> set (int_str i)"
  using int_str_digits [of i] by (auto simp: list_all_iff)

lemma version_str_strip: "version_ok v \<Longrightarrow> py_strip (version_str v) = version_str v"
proof (rule py_strip_id)
  assume v: "version_ok v"
  have d: "\<not> is_py_space c" if "is_digit c" for c
    using that by (auto simp: is_digit_def is_py_space_def)
  have a: "list_all is_digit (int_str (major v))" "list_all is_digit (int_str (minor v))"
    using v by (simp_all add: version_ok_def int_str_digits)
  then have "is_digit (hd (int_str (major v)))" "is_digit (last (int_str (minor v)))"
    by (simp_all add: list_all_iff)
  with d show "\<not> is_py_space (hd (version_str v))" "\<not> is_py_space (last (version_str v))"
    by (simp_all add: version_str_def hd_append)
qed (simp add: version_str_def)

lemma split_version_str:
  assumes "version_ok v"
  shows "split_on (\<lambda>c. c = CHR ''.'') (version_str v) = [int_str (major v), int_str (minor v)]"
proof -
  have "\<not> is_digit CHR ''.''" by code_simp
  with assms have "CHR ''.'' \<notin> set (int_str (major v))" "CHR ''.'' \<notin> set (int_str (minor v))"
    by (simp_all add: version_ok_def int_str_not_in)
  then have "split_on (\<lambda>c. c = CHR ''.'')
      (join_with CHR ''.'' [int_str (major v), int_str (minor v)]) =
      [int_str (major v), int_str (minor v)]" by (intro split_join) simp_all
  then show ?thesis by (simp add: version_str_def)
qed

lemma parse_version_str:
  assumes "version_ok v"
  shows "parse_version (version_str v) = Inr v"
proof -
  have "hd (int_str (major v)) \<noteq> CHR ''0''"
    using assms nat_str_head [of "nat (major v)"] by (simp add: version_ok_def int_str_def)
  with assms show ?thesis
    by (simp add: parse_version_def Let_def version_str_strip split_version_str version_text_def
        int_str_digits dec_int_int_str contract_version_def version_ok_def)
qed

lemma parse_version_ok: "parse_version s = Inr v \<Longrightarrow> version_ok v"
  by (auto simp: parse_version_def Let_def contract_version_def version_ok_def
      split: if_splits list.splits)

lemma rpartition_last:
  assumes "c \<notin> set t"
  shows "rpartition c (s @ c # t) = (s, True, t)"
proof -
  have "takeWhile (\<lambda>d. d \<noteq> c) (rev t @ c # rev s) = rev t"
    "dropWhile (\<lambda>d. d \<noteq> c) (rev t @ c # rev s) = c # rev s"
    using assms by (simp_all add: takeWhile_eq_all_conv [THEN iffD2] takeWhile_append dropWhile_append)
  then show ?thesis by (simp add: rpartition_def Let_def)
qed

definition ref_ok :: "contract_ref \<Rightarrow> bool" where
  "ref_ok r \<longleftrightarrow> contract_name (ref_name r) \<and> version_ok (ref_version r)"

text \<open>
  Reading a printed contract reference gives it back: for every reference whose name
  and version the constructors accept, \<open>ContractRef.parse(str(ref))\<close> returns that reference, and
  whatever \<open>parse\<close> returns is such a reference.
\<close>

theorem parse_ref_roundtrip:
  "(ref_ok r \<longrightarrow> parse_ref (ref_str r) = Inr r) \<and> (parse_ref s = Inr q \<longrightarrow> ref_ok q)"
proof
  show "ref_ok r \<longrightarrow> parse_ref (ref_str r) = Inr r"
  proof
    assume r: "ref_ok r"
    have "\<not> is_digit CHR ''@''" by code_simp
    with r have "CHR ''@'' \<notin> set (version_str (ref_version r))"
      by (simp add: ref_ok_def version_ok_def version_str_def int_str_not_in)
    then have "rpartition CHR ''@'' (ref_str r) = (ref_name r, True, version_str (ref_version r))"
      using rpartition_last by (simp add: ref_str_def)
    with r show "parse_ref (ref_str r) = Inr r"
      by (simp add: parse_ref_def ref_ok_def parse_version_str contract_ref_def
          require_namespaced_identifier_def contract_name_strip)
  qed
  show "parse_ref s = Inr q \<longrightarrow> ref_ok q"
    by (auto simp: parse_ref_def ref_ok_def contract_ref_def rbind_Inr_iff
        require_namespaced_identifier_Inr dest: parse_version_ok split: prod.splits if_splits)
qed

theorem parse_ref_roundtrip_witness:
  "parse_ref ''qraft.run-lock@1.10'' = Inr (ContractRef ''qraft.run-lock'' (ContractVersion 1 10))"
proof -
  have s: "ref_str (ContractRef ''qraft.run-lock'' (ContractVersion 1 10)) = ''qraft.run-lock@1.10''"
    by code_simp
  have "ref_ok (ContractRef ''qraft.run-lock'' (ContractVersion 1 10))" by code_simp
  with parse_ref_roundtrip [of "ContractRef ''qraft.run-lock'' (ContractVersion 1 10)"]
  show ?thesis by (simp only: s simp_thms)
qed

lemma satisfies_require: "satisfies a b \<Longrightarrow> require_satisfies a b = Inr ()"
  by (simp add: satisfies_def require_satisfies_def require_supports_def)

text \<open>
  \<open>satisfies\<close> is a partial order on contract references, so a chain of compatible
  providers is compatible end to end and two references that satisfy each other are equal; a
  provider is never older than what it satisfies, and \<open>require_satisfies\<close> raises exactly when
  \<open>satisfies\<close> is false.
\<close>

theorem satisfies_partial_order:
  "satisfies a a \<and>
   (satisfies a b \<longrightarrow> satisfies b c \<longrightarrow> satisfies a c) \<and>
   (satisfies a b \<longrightarrow> satisfies b a \<longrightarrow> a = b) \<and>
   (satisfies a b \<longrightarrow> ref_version b \<le> ref_version a) \<and>
   (require_satisfies a b = Inr () \<longleftrightarrow> satisfies a b)"
  by (cases a; cases b; cases c; cases "ref_version a"; cases "ref_version b")
    (auto simp: satisfies_def supports_def require_satisfies_def require_supports_def
      version_order_defs contract_version.expand)

theorem satisfies_partial_order_witness:
  "satisfies (ContractRef ''a.b'' (ContractVersion 1 3)) (ContractRef ''a.b'' (ContractVersion 1 0))"
proof -
  let ?r = "\<lambda>m. ContractRef ''a.b'' (ContractVersion 1 m)"
  have "satisfies (?r 3) (?r 2)" "satisfies (?r 2) (?r 0)" by code_simp+
  with satisfies_partial_order [of "?r 3" "?r 2" "?r 0"] show ?thesis by blast
qed

end
