(* ===== verification/Serialization.thy ===== *)
theory Serialization
  imports Versioning "HOL-Library.Multiset"
begin

text \<open>
  Canonical serialization and the hash-bound envelope: \<open>src/qraft/contracts/serialization.py\<close>.
  SHA-256 (\<open>hashlib\<close>) is the parameter \<open>sha\<close>, a function from texts to hexadecimal texts, and
  \<open>repr\<close> of a float the parameter \<open>fr\<close>. The central lemma is that the canonical JSON text
  determines the value up to the order of dictionary keys.
\<close>

section \<open>Normalisation\<close>

text \<open>
  What a caller can hand to \<open>canonical_primitive\<close>: enum members, dataclass instances, mappings with
  arbitrary keys, lists and tuples, scalars, and objects it does not support.
\<close>

datatype pyobj =
    OEnum pyobj
  | OData "(string \<times> pyobj) list"
  | OMap "(pyobj \<times> pyobj) list"
  | OSeq "pyobj list"
  | ONone
  | OBool bool
  | OInt int
  | OStr string
  | OFloat rat
  | ONonFinite
  | OOther string

fun canonical_primitive :: "pyobj \<Rightarrow> pyval res"
and canonical_fields :: "(string \<times> pyobj) list \<Rightarrow> pyval dict res"
and canonical_items :: "(pyobj \<times> pyobj) list \<Rightarrow> pyval dict res"
and canonical_list :: "pyobj list \<Rightarrow> pyval list res" where
  "canonical_primitive (OEnum v) = canonical_primitive v"
| "canonical_primitive (OData fs) = rbind (canonical_fields fs) (\<lambda>d. Inr (PDict d))"
| "canonical_primitive (OMap ps) = rbind (canonical_items ps) (\<lambda>d. Inr (PDict d))"
| "canonical_primitive (OSeq xs) = rbind (canonical_list xs) (\<lambda>ys. Inr (PList ys))"
| "canonical_primitive ONone = Inr PNone"
| "canonical_primitive (OBool b) = Inr (PBool b)"
| "canonical_primitive (OInt n) = Inr (PInt n)"
| "canonical_primitive (OStr s) = Inr (PStr s)"
| "canonical_primitive (OFloat q) = Inr (PFloat q)"
| "canonical_primitive ONonFinite = Inl (ValueError ''contract floats must be finite'')"
| "canonical_primitive (OOther t) = Inl (TypeError (''unsupported contract value: '' @ t))"
| "canonical_fields [] = Inr []"
| "canonical_fields ((k, v) # fs) =
     rbind (canonical_primitive v) (\<lambda>w. rbind (canonical_fields fs) (\<lambda>d. Inr ((k, w) # d)))"
| "canonical_items [] = Inr []"
| "canonical_items ((k, v) # ps) =
     (case k of
        OStr s \<Rightarrow> rbind (canonical_primitive v) (\<lambda>w.
                  rbind (canonical_items ps) (\<lambda>d. Inr ((s, w) # d)))
      | _ \<Rightarrow> Inl (TypeError ''contract mapping keys must be strings''))"
| "canonical_list [] = Inr []"
| "canonical_list (x # xs) =
     rbind (canonical_primitive x) (\<lambda>y. rbind (canonical_list xs) (\<lambda>ys. Inr (y # ys)))"

text \<open>A normalised value read again as an argument; normalising it changes nothing.\<close>

fun obj_of :: "pyval \<Rightarrow> pyobj"
and objs_of :: "pyval list \<Rightarrow> pyobj list"
and obj_items :: "pyval dict \<Rightarrow> (pyobj \<times> pyobj) list" where
  "obj_of PNone = ONone"
| "obj_of (PBool b) = OBool b"
| "obj_of (PInt n) = OInt n"
| "obj_of (PFloat q) = OFloat q"
| "obj_of (PStr s) = OStr s"
| "obj_of (PList xs) = OSeq (objs_of xs)"
| "obj_of (PDict d) = OMap (obj_items d)"
| "objs_of [] = []"
| "objs_of (x # xs) = obj_of x # objs_of xs"
| "obj_items [] = []"
| "obj_items ((k, v) # d) = (OStr k, obj_of v) # obj_items d"

lemma canonical_obj_of [simp]:
  "canonical_primitive (obj_of v) = Inr v"
  "canonical_list (objs_of xs) = Inr xs"
  "canonical_items (obj_items d) = Inr d"
  by (induction v and xs and d rule: obj_of_objs_of_obj_items.induct) simp_all

section \<open>Dictionaries without repeated keys\<close>

text \<open>No dictionary of a Python value repeats a key, at any depth.\<close>

fun dicts_ok :: "pyval \<Rightarrow> bool"
and dicts_ok_list :: "pyval list \<Rightarrow> bool"
and dicts_ok_items :: "pyval dict \<Rightarrow> bool" where
  "dicts_ok (PList xs) = dicts_ok_list xs"
| "dicts_ok (PDict d) = (dict_ok d \<and> dicts_ok_items d)"
| "dicts_ok PNone = True"
| "dicts_ok (PBool b) = True"
| "dicts_ok (PInt n) = True"
| "dicts_ok (PFloat q) = True"
| "dicts_ok (PStr s) = True"
| "dicts_ok_list [] = True"
| "dicts_ok_list (x # xs) = (dicts_ok x \<and> dicts_ok_list xs)"
| "dicts_ok_items [] = True"
| "dicts_ok_items ((k, v) # d) = (dicts_ok v \<and> dicts_ok_items d)"

section \<open>Canonical JSON\<close>

text \<open>\<open>sort_keys=True\<close>: the keys of every dictionary in the order of their characters.\<close>

fun sort_keys :: "pyval \<Rightarrow> pyval"
and sort_all :: "pyval list \<Rightarrow> pyval list"
and sort_items :: "pyval dict \<Rightarrow> pyval dict" where
  "sort_keys (PList xs) = PList (sort_all xs)"
| "sort_keys (PDict d) = PDict (sort_key fst (sort_items d))"
| "sort_keys PNone = PNone"
| "sort_keys (PBool b) = PBool b"
| "sort_keys (PInt n) = PInt n"
| "sort_keys (PFloat q) = PFloat q"
| "sort_keys (PStr s) = PStr s"
| "sort_all [] = []"
| "sort_all (x # xs) = sort_keys x # sort_all xs"
| "sort_items [] = []"
| "sort_items ((k, v) # d) = (k, sort_keys v) # sort_items d"

lemma sort_items_lookup: "map_of (sort_items d) k = map_option sort_keys (map_of d k)"
  by (induction d) auto

lemma sort_key_lookup: "dict_ok d \<Longrightarrow> map_of (sort_key fst d) k = map_of d k"
proof -
  assume d: "dict_ok d"
  have "mset (map fst (sort_key fst d)) = mset (map fst d)" by simp
  with d have "dict_ok (sort_key fst d)" by (metis mset_eq_imp_distinct_iff)
  with d have "map_of (sort_key fst d) = map_of d" by (simp add: map_of_inject_set)
  then show ?thesis by simp
qed

lemma sort_items_keys: "map fst (sort_items d) = map fst d"
  by (induction d) auto

lemma sort_all_map: "sort_all xs = map sort_keys xs"
  by (induction xs) auto

lemma sort_items_map: "sort_items d = map (\<lambda>(k, v). (k, sort_keys v)) d"
  by (induction d) auto

lemma sort_keys_dicts_ok:
  "dicts_ok v \<Longrightarrow> dicts_ok (sort_keys v)"
  "dicts_ok_list xs \<Longrightarrow> dicts_ok_list (sort_all xs)"
  "dicts_ok_items d \<Longrightarrow> dicts_ok_items (sort_items d)"
proof (induction v and xs and d rule: sort_keys_sort_all_sort_items.induct)
  case (2 d)
  have all: "dicts_ok_items e \<longleftrightarrow> (\<forall>p \<in> set e. dicts_ok (snd p))" for e by (induction e) auto
  have "mset (map fst (sort_key fst (sort_items d))) = mset (map fst (sort_items d))" by simp
  then have "dict_ok (sort_key fst (sort_items d)) \<longleftrightarrow> dict_ok d"
    by (metis mset_eq_imp_distinct_iff sort_items_keys)
  with 2 show ?case by (simp add: all)
qed simp_all

text \<open>The escapes of the JSON encoder with \<open>ensure_ascii=False\<close>.\<close>

definition json_escape :: "char \<Rightarrow> string" where
  "json_escape c =
     (if c = CHR 34 then [CHR 92, CHR 34]
      else if c = CHR 92 then [CHR 92, CHR 92]
      else if c = CHR 10 then [CHR 92, CHR ''n'']
      else if c = CHR 13 then [CHR 92, CHR ''r'']
      else if c = CHR 9 then [CHR 92, CHR ''t'']
      else if c = CHR 12 then [CHR 92, CHR ''f'']
      else if c = CHR 8 then [CHR 92, CHR ''b'']
      else if (of_char c :: nat) < 32
      then CHR 92 # ''u00'' @ [hex_char (of_char c div 16), hex_char (of_char c mod 16)]
      else [c])"

definition json_string :: "string \<Rightarrow> string" where
  "json_string s = CHR 34 # concat (map json_escape s) @ [CHR 34]"

fun json_text :: "(rat \<Rightarrow> string) \<Rightarrow> pyval \<Rightarrow> string"
and json_elems :: "(rat \<Rightarrow> string) \<Rightarrow> pyval list \<Rightarrow> string"
and json_pairs :: "(rat \<Rightarrow> string) \<Rightarrow> pyval dict \<Rightarrow> string" where
  "json_text fr PNone = ''null''"
| "json_text fr (PBool b) = (if b then ''true'' else ''false'')"
| "json_text fr (PInt n) = int_str n"
| "json_text fr (PFloat q) = fr q"
| "json_text fr (PStr s) = json_string s"
| "json_text fr (PList xs) = CHR ''['' # json_elems fr xs"
| "json_text fr (PDict d) = CHR ''{'' # json_pairs fr d"
| "json_elems fr [] = '']''"
| "json_elems fr (x # xs) = json_text fr x @ (if xs = [] then '']'' else CHR '','' # json_elems fr xs)"
| "json_pairs fr [] = ''}''"
| "json_pairs fr ((k, v) # d) =
     json_string k @ CHR '':'' # json_text fr v @
     (if d = [] then ''}'' else CHR '','' # json_pairs fr d)"

definition canonical_json :: "(rat \<Rightarrow> string) \<Rightarrow> pyobj \<Rightarrow> string res" where
  "canonical_json fr v = rbind (canonical_primitive v) (\<lambda>w. Inr (json_text fr (sort_keys w)))"

definition contract_sha256 :: "(rat \<Rightarrow> string) \<Rightarrow> (string \<Rightarrow> string) \<Rightarrow> pyobj \<Rightarrow> string res" where
  "contract_sha256 fr sha v = rbind (canonical_json fr v) (\<lambda>t. Inr (sha t))"

section \<open>The text determines the value\<close>

text \<open>
  What the argument needs of \<open>repr\<close> on the floats \<open>F\<close> that occur: it tells them apart (Python's
  \<open>repr\<close> round-trips), it uses the characters of a number, and it always shows a point or an
  exponent, which is what keeps \<open>1.0\<close> and \<open>1\<close> apart.
\<close>

definition num_char :: "char \<Rightarrow> bool" where
  "num_char c \<longleftrightarrow> is_digit c \<or> c \<in> set ''-+.e''"

definition float_repr_ok :: "(rat \<Rightarrow> string) \<Rightarrow> rat set \<Rightarrow> bool" where
  "float_repr_ok fr F \<longleftrightarrow>
     inj_on fr F \<and>
     (\<forall>q \<in> F. fr q \<noteq> [] \<and> (is_digit (hd (fr q)) \<or> hd (fr q) = CHR ''-'') \<and>
        list_all num_char (fr q) \<and> (CHR ''.'' \<in> set (fr q) \<or> CHR ''e'' \<in> set (fr q)))"

fun floats_in :: "rat set \<Rightarrow> pyval \<Rightarrow> bool"
and floats_all :: "rat set \<Rightarrow> pyval list \<Rightarrow> bool"
and floats_items :: "rat set \<Rightarrow> pyval dict \<Rightarrow> bool" where
  "floats_in F (PFloat q) = (q \<in> F)"
| "floats_in F (PList xs) = floats_all F xs"
| "floats_in F (PDict d) = floats_items F d"
| "floats_in F PNone = True"
| "floats_in F (PBool b) = True"
| "floats_in F (PInt n) = True"
| "floats_in F (PStr s) = True"
| "floats_all F [] = True"
| "floats_all F (x # xs) = (floats_in F x \<and> floats_all F xs)"
| "floats_items F [] = True"
| "floats_items F ((k, v) # d) = (floats_in F v \<and> floats_items F d)"

definition json_delim :: "string \<Rightarrow> bool" where
  "json_delim r \<longleftrightarrow> r = [] \<or> hd r \<in> set '',]}''"

lemma json_delim_simps [simp]:
  "json_delim []" "json_delim (CHR '','' # r)" "json_delim (CHR '']'' # r)" "json_delim (CHR ''}'' # r)"
  by (simp_all add: json_delim_def)

lemma hex_char_inj: "m < 16 \<Longrightarrow> n < 16 \<Longrightarrow> hex_char m = hex_char n \<longleftrightarrow> m = n"
proof -
  have "distinct ''0123456789abcdef''" by code_simp
  then show "m < 16 \<Longrightarrow> n < 16 \<Longrightarrow> hex_char m = hex_char n \<longleftrightarrow> m = n"
    by (simp add: hex_char_def nth_eq_iff_index_eq del: distinct.simps)
qed

lemma json_escape_nonempty [simp]: "json_escape c \<noteq> []"
  by (simp add: json_escape_def)

lemma json_escape_head: "hd (json_escape c) \<noteq> CHR 34"
  by (simp add: json_escape_def)

lemma json_escape_not_quote [simp]: "json_escape c @ x \<noteq> CHR 34 # r" "CHR 34 # r \<noteq> json_escape c @ x"
  using json_escape_head [of c] by (metis hd_append2 json_escape_nonempty list.sel(1))+

lemma json_escape_prefix:
  assumes "json_escape c @ x = json_escape d @ y"
  shows "c = d \<and> x = y"
proof -
  let ?n = "\<lambda>c. (of_char c :: nat)"
  have u: "c = d" if "?n c < 32" "?n d < 32" "hex_char (?n c div 16) = hex_char (?n d div 16)"
    "hex_char (?n c mod 16) = hex_char (?n d mod 16)"
  proof -
    have "?n c div 16 = ?n d div 16" using that by (simp add: hex_char_inj)
    moreover have "?n c mod 16 = ?n d mod 16" using that(4) by (simp add: hex_char_inj)
    ultimately have "?n c = ?n d" by (metis div_mult_mod_eq)
    then show "c = d" by simp
  qed
  show ?thesis
    using assms u unfolding json_escape_def by (simp split: if_split_asm)
qed

lemma json_string_prefix:
  assumes "concat (map json_escape s) @ CHR 34 # r = concat (map json_escape t) @ CHR 34 # r'"
  shows "s = t \<and> r = r'"
  using assms
proof (induction s arbitrary: t)
  case Nil
  then show ?case by (cases t) simp_all
next
  case (Cons c s)
  show ?case
  proof (cases t)
    case Nil
    with Cons.prems show ?thesis by simp
  next
    case t: (Cons d t')
    from Cons.prems have "json_escape c @ (concat (map json_escape s) @ CHR 34 # r) =
        json_escape d @ (concat (map json_escape t') @ CHR 34 # r')" by (simp add: t)
    from json_escape_prefix [OF this] Cons.IH [of t'] show ?thesis by (simp add: t)
  qed
qed

lemma num_prefix:
  assumes "u @ r = v @ s" "list_all num_char u" "list_all num_char v" "json_delim r" "json_delim s"
  shows "u = v \<and> r = s"
proof -
  have d: "takeWhile num_char (w @ z) = w" if "list_all num_char w" "json_delim z" for w z
  proof (cases z)
    case Nil
    with that(1) show ?thesis by (simp add: takeWhile_eq_all_conv list_all_iff)
  next
    case (Cons c z')
    with that(2) have "c \<in> set '',]}''" by (simp add: json_delim_def)
    moreover have "\<forall>c \<in> set '',]}''. \<not> num_char c" by code_simp
    ultimately have "\<not> num_char c" by blast
    with that(1) Cons show ?thesis by (simp add: takeWhile_append list_all_iff)
  qed
  from d [OF assms(2,4)] d [OF assms(3,5)] assms(1) have "u = v" by simp
  with assms(1) show ?thesis by simp
qed

lemma int_str_num: "list_all num_char (int_str n)"
  using nat_str_digits by (auto simp: int_str_def list_all_iff num_char_def)

lemma int_str_head: "is_digit (hd (int_str n)) \<or> hd (int_str n) = CHR ''-''"
  using nat_str_digits [of "nat n"] nat_str_nonempty [of "nat n"]
  by (simp add: int_str_def)

lemma int_str_inj: "int_str m = int_str n \<Longrightarrow> m = n"
proof -
  have "\<not> is_digit CHR ''-''" by code_simp
  then have h: "hd (nat_str k) \<noteq> CHR ''-''" for k
    using nat_str_digits [of k] nat_str_nonempty [of k] by (metis list.set_sel(1))
  show "int_str m = int_str n \<Longrightarrow> m = n"
    using h by (auto simp: int_str_def nat_str_inj split: if_splits) (metis list.sel(1))+
qed

lemma int_str_no_point: "CHR ''.'' \<notin> set (int_str n) \<and> CHR ''e'' \<notin> set (int_str n)"
proof -
  have "\<not> is_digit CHR ''.''" "\<not> is_digit CHR ''e''" by code_simp+
  then show ?thesis using nat_str_digits by (auto simp: int_str_def)
qed

text \<open>The first character tells the kind of a value.\<close>

definition head_kind :: "char \<Rightarrow> nat" where
  "head_kind c =
     (if c = CHR ''n'' then 0 else if c = CHR ''t'' then 1 else if c = CHR ''f'' then 2
      else if is_digit c \<or> c = CHR ''-'' then 3 else if c = CHR 34 then 4
      else if c = CHR ''['' then 5 else 6)"

fun value_kind :: "pyval \<Rightarrow> nat" where
  "value_kind PNone = 0"
| "value_kind (PBool b) = (if b then 1 else 2)"
| "value_kind (PInt n) = 3"
| "value_kind (PFloat q) = 3"
| "value_kind (PStr s) = 4"
| "value_kind (PList xs) = 5"
| "value_kind (PDict d) = 6"

lemma is_digit_consts:
  "\<not> is_digit CHR ''n''" "\<not> is_digit CHR ''t''" "\<not> is_digit CHR ''f''" "\<not> is_digit CHR 34"
  "\<not> is_digit CHR ''[''" "\<not> is_digit CHR ''{''" "\<not> is_digit CHR ''-''" "\<not> is_digit CHR '']''"
  "\<not> is_digit CHR ''}''"
  by code_simp+

lemma head_kind_number: "is_digit c \<or> c = CHR ''-'' \<Longrightarrow> head_kind c = 3"
  using is_digit_consts by (auto simp: head_kind_def)

lemma json_text_head:
  assumes "float_repr_ok fr F" "floats_in F v"
  shows "json_text fr v \<noteq> [] \<and> head_kind (hd (json_text fr v)) = value_kind v"
proof (cases v)
  case (PInt n)
  then show ?thesis using int_str_head head_kind_number by simp
next
  case (PFloat q)
  with assms show ?thesis using head_kind_number by (simp add: float_repr_ok_def)
qed (simp_all add: head_kind_def json_string_def is_digit_consts)

lemma json_text_kind:
  assumes "float_repr_ok fr F" "floats_in F v" "floats_in F w"
    and "json_text fr v @ r = json_text fr w @ s"
  shows "value_kind v = value_kind w"
  using json_text_head [OF assms(1,2)] json_text_head [OF assms(1,3)] assms(4)
  by (metis hd_append2)

lemma json_close_not_value:
  assumes "float_repr_ok fr F" "floats_in F v"
  shows "json_text fr v @ r \<noteq> CHR '']'' # s" "CHR '']'' # s \<noteq> json_text fr v @ r"
proof -
  have "head_kind CHR '']'' = 6" by (simp add: head_kind_def is_digit_consts)
  moreover have "hd (json_text fr v) \<noteq> CHR '']''"
  proof (cases "value_kind v = 6")
    case True
    then obtain d where "v = PDict d" by (cases v) (auto split: if_splits)
    then show ?thesis by simp
  next
    case False
    with json_text_head [OF assms] \<open>head_kind CHR '']'' = 6\<close> show ?thesis by metis
  qed
  ultimately show "json_text fr v @ r \<noteq> CHR '']'' # s" "CHR '']'' # s \<noteq> json_text fr v @ r"
    using json_text_head [OF assms] by (metis hd_append2 list.sel(1))+
qed

lemma json_number_prefix:
  assumes f: "float_repr_ok fr F" and v: "floats_in F v" "value_kind v = 3"
    and w: "floats_in F w" "value_kind w = 3" and d: "json_delim r" "json_delim s"
    and e: "json_text fr v @ r = json_text fr w @ s"
  shows "v = w \<and> r = s"
proof -
  have num: "list_all num_char (json_text fr u)" if "floats_in F u" "value_kind u = 3" for u
    using that f int_str_num by (cases u) (auto simp: float_repr_ok_def split: if_splits)
  have t: "json_text fr v = json_text fr w \<and> r = s"
    by (rule num_prefix [OF e num [OF v] num [OF w] d])
  have mixed: "int_str n \<noteq> fr q" if "q \<in> F" for n q
    using f that int_str_no_point [of n] unfolding float_repr_ok_def by metis
  have "v = w"
    using t v w f mixed int_str_inj unfolding float_repr_ok_def
    by (cases v; cases w) (auto dest: inj_onD split: if_splits, metis+)
  with t show ?thesis by blast
qed

lemma json_prefix:
  shows "float_repr_ok fr F \<Longrightarrow> floats_in F v \<Longrightarrow> floats_in F w \<Longrightarrow> json_delim r \<Longrightarrow> json_delim s \<Longrightarrow>
           json_text fr v @ r = json_text fr w @ s \<Longrightarrow> v = w \<and> r = s"
    and "float_repr_ok fr F \<Longrightarrow> floats_all F xs \<Longrightarrow> floats_all F ys \<Longrightarrow>
           json_elems fr xs @ r = json_elems fr ys @ s \<Longrightarrow> xs = ys \<and> r = s"
    and "float_repr_ok fr F \<Longrightarrow> floats_items F d \<Longrightarrow> floats_items F e \<Longrightarrow>
           json_pairs fr d @ r = json_pairs fr e @ s \<Longrightarrow> d = e \<and> r = s"
proof (induction fr v and fr xs and fr d arbitrary: w r s and ys r s and e r s
    rule: json_text_json_elems_json_pairs.induct)
  case (1 fr)
  then have "value_kind w = 0" using json_text_kind [of fr F PNone w] by simp
  with 1 show ?case by (cases w) (auto split: if_splits)
next
  case (2 fr b)
  then have "value_kind w = value_kind (PBool b)" using json_text_kind [of fr F "PBool b" w] by simp
  with 2 show ?case by (cases w) (auto split: if_splits)
next
  case (3 fr n)
  have "value_kind w = 3" using json_text_kind [OF 3(1-3) 3(6)] by simp
  with json_number_prefix [OF 3(1,2) _ 3(3) _ 3(4,5,6)] show ?case by simp
next
  case (4 fr q)
  have "value_kind w = 3" using json_text_kind [OF 4(1-3) 4(6)] by simp
  with json_number_prefix [OF 4(1,2) _ 4(3) _ 4(4,5,6)] show ?case by simp
next
  case (5 fr t)
  have "value_kind w = 4" using json_text_kind [OF 5(1-3) 5(6)] by simp
  then obtain u where u: "w = PStr u" by (cases w) (auto split: if_splits)
  with 5(6) have "concat (map json_escape t) @ CHR 34 # r = concat (map json_escape u) @ CHR 34 # s"
    by (simp add: json_string_def)
  from json_string_prefix [OF this] u show ?case by simp
next
  case (6 fr xs)
  have "value_kind w = 5" using json_text_kind [OF 6(2-4) 6(7)] by simp
  then obtain ys where ys: "w = PList ys" by (cases w) (auto split: if_splits)
  with 6(7) have "json_elems fr xs @ r = json_elems fr ys @ s" by simp
  from 6(1) [OF 6(2) _ _ this] 6(3,4) ys show ?case by simp
next
  case (7 fr d)
  have "value_kind w = 6" using json_text_kind [OF 7(2-4) 7(7)] by simp
  then obtain e where e: "w = PDict e" by (cases w) (auto split: if_splits)
  with 7(7) have "json_pairs fr d @ r = json_pairs fr e @ s" by simp
  from 7(1) [OF 7(2) _ _ this] 7(3,4) e show ?case by simp
next
  case (8 fr)
  show ?case
  proof (cases ys)
    case (Cons y ys')
    with 8 json_close_not_value(2) [OF 8(1), of y] show ?thesis by (simp split: if_splits)
  qed (use 8 in simp)
next
  case (9 fr x xs)
  let ?r = "(if xs = [] then '']'' else CHR '','' # json_elems fr xs) @ r"
  show ?case
  proof (cases ys)
    case Nil
    with 9(6) json_close_not_value(1) [OF 9(3), of x ?r s] 9(4) show ?thesis by simp
  next
    case (Cons y ys')
    let ?s = "(if ys' = [] then '']'' else CHR '','' # json_elems fr ys') @ s"
    have f: "floats_in F x" "floats_in F y" "floats_all F xs" "floats_all F ys'"
      using 9(4,5) Cons by simp_all
    have eq: "json_text fr x @ ?r = json_text fr y @ ?s" using 9(6) Cons by simp
    have "json_delim ?r" "json_delim ?s" by simp_all
    from 9(1) [OF 9(3) f(1,2) this eq] have h: "x = y" "?r = ?s" by simp_all
    show ?thesis
    proof (cases "xs = []")
      case True
      with h(2) have "ys' = [] \<and> r = s" by (simp split: if_splits)
      with True h(1) Cons show ?thesis by simp
    next
      case False
      with h(2) have "ys' \<noteq> []" "json_elems fr xs @ r = json_elems fr ys' @ s"
        by (simp_all split: if_splits)
      from 9(2) [OF False 9(3) f(3,4) this(2)] h(1) Cons show ?thesis by simp
    qed
  qed
next
  case (10 fr)
  show ?case
  proof (cases e)
    case (Cons p e')
    with 10 show ?thesis by (cases p) (simp add: json_string_def split: if_splits)
  qed (use 10 in simp)
next
  case (11 fr k v d)
  let ?r = "(if d = [] then ''}'' else CHR '','' # json_pairs fr d) @ r"
  show ?case
  proof (cases e)
    case Nil
    with 11 show ?thesis by (simp add: json_string_def)
  next
    case (Cons p e')
    obtain j w where p: "p = (j, w)" by (cases p)
    let ?s = "(if e' = [] then ''}'' else CHR '','' # json_pairs fr e') @ s"
    have f: "floats_in F v" "floats_in F w" "floats_items F d" "floats_items F e'"
      using 11(4,5) Cons p by simp_all
    have "concat (map json_escape k) @ CHR 34 # CHR '':'' # json_text fr v @ ?r =
        concat (map json_escape j) @ CHR 34 # CHR '':'' # json_text fr w @ ?s"
      using 11(6) Cons p by (simp add: json_string_def)
    from json_string_prefix [OF this] have kj: "k = j"
      and eq: "json_text fr v @ ?r = json_text fr w @ ?s" by simp_all
    have "json_delim ?r" "json_delim ?s" by simp_all
    from 11(1) [OF 11(3) f(1,2) this eq] have h: "v = w" "?r = ?s" by simp_all
    show ?thesis
    proof (cases "d = []")
      case True
      with h(2) have "e' = [] \<and> r = s" by (simp split: if_splits)
      with True h(1) kj Cons p show ?thesis by simp
    next
      case False
      with h(2) have "e' \<noteq> []" "json_pairs fr d @ r = json_pairs fr e' @ s"
        by (simp_all split: if_splits)
      from 11(2) [OF False 11(3) f(3,4) this(2)] h(1) kj Cons p show ?thesis by simp
    qed
  qed
qed

lemma json_text_inj:
  assumes "float_repr_ok fr F" "floats_in F v" "floats_in F w" "json_text fr v = json_text fr w"
  shows "v = w"
  using json_prefix(1) [of fr F v w "[]" "[]"] assms by simp

section \<open>Envelopes\<close>

text \<open>
  \<open>str(value)\<close> on a JSON value; \<open>repr\<close> is what a nested value shows.
\<close>

fun py_repr :: "(rat \<Rightarrow> string) \<Rightarrow> pyval \<Rightarrow> string"
and repr_elems :: "(rat \<Rightarrow> string) \<Rightarrow> pyval list \<Rightarrow> string"
and repr_pairs :: "(rat \<Rightarrow> string) \<Rightarrow> pyval dict \<Rightarrow> string" where
  "py_repr fr PNone = ''None''"
| "py_repr fr (PBool b) = (if b then ''True'' else ''False'')"
| "py_repr fr (PInt n) = int_str n"
| "py_repr fr (PFloat q) = fr q"
| "py_repr fr (PStr s) = repr_str s"
| "py_repr fr (PList xs) = CHR ''['' # repr_elems fr xs"
| "py_repr fr (PDict d) = CHR ''{'' # repr_pairs fr d"
| "repr_elems fr [] = '']''"
| "repr_elems fr (x # xs) = py_repr fr x @ (if xs = [] then '']'' else '', '' @ repr_elems fr xs)"
| "repr_pairs fr [] = ''}''"
| "repr_pairs fr ((k, v) # d) =
     repr_str k @ '': '' @ py_repr fr v @ (if d = [] then ''}'' else '', '' @ repr_pairs fr d)"

fun py_str :: "(rat \<Rightarrow> string) \<Rightarrow> pyval \<Rightarrow> string" where
  "py_str fr (PStr s) = s"
| "py_str fr v = py_repr fr v"

definition validate_extensions :: "string list \<Rightarrow> unit res" where
  "validate_extensions names =
     (case find (\<lambda>n. \<not> contract_name n) names of
        Some n \<Rightarrow> Inl (ValueError (''extension keys must be lowercase namespaced identifiers: '' @ repr_str n))
      | None \<Rightarrow> Inr ())"

record envelope =
  env_contract :: contract_ref
  env_producer :: string
  env_payload :: pyval
  env_extensions :: "pyval dict"
  env_sha :: string

definition ref_to_dict :: "contract_ref \<Rightarrow> pyval" where
  "ref_to_dict r =
     PDict [(''name'', PStr (ref_name r)), (''version'', PStr (version_str (ref_version r)))]"

definition env_body :: "envelope \<Rightarrow> pyval dict" where
  "env_body e =
     [(''contract'', ref_to_dict (env_contract e)), (''producer'', PStr (env_producer e)),
      (''payload'', env_payload e), (''extensions'', PDict (env_extensions e))]"

definition env_text :: "(rat \<Rightarrow> string) \<Rightarrow> envelope \<Rightarrow> string" where
  "env_text fr e = json_text fr (sort_keys (PDict (env_body e)))"

definition verify_envelope :: "(rat \<Rightarrow> string) \<Rightarrow> (string \<Rightarrow> string) \<Rightarrow> envelope \<Rightarrow> envelope res" where
  "verify_envelope fr sha e =
     rbind (contract_sha256 fr sha (obj_of (PDict (env_body e)))) (\<lambda>expected.
       if env_sha e \<noteq> expected then Inl (ValueError ''contract envelope checksum mismatch'')
       else Inr e)"

text \<open>The constructor; \<open>_freeze\<close> keeps the normalised value and makes it read-only.\<close>

definition make_envelope ::
  "(rat \<Rightarrow> string) \<Rightarrow> (string \<Rightarrow> string) \<Rightarrow> contract_ref \<Rightarrow> string \<Rightarrow> pyobj \<Rightarrow>
   (string \<times> pyobj) list \<Rightarrow> string \<Rightarrow> envelope res" where
  "make_envelope fr sha contract producer payload extensions content_sha256 =
     (if py_strip producer = [] then Inl (ValueError ''producer must be non-empty'')
      else rbind (validate_extensions (map fst extensions)) (\<lambda>_.
           rbind (canonical_primitive payload) (\<lambda>p.
           rbind (canonical_fields extensions) (\<lambda>x.
             verify_envelope fr sha
               \<lparr>env_contract = contract, env_producer = py_strip producer, env_payload = p,
                env_extensions = x, env_sha = py_lower content_sha256\<rparr>))))"

definition create_envelope ::
  "(rat \<Rightarrow> string) \<Rightarrow> (string \<Rightarrow> string) \<Rightarrow> contract_ref \<Rightarrow> string \<Rightarrow> pyobj \<Rightarrow>
   (string \<times> pyobj) list \<Rightarrow> envelope res" where
  "create_envelope fr sha contract producer payload extensions =
     rbind (contract_sha256 fr sha
       (OData [(''contract'', obj_of (ref_to_dict contract)), (''producer'', OStr (py_strip producer)),
               (''payload'', payload), (''extensions'', OData extensions)]))
       (make_envelope fr sha contract producer payload extensions)"

definition envelope_fields :: "string list" where
  "envelope_fields = [''contract'', ''producer'', ''payload'', ''extensions'', ''content_sha256'']"

text \<open>
  \<open>from_dict\<close>: every \<open>KeyError\<close>, \<open>TypeError\<close> or \<open>ValueError\<close> of the body becomes a
  \<open>ContractIntegrityError\<close>, which is a \<open>ValueError\<close>.
\<close>

definition get_item :: "pyval dict \<Rightarrow> string \<Rightarrow> pyval res" where
  "get_item d k = (case map_of d k of None \<Rightarrow> Inl (KeyError k) | Some v \<Rightarrow> Inr v)"

definition obj_dict :: "pyval dict \<Rightarrow> (string \<times> pyobj) list" where
  "obj_dict d = map (\<lambda>(k, v). (k, obj_of v)) d"

definition envelope_of_mappings ::
  "(rat \<Rightarrow> string) \<Rightarrow> (string \<Rightarrow> string) \<Rightarrow> pyval dict \<Rightarrow> contract_ref option \<Rightarrow>
   contract_ref \<Rightarrow> pyval \<Rightarrow> pyval \<Rightarrow> envelope res" where
  "envelope_of_mappings fr sha data required contract payload extensions =
     (case payload of
        PDict p \<Rightarrow>
          (case extensions of
             PDict x \<Rightarrow>
               rbind (get_item data ''producer'') (\<lambda>producer.
               rbind (get_item data ''content_sha256'') (\<lambda>digest.
               rbind (make_envelope fr sha contract (py_str fr producer) (obj_of (PDict p))
                        (obj_dict x) (py_str fr digest)) (\<lambda>e.
               case required of
                 None \<Rightarrow> Inr e
               | Some r \<Rightarrow> rbind (require_satisfies (env_contract e) r) (\<lambda>_. Inr e))))
           | _ \<Rightarrow> Inl (TypeError ''payload and extensions must be mappings''))
      | _ \<Rightarrow> Inl (TypeError ''payload and extensions must be mappings''))"

definition envelope_of_fields ::
  "(rat \<Rightarrow> string) \<Rightarrow> (string \<Rightarrow> string) \<Rightarrow> pyval dict \<Rightarrow> pyval dict \<Rightarrow> contract_ref option \<Rightarrow>
   envelope res" where
  "envelope_of_fields fr sha data contract_data required =
     rbind (get_item contract_data ''name'') (\<lambda>n.
     rbind (get_item contract_data ''version'') (\<lambda>v.
     rbind (parse_version (py_str fr v)) (\<lambda>version.
     rbind (contract_ref (py_str fr n) version) (\<lambda>contract.
     rbind (get_item data ''payload'') (\<lambda>payload.
     rbind (get_item data ''extensions'') (\<lambda>extensions.
       envelope_of_mappings fr sha data required contract payload extensions))))))"

definition envelope_from_dict ::
  "(rat \<Rightarrow> string) \<Rightarrow> (string \<Rightarrow> string) \<Rightarrow> pyval dict \<Rightarrow> contract_ref option \<Rightarrow> envelope res" where
  "envelope_from_dict fr sha data required =
     (if set (map fst data) \<noteq> set envelope_fields
      then Inl (ValueError ''invalid contract envelope fields'')
      else (case map_of data ''contract'' of
              Some (PDict contract_data) \<Rightarrow>
                (case envelope_of_fields fr sha data contract_data required of
                   Inl _ \<Rightarrow> Inl (ValueError ''invalid contract envelope'')
                 | Inr e \<Rightarrow> Inr e)
            | _ \<Rightarrow> Inl (ValueError ''contract must be a mapping'')))"

definition envelope_to_dict :: "envelope \<Rightarrow> pyval dict" where
  "envelope_to_dict e = env_body e @ [(''content_sha256'', PStr (env_sha e))]"

section \<open>Envelopes round-trip and commit to their content\<close>

lemma canonical_fields_obj_dict [simp]: "canonical_fields (obj_dict d) = Inr d"
  by (induction d) (auto simp: obj_dict_def)

lemma map_fst_obj_dict [simp]: "map fst (obj_dict d) = map fst d"
  by (induction d) (auto simp: obj_dict_def)

lemma canonical_fields_keys: "canonical_fields fs = Inr d \<Longrightarrow> map fst d = map fst fs"
  by (induction fs arbitrary: d) (auto simp: rbind_Inr_iff)

lemma contract_sha256_obj: "contract_sha256 fr sha (obj_of v) = Inr (sha (json_text fr (sort_keys v)))"
  by (simp add: contract_sha256_def canonical_json_def)

lemma verify_envelope_Inr:
  "verify_envelope fr sha e = Inr e' \<longleftrightarrow> e' = e \<and> env_sha e = sha (env_text fr e)"
  unfolding verify_envelope_def contract_sha256_obj env_text_def by auto

lemma make_envelope_Inr:
  assumes "make_envelope fr sha c p payload ext h = Inr e"
  shows "env_contract e = c" "env_producer e = py_strip p" "py_strip p \<noteq> []"
    "validate_extensions (map fst (env_extensions e)) = Inr ()"
    "canonical_primitive payload = Inr (env_payload e)" "canonical_fields ext = Inr (env_extensions e)"
    "env_sha e = py_lower h" "env_sha e = sha (env_text fr e)"
  using assms canonical_fields_keys
  by (auto simp: make_envelope_def rbind_Inr_iff verify_envelope_Inr split: if_splits)

lemma make_envelope_again:
  assumes "env_producer e = py_strip (env_producer e)" "env_producer e \<noteq> []"
    and "validate_extensions (map fst (env_extensions e)) = Inr ()"
    and "env_sha e = sha (env_text fr e)" "py_lower (env_sha e) = env_sha e"
  shows "make_envelope fr sha (env_contract e) (env_producer e) (obj_of (env_payload e))
           (obj_dict (env_extensions e)) (env_sha e) = Inr e"
proof -
  have eta: "\<lparr>env_contract = env_contract e, env_producer = env_producer e,
      env_payload = env_payload e, env_extensions = env_extensions e, env_sha = env_sha e\<rparr> = e"
    by simp
  have "verify_envelope fr sha \<lparr>env_contract = env_contract e, env_producer = env_producer e,
      env_payload = env_payload e, env_extensions = env_extensions e, env_sha = env_sha e\<rparr> = Inr e"
    unfolding eta verify_envelope_Inr using assms(4) by simp
  with assms show ?thesis by (simp add: make_envelope_def)
qed

lemma create_envelope_Inr:
  assumes "create_envelope fr sha c p payload ext = Inr e"
  shows "\<exists>h. make_envelope fr sha c p payload ext h = Inr e"
  using assms by (auto simp: create_envelope_def rbind_Inr_iff)

lemma ref_roundtrip:
  assumes "ref_ok c"
  shows "rbind (parse_version (py_str fr (PStr (version_str (ref_version c)))))
           (\<lambda>v. contract_ref (py_str fr (PStr (ref_name c))) v) = Inr c"
  using assms by (simp add: ref_ok_def parse_version_str contract_ref_def
      require_namespaced_identifier_def contract_name_strip)

lemma envelope_to_dict_items:
  "set (map fst (envelope_to_dict e)) = set envelope_fields"
  "map_of (envelope_to_dict e) ''contract'' = Some (ref_to_dict (env_contract e))"
  "get_item (envelope_to_dict e) ''payload'' = Inr (env_payload e)"
  "get_item (envelope_to_dict e) ''extensions'' = Inr (PDict (env_extensions e))"
  "get_item (envelope_to_dict e) ''producer'' = Inr (PStr (env_producer e))"
  "get_item (envelope_to_dict e) ''content_sha256'' = Inr (PStr (env_sha e))"
  by (auto simp: envelope_to_dict_def env_body_def envelope_fields_def get_item_def)

lemma created_envelope_read:
  assumes "create_envelope fr sha contract producer payload extensions = Inr e"
    and "ref_ok contract" and "\<And>t. py_lower (sha t) = sha t"
    and "env_payload e = PDict d" and "required = None \<or> (\<exists>r. required = Some r \<and> satisfies contract r)"
  shows "envelope_from_dict fr sha (envelope_to_dict e) required = Inr e"
proof -
  from create_envelope_Inr [OF assms(1)] obtain h
    where "make_envelope fr sha contract producer payload extensions h = Inr e" by blast
  note m = make_envelope_Inr [OF this]
  have "make_envelope fr sha contract (env_producer e) (obj_of (PDict d))
      (obj_dict (env_extensions e)) (env_sha e) = Inr e"
    using make_envelope_again [of e sha fr] m assms(3) by (simp add: assms(4) [symmetric])
  moreover have "(case required of None \<Rightarrow> Inr e
      | Some r \<Rightarrow> rbind (require_satisfies (env_contract e) r) (\<lambda>_. Inr e)) = Inr e"
    using assms(5) m(1) satisfies_require by (auto split: option.splits)
  moreover have "parse_version (version_str (ref_version contract)) = Inr (ref_version contract)"
    "contract_ref (ref_name contract) (ref_version contract) = Inr contract"
    using ref_roundtrip [OF assms(2)] assms(2)
    by (simp_all add: ref_ok_def parse_version_str contract_ref_def
        require_namespaced_identifier_def contract_name_strip)
  moreover have "get_item [(''name'', n), (''version'', v)] ''name'' = Inr n"
    "get_item [(''name'', n), (''version'', v)] ''version'' = Inr v" for n v :: pyval
    by (simp_all add: get_item_def)
  ultimately have "envelope_of_fields fr sha (envelope_to_dict e)
      [(''name'', PStr (ref_name contract)), (''version'', PStr (version_str (ref_version contract)))]
      required = Inr e"
    by (simp add: envelope_of_fields_def envelope_of_mappings_def envelope_to_dict_items assms(4)
        split: option.splits)
  then show ?thesis
    using envelope_to_dict_items(1) [of e]
    by (simp add: envelope_from_dict_def envelope_to_dict_items(2) ref_to_dict_def m(1))
qed

text \<open>
  A created envelope survives transport: \<open>ContractEnvelope.from_dict\<close> of the
  dictionary an envelope writes returns that envelope, for every contract, producer, payload
  mapping and extensions that \<open>create\<close> accepts, whenever the digest is written in lower case, as
  \<open>hexdigest\<close> documents.
\<close>

theorem envelope_roundtrip:
  assumes "create_envelope fr sha contract producer payload extensions = Inr e"
    and "ref_ok contract" and "\<And>t. py_lower (sha t) = sha t"
    and "env_payload e = PDict d" and "required = None \<or> (\<exists>r. required = Some r \<and> satisfies contract r)"
  shows "envelope_from_dict fr sha (envelope_to_dict e) required = Inr e"
  using assms by (rule created_envelope_read)

text \<open>
  Concrete instances: the identity as digest (it is injective and the texts are in lower case),
  and halves as the only floats.
\<close>

definition sample_repr :: "rat \<Rightarrow> string" where
  "sample_repr q = ''0.5''"

lemma sample_repr_ok: "float_repr_ok sample_repr {1 / 2}"
proof -
  have "is_digit (hd ''0.5'')" "list_all num_char ''0.5''" "CHR ''.'' \<in> set ''0.5''" by code_simp+
  then show ?thesis by (simp add: float_repr_ok_def sample_repr_def)
qed

definition sample_payload :: "(pyobj \<times> pyobj) list" where
  "sample_payload = [(OStr ''b'', OSeq [OInt 1, OFloat (1 / 2)]), (OStr ''a'', OEnum (OStr ''pass''))]"

definition sample_ref :: contract_ref where
  "sample_ref = ContractRef ''qraft.run-lock'' (ContractVersion 1 0)"

definition sample_envelope :: envelope where
  "sample_envelope =
     \<lparr>env_contract = sample_ref, env_producer = ''qraft'',
      env_payload = PDict [(''b'', PList [PInt 1, PFloat (1 / 2)]), (''a'', PStr ''pass'')],
      env_extensions = [],
      env_sha = py_lower (json_text sample_repr (sort_keys (PDict
        [(''contract'', ref_to_dict sample_ref), (''producer'', PStr ''qraft''),
         (''payload'', PDict [(''b'', PList [PInt 1, PFloat (1 / 2)]), (''a'', PStr ''pass'')]),
         (''extensions'', PDict [])])))\<rparr>"

lemma sample_created:
  "create_envelope sample_repr py_lower sample_ref '' qraft '' (OMap sample_payload) [] =
     Inr sample_envelope"
proof -
  have s: "py_strip '' qraft '' = ''qraft''" by code_simp
  show ?thesis
    by (simp add: create_envelope_def sample_payload_def contract_sha256_def canonical_json_def
        make_envelope_def s validate_extensions_def verify_envelope_Inr sample_envelope_def
        env_text_def env_body_def ref_to_dict_def)
qed

theorem envelope_roundtrip_witness:
  "envelope_from_dict sample_repr py_lower (envelope_to_dict sample_envelope)
     (Some (ContractRef ''qraft.run-lock'' (ContractVersion 1 0))) = Inr sample_envelope"
proof (rule envelope_roundtrip [OF sample_created])
  show "ref_ok sample_ref" by code_simp
  show "py_lower (py_lower t) = py_lower t" for t by simp
  show "env_payload sample_envelope =
      PDict [(''b'', PList [PInt 1, PFloat (1 / 2)]), (''a'', PStr ''pass'')]"
    by (simp add: sample_envelope_def)
  have "satisfies sample_ref (ContractRef ''qraft.run-lock'' (ContractVersion 1 0))" by code_simp
  then show "Some (ContractRef ''qraft.run-lock'' (ContractVersion 1 0)) = None \<or>
      (\<exists>r. Some (ContractRef ''qraft.run-lock'' (ContractVersion 1 0)) = Some r \<and>
           satisfies sample_ref r)" by blast
qed

lemma envelope_of_mappings_Inr:
  assumes "envelope_of_mappings fr sha data required c payload extensions = Inr e"
  shows "\<exists>p obj x h. make_envelope fr sha c p obj x h = Inr e \<and>
           (case required of None \<Rightarrow> Inr e
            | Some r \<Rightarrow> rbind (require_satisfies (env_contract e) r) (\<lambda>_. Inr e)) = Inr e"
proof -
  from assms obtain d x where "payload = PDict d" "extensions = PDict x"
    by (cases payload; cases extensions) (simp_all add: envelope_of_mappings_def)
  with assms show ?thesis
    by (auto simp: envelope_of_mappings_def rbind_Inr_iff split: option.splits) blast+
qed

lemma from_dict_verified:
  assumes "envelope_from_dict fr sha data required = Inr e"
  shows "env_sha e = sha (env_text fr e)"
    and "required = None \<or> (\<exists>r. required = Some r \<and> satisfies (env_contract e) r)"
proof -
  from assms obtain cd where "envelope_of_fields fr sha data cd required = Inr e"
    by (auto simp: envelope_from_dict_def split: if_splits option.splits pyval.splits sum.splits)
  then obtain c pl xs where "envelope_of_mappings fr sha data required c pl xs = Inr e"
    by (auto simp: envelope_of_fields_def rbind_Inr_iff)
  from envelope_of_mappings_Inr [OF this] obtain p obj x h
    where m: "make_envelope fr sha c p obj x h = Inr e"
      and r: "(case required of None \<Rightarrow> Inr e
           | Some r \<Rightarrow> rbind (require_satisfies (env_contract e) r) (\<lambda>_. Inr e)) = Inr e" by blast
  from make_envelope_Inr(8) [OF m] show "env_sha e = sha (env_text fr e)" .
  from r show "required = None \<or> (\<exists>r. required = Some r \<and> satisfies (env_contract e) r)"
    by (auto simp: rbind_Inr_iff require_satisfies_def require_supports_def satisfies_def
        split: option.splits if_splits)
qed

lemma sort_pair_fields:
  "sort_keys (PDict (env_body e)) =
     PDict [(''contract'', sort_keys (ref_to_dict (env_contract e))),
            (''extensions'', sort_keys (PDict (env_extensions e))),
            (''payload'', sort_keys (env_payload e)), (''producer'', PStr (env_producer e))]"
  unfolding env_body_def by (simp add: sort_key_def)

text \<open>
  Property C27. The checksum commits to the content. If \<open>from_dict\<close> accepts two dictionaries that
  carry the same \<open>content_sha256\<close>, and SHA-256 has no collision between the two canonical texts,
  the two envelopes have the same producer, the same contract, and the same payload and extensions
  up to the order of dictionary keys; an accepted envelope satisfies the required contract.
\<close>

theorem envelope_checksum_commits:
  assumes "envelope_from_dict fr sha data1 required = Inr e1"
    and "envelope_from_dict fr sha data2 required = Inr e2"
    and "env_sha e1 = env_sha e2"
    and "sha (env_text fr e1) = sha (env_text fr e2) \<Longrightarrow> env_text fr e1 = env_text fr e2"
    and "float_repr_ok fr F"
    and "floats_in F (sort_keys (PDict (env_body e1)))"
    and "floats_in F (sort_keys (PDict (env_body e2)))"
  shows "env_producer e1 = env_producer e2 \<and>
         ref_to_dict (env_contract e1) = ref_to_dict (env_contract e2) \<and>
         sort_keys (env_payload e1) = sort_keys (env_payload e2) \<and>
         sort_keys (PDict (env_extensions e1)) = sort_keys (PDict (env_extensions e2)) \<and>
         (required = None \<or> (\<exists>r. required = Some r \<and> satisfies (env_contract e1) r))"
proof -
  have "env_text fr e1 = env_text fr e2"
    using from_dict_verified(1) [OF assms(1)] from_dict_verified(1) [OF assms(2)] assms(3,4) by simp
  then have "sort_keys (PDict (env_body e1)) = sort_keys (PDict (env_body e2))"
    using json_text_inj [OF assms(5-7)] by (simp add: env_text_def)
  then have "env_producer e1 = env_producer e2 \<and>
      sort_keys (ref_to_dict (env_contract e1)) = sort_keys (ref_to_dict (env_contract e2)) \<and>
      sort_keys (env_payload e1) = sort_keys (env_payload e2) \<and>
      sort_keys (PDict (env_extensions e1)) = sort_keys (PDict (env_extensions e2))"
    unfolding sort_pair_fields by simp
  moreover from this have "ref_to_dict (env_contract e1) = ref_to_dict (env_contract e2)"
    by (simp add: ref_to_dict_def sort_key_def)
  ultimately show ?thesis using from_dict_verified(2) [OF assms(1)] by blast
qed

definition sample_reordered :: envelope where
  "sample_reordered = sample_envelope\<lparr>env_payload :=
     PDict [(''a'', PStr ''pass''), (''b'', PList [PInt 1, PFloat (1 / 2)])]\<rparr>"

lemma sample_bodies:
  "sort_keys (PDict (env_body sample_reordered)) = sort_keys (PDict (env_body sample_envelope))"
proof -
  have "sort_keys (PDict [(''a'', PStr ''pass''), (''b'', PList [PInt 1, PFloat (1 / 2)])]) =
      sort_keys (PDict [(''b'', PList [PInt 1, PFloat (1 / 2)]), (''a'', PStr ''pass'')])"
    by (simp add: sort_key_def)
  then show ?thesis
    unfolding sort_pair_fields by (simp add: sample_reordered_def sample_envelope_def)
qed

lemma sample_reordered_created:
  "create_envelope sample_repr py_lower sample_ref ''qraft'' (OMap (rev sample_payload)) [] =
     Inr sample_reordered"
proof -
  have s: "py_strip ''qraft'' = ''qraft''" by code_simp
  have e: "env_sha sample_reordered =
      py_lower (json_text sample_repr (sort_keys (PDict (env_body sample_reordered))))"
    unfolding sample_bodies by (simp add: sample_reordered_def sample_envelope_def env_body_def)
  have "verify_envelope sample_repr py_lower sample_reordered = Inr sample_reordered"
    using e by (simp add: verify_envelope_Inr env_text_def)
  moreover have "canonical_fields [] = Inr []" by simp
  ultimately show ?thesis using e
    by (simp add: create_envelope_def sample_payload_def contract_sha256_def canonical_json_def
        make_envelope_def s validate_extensions_def sample_reordered_def sample_envelope_def
        env_body_def)
qed

theorem envelope_checksum_commits_witness:
  "sort_keys (env_payload sample_envelope) = sort_keys (env_payload sample_reordered)"
proof -
  have ok: "ref_ok sample_ref" by code_simp
  have p: "env_payload sample_envelope =
      PDict [(''b'', PList [PInt 1, PFloat (1 / 2)]), (''a'', PStr ''pass'')]"
    "env_payload sample_reordered =
      PDict [(''a'', PStr ''pass''), (''b'', PList [PInt 1, PFloat (1 / 2)])]"
    by (simp_all add: sample_envelope_def sample_reordered_def)
  have rt: "envelope_from_dict sample_repr py_lower (envelope_to_dict e) None = Inr e"
    if "create_envelope sample_repr py_lower sample_ref producer payload [] = Inr e"
      "env_payload e = PDict d" for e producer payload d
    by (rule created_envelope_read [OF that(1) ok _ that(2)]) simp_all
  have f: "floats_in {1 / 2} (sort_keys (PDict (env_body sample_envelope)))"
    by (simp add: sample_envelope_def env_body_def ref_to_dict_def sort_key_def)
  from envelope_checksum_commits [OF rt [OF sample_created p(1)] rt [OF sample_reordered_created p(2)]
      _ _ sample_repr_ok f]
  show ?thesis
    using f by (simp add: sample_bodies env_text_def sample_reordered_def sample_envelope_def)
qed

end
