(* ===== verification/Artifacts.thy ===== *)
theory Artifacts
  imports Serialization
begin

text \<open>
  Relative artifact paths, artifact references, transfers and provenance links:
  \<open>src/qraft/contracts/artifacts.py\<close>. A \<open>PurePosixPath\<close> is its text split at slashes without
  the empty and the \<open>.\<close> pieces.
\<close>

section \<open>Relative paths\<close>

definition path_parts :: "string \<Rightarrow> string list" where
  "path_parts raw = filter (\<lambda>p. p \<noteq> [] \<and> p \<noteq> ''.'') (split_on (\<lambda>c. c = CHR ''/'') raw)"

definition posix_slashes :: "string \<Rightarrow> string" where
  "posix_slashes s = map (\<lambda>c. if c = CHR 92 then CHR ''/'' else c) s"

definition require_relative_artifact_path :: "string \<Rightarrow> string \<Rightarrow> string res" where
  "require_relative_artifact_path v field_name =
     (let raw = posix_slashes v; parts = path_parts raw in
      if raw = [] \<or> hd raw = CHR ''/'' \<or> ''..'' \<in> set parts \<or> parts = [] \<or>
         last (hd parts) = CHR '':''
      then Inl (ValueError (''unsafe relative path in '' @ field_name @ '': '' @ repr_str v))
      else Inr (join_with CHR ''/'' parts))"

text \<open>\<open>PurePosixPath(p).name\<close>.\<close>

definition path_name :: "string \<Rightarrow> string" where
  "path_name p = (if path_parts p = [] then [] else last (path_parts p))"

text \<open>What "safe" means for the returned text, without the parser's intermediate values.\<close>

definition safe_relative :: "string \<Rightarrow> bool" where
  "safe_relative p \<longleftrightarrow>
     p \<noteq> [] \<and> CHR 92 \<notin> set p \<and>
     (\<forall>x \<in> set (split_on (\<lambda>c. c = CHR ''/'') p). x \<noteq> [] \<and> x \<noteq> ''.'' \<and> x \<noteq> ''..'') \<and>
     last (hd (split_on (\<lambda>c. c = CHR ''/'') p)) \<noteq> CHR '':''"

lemma path_parts_clean:
  "x \<in> set (path_parts raw) \<Longrightarrow> x \<noteq> [] \<and> x \<noteq> ''.'' \<and> CHR ''/'' \<notin> set x \<and> set x \<subseteq> set raw"
  unfolding path_parts_def using split_on_pieces [of x "\<lambda>c. c = CHR ''/''" raw] by auto

lemma path_parts_join:
  assumes "xs \<noteq> []" "\<forall>x \<in> set xs. x \<noteq> [] \<and> x \<noteq> ''.'' \<and> CHR ''/'' \<notin> set x"
  shows "path_parts (join_with CHR ''/'' xs) = xs"
    and "split_on (\<lambda>c. c = CHR ''/'') (join_with CHR ''/'' xs) = xs"
proof -
  show "split_on (\<lambda>c. c = CHR ''/'') (join_with CHR ''/'' xs) = xs"
    using assms by (intro split_join) auto
  with assms(2) show "path_parts (join_with CHR ''/'' xs) = xs"
    by (simp add: path_parts_def filter_id_conv)
qed

lemma join_with_head: "x \<noteq> [] \<Longrightarrow> hd (join_with c (x # xs)) = hd x"
  by (cases xs) auto

lemma join_with_nonempty: "x \<noteq> [] \<Longrightarrow> join_with c (x # xs) \<noteq> []"
  by (cases xs) auto

lemma set_join_with: "set (join_with c xs) \<subseteq> insert c (\<Union> (set ` set xs))"
  by (induction c xs rule: join_with.induct) auto

lemma require_relative_Inr:
  assumes "require_relative_artifact_path v f = Inr p"
  shows "path_parts p = path_parts (posix_slashes v)"
    and "split_on (\<lambda>c. c = CHR ''/'') p = path_parts (posix_slashes v)"
    and "path_parts (posix_slashes v) \<noteq> []" and "''..'' \<notin> set (path_parts (posix_slashes v))"
    and "last (hd (path_parts (posix_slashes v))) \<noteq> CHR '':''"
    and "p = join_with CHR ''/'' (path_parts (posix_slashes v))"
proof -
  let ?xs = "path_parts (posix_slashes v)"
  from assms show ne: "?xs \<noteq> []" and p: "p = join_with CHR ''/'' ?xs" and "''..'' \<notin> set ?xs"
    and "last (hd ?xs) \<noteq> CHR '':''"
    by (auto simp: require_relative_artifact_path_def Let_def split: if_splits)
  have "\<forall>x \<in> set ?xs. x \<noteq> [] \<and> x \<noteq> ''.'' \<and> CHR ''/'' \<notin> set x"
    using path_parts_clean by blast
  from path_parts_join [OF ne this] p
  show "path_parts p = ?xs" "split_on (\<lambda>c. c = CHR ''/'') p = ?xs" by simp_all
qed

lemma posix_slashes_id: "CHR 92 \<notin> set p \<Longrightarrow> posix_slashes p = p"
  unfolding posix_slashes_def by (rule map_idI) auto

lemma posix_slashes_no_backslash: "CHR 92 \<notin> set (posix_slashes v)"
  by (auto simp: posix_slashes_def)

lemma require_relative_safe:
  assumes "require_relative_artifact_path v f = Inr p"
  shows "safe_relative p" and "require_relative_artifact_path p g = Inr p"
proof -
  let ?xs = "path_parts (posix_slashes v)"
  note r = require_relative_Inr [OF assms]
  have clean: "x \<noteq> [] \<and> x \<noteq> ''.'' \<and> CHR ''/'' \<notin> set x \<and> set x \<subseteq> set (posix_slashes v)"
    if "x \<in> set ?xs" for x using path_parts_clean that by blast
  obtain y ys where xs: "?xs = y # ys" using r(3) by (cases ?xs) auto
  then have y: "y \<noteq> []" "CHR ''/'' \<notin> set y" using clean by auto
  then have "hd y \<noteq> CHR ''/''" by (metis hd_in_set)
  have ne: "p \<noteq> []" and h: "hd p \<noteq> CHR ''/''"
    using r(6) y xs \<open>hd y \<noteq> CHR ''/''\<close> by (simp_all add: join_with_nonempty join_with_head)
  have "set p \<subseteq> insert CHR ''/'' (\<Union> (set ` set ?xs))" using r(6) set_join_with by metis
  then have b: "CHR 92 \<notin> set p" using clean posix_slashes_no_backslash [of v] by fastforce
  from ne b r clean show "safe_relative p" unfolding safe_relative_def by auto
  show "require_relative_artifact_path p g = Inr p"
    using ne h r posix_slashes_id [OF b]
    by (simp add: require_relative_artifact_path_def Let_def)
qed



section \<open>Artifacts\<close>

definition artifact_sha256 :: "string \<Rightarrow> bool" where
  "artifact_sha256 s \<longleftrightarrow> length s = 64 \<and> list_all is_hex_lower s"

datatype artifact_role =
    INPUT | OUTPUT | RESTART | GEOMETRY | DENSITY | PSEUDOPOTENTIAL | EVIDENCE | REPORT | OTHER

datatype provenance_relation =
    GENERATED_BY | DERIVED_FROM | TRANSFERRED_FROM | VALIDATED_BY | SELECTED_BY

record artifact_reference =
  art_id :: string
  art_role :: artifact_role
  art_path :: string
  art_sha256 :: string
  art_size :: int
  art_media_type :: string
  art_producer_task :: "string option"
  art_producer_attempt :: "string option"
  art_metadata :: pyobj

definition truthy :: "string option \<Rightarrow> bool" where
  "truthy s \<longleftrightarrow> (case s of None \<Rightarrow> False | Some t \<Rightarrow> t \<noteq> [])"

text \<open>\<open>ArtifactReference.__post_init__\<close>: the checks in order, with the normalised path and hash.\<close>

definition artifact_reference :: "artifact_reference \<Rightarrow> artifact_reference res" where
  "artifact_reference a =
     (if py_strip (art_id a) = [] \<or> py_strip (art_media_type a) = []
      then Inl (ValueError ''artifacts require id and media_type'')
      else rbind (require_relative_artifact_path (art_path a) ''relative_path'') (\<lambda>path.
        let h = py_lower (art_sha256 a) in
        if \<not> artifact_sha256 h
        then Inl (ValueError ''artifact sha256 must contain 64 hexadecimal characters'')
        else if art_size a < 0 then Inl (ValueError ''artifact size cannot be negative'')
        else if truthy (art_producer_task a) \<noteq> truthy (art_producer_attempt a)
        then Inl (ValueError ''producer_task_id and producer_attempt_id must be declared together'')
        else rbind (canonical_primitive (art_metadata a)) (\<lambda>_.
             Inr (a\<lparr>art_path := path, art_sha256 := h\<rparr>))))"

record artifact_transfer =
  tr_source_artifact :: string
  tr_source_task :: string
  tr_destination :: string
  tr_sha256 :: string
  tr_required :: bool

definition artifact_transfer :: "artifact_transfer \<Rightarrow> artifact_transfer res" where
  "artifact_transfer t =
     (if py_strip (tr_source_artifact t) = [] \<or> py_strip (tr_source_task t) = []
      then Inl (ValueError ''artifact transfers require source artifact and task'')
      else rbind (require_relative_artifact_path (tr_destination t) ''destination_relative_path'')
        (\<lambda>path.
         let h = py_lower (tr_sha256 t) in
         if \<not> artifact_sha256 h then Inl (ValueError ''transfer expected_sha256 is invalid'')
         else Inr (t\<lparr>tr_destination := path, tr_sha256 := h\<rparr>)))"

record provenance_link =
  link_subject :: string
  link_relation :: provenance_relation
  link_object :: string
  link_evidence :: "string option"

definition provenance_link :: "provenance_link \<Rightarrow> provenance_link res" where
  "provenance_link l =
     (if py_strip (link_subject l) = [] \<or> py_strip (link_object l) = []
      then Inl (ValueError ''provenance links require subject and object'')
      else (case link_evidence l of
              None \<Rightarrow> Inr l
            | Some e \<Rightarrow>
                (if \<not> artifact_sha256 (py_lower e)
                 then Inl (ValueError ''provenance evidence_sha256 is invalid'')
                 else Inr (l\<lparr>link_evidence := Some (py_lower e)\<rparr>))))"

lemma artifact_reference_Inr:
  assumes "artifact_reference a = Inr b"
  shows "safe_relative (art_path b)" "artifact_sha256 (art_sha256 b)" "0 \<le> art_size b"
    "art_id b = art_id a" "b = a\<lparr>art_path := art_path b, art_sha256 := art_sha256 b\<rparr>"
  using assms require_relative_safe(1)
  by (auto simp: artifact_reference_def Let_def rbind_Inr_iff split: if_splits)

lemma artifact_reference_again:
  assumes "artifact_reference a = Inr b"
  shows "artifact_reference b = Inr b"
proof -
  from assms obtain p m where p: "require_relative_artifact_path (art_path a) ''relative_path'' = Inr p"
    and m: "canonical_primitive (art_metadata a) = Inr m"
    and b: "b = a\<lparr>art_path := p, art_sha256 := py_lower (art_sha256 a)\<rparr>"
    and c: "py_strip (art_id a) \<noteq> []" "py_strip (art_media_type a) \<noteq> []"
      "artifact_sha256 (py_lower (art_sha256 a))" "\<not> art_size a < 0"
      "truthy (art_producer_task a) = truthy (art_producer_attempt a)"
    by (auto simp: artifact_reference_def Let_def rbind_Inr_iff split: if_splits)
  have "require_relative_artifact_path p ''relative_path'' = Inr p"
    by (rule require_relative_safe(2) [OF p])
  with m c show ?thesis by (simp add: artifact_reference_def Let_def b)
qed

end
