(* ===== verification/Validation.thy ===== *)
theory Validation
  imports Artifacts
begin

text \<open>
  Decisions, findings and validation reports: \<open>src/qraft/contracts/status.py\<close> and
  \<open>src/qraft/contracts/validation.py\<close>. The decision order of the public contract is the order of
  the type.
\<close>

section \<open>Status vocabularies\<close>

datatype task_state =
    PENDING | PLANNED | PREPARED | RUNNING | COMPLETED | REVIEW_STATE | FAILED | BLOCKED_STATE
  | INTERRUPTED_STATE | CANCELLED_STATE | INCOMPLETE | SKIPPED

datatype failure_type =
    SUCCESS | INPUT_ERROR | PROCESS_FAILURE | TIMEOUT | OUT_OF_MEMORY | NODE_FAILURE | CANCELLED
  | INTERRUPTED | TRUNCATED_OUTPUT | UNKNOWN_WARNING | UNKNOWN_FAILURE

datatype decision_status = PASS | REVIEW | FAIL | BLOCKED

fun decision_rank :: "decision_status \<Rightarrow> nat" where
  "decision_rank PASS = 0"
| "decision_rank REVIEW = 1"
| "decision_rank BLOCKED = 2"
| "decision_rank FAIL = 3"

lemma decision_rank_inj: "decision_rank a = decision_rank b \<longleftrightarrow> a = b"
  by (cases a; cases b) simp_all

instantiation decision_status :: linorder
begin

definition less_decision_status :: "decision_status \<Rightarrow> decision_status \<Rightarrow> bool" where
  "a < b \<longleftrightarrow> decision_rank a < decision_rank b"

definition less_eq_decision_status :: "decision_status \<Rightarrow> decision_status \<Rightarrow> bool" where
  "a \<le> b \<longleftrightarrow> decision_rank a \<le> decision_rank b"

instance
  by standard
    (auto simp: less_decision_status_def less_eq_decision_status_def decision_rank_inj)

end

text \<open>\<open>max(decisions, key=DECISION_RANK.get, default=PASS)\<close>: the first of the highest rank.\<close>

fun aggregate_decisions :: "decision_status list \<Rightarrow> decision_status" where
  "aggregate_decisions [] = PASS"
| "aggregate_decisions (d # ds) =
     fold (\<lambda>x m. if decision_rank m < decision_rank x then x else m) ds d"

lemma fold_max_decision:
  "fold (\<lambda>x m. if decision_rank m < decision_rank x then x else m) ds d = fold max ds d"
proof -
  have "(\<lambda>x m. if decision_rank m < decision_rank x then x else m) =
      (max :: decision_status \<Rightarrow> decision_status \<Rightarrow> decision_status)"
    by (intro ext) (auto simp: max_def less_eq_decision_status_def decision_rank_inj)
  then show ?thesis by simp
qed

lemma PASS_least [simp]: "PASS \<le> d"
  by (simp add: less_eq_decision_status_def)

lemma aggregate_Max: "aggregate_decisions ds = Max (insert PASS (set ds))"
proof (cases ds)
  case (Cons d es)
  have "fold max es d = Max (set (d # es))" by (simp only: Max.set_eq_fold)
  moreover have "Max (insert PASS (set (d # es))) = Max (set (d # es))"
    by (subst Max_insert) (auto intro: max_absorb2)
  ultimately show ?thesis using Cons by (simp add: fold_max_decision)
qed simp

text \<open>
  The aggregate of a list of decisions is their least upper bound in the contract's
  order PASS, REVIEW, BLOCKED, FAIL: it is at least every decision, it is one of them or PASS, and
  so neither the order of the findings nor repetitions nor aggregating parts first can change it.
\<close>

theorem aggregate_is_lub:
  "(\<forall>d \<in> set ds. d \<le> aggregate_decisions ds) \<and>
   (aggregate_decisions ds = PASS \<or> aggregate_decisions ds \<in> set ds) \<and>
   (aggregate_decisions ds = PASS \<longleftrightarrow> set ds \<subseteq> {PASS}) \<and>
   aggregate_decisions (ds @ es) =
     aggregate_decisions [aggregate_decisions ds, aggregate_decisions es] \<and>
   (set ds = set fs \<longrightarrow> aggregate_decisions ds = aggregate_decisions fs)"
proof -
  have m: "aggregate_decisions ds \<in> insert PASS (set ds)"
    using Max_in [of "insert PASS (set ds)"] by (simp add: aggregate_Max)
  have "aggregate_decisions (ds @ es) =
      aggregate_decisions [aggregate_decisions ds, aggregate_decisions es]"
  proof -
    have "Max (insert PASS (set ds \<union> set es)) =
        Max (insert PASS (set ds) \<union> insert PASS (set es))" by (simp add: Un_commute)
    also have "\<dots> = max (Max (insert PASS (set ds))) (Max (insert PASS (set es)))"
      by (rule Max_Un) simp_all
    finally show ?thesis
      by (simp add: aggregate_Max [of "ds @ es"] aggregate_Max [of ds] aggregate_Max [of es]
          fold_max_decision max.commute del: fold_simps)
        (simp add: max_def less_eq_decision_status_def decision_rank_inj)
  qed
  moreover have "aggregate_decisions ds = PASS \<longleftrightarrow> set ds \<subseteq> {PASS}"
  proof
    assume p: "aggregate_decisions ds = PASS"
    have "d \<le> PASS" if "d \<in> set ds" for d using that p Max_ge [of "insert PASS (set ds)" d] by (simp add: aggregate_Max)
    then have "d = PASS" if "d \<in> set ds" for d using that PASS_least [of d] by (simp add: order.antisym)
    then show "set ds \<subseteq> {PASS}" by blast
  qed (use m in blast)
  ultimately show ?thesis using m by (auto simp: aggregate_Max)
qed

theorem aggregate_is_lub_witness:
  "aggregate_decisions [REVIEW, BLOCKED, PASS] = aggregate_decisions [BLOCKED, REVIEW, PASS, REVIEW]"
proof -
  have "set [REVIEW, BLOCKED, PASS] = set [BLOCKED, REVIEW, PASS, REVIEW]" by code_simp
  with aggregate_is_lub [of "[REVIEW, BLOCKED, PASS]" "[]" "[BLOCKED, REVIEW, PASS, REVIEW]"]
  show ?thesis by blast
qed

section \<open>Findings and reports\<close>

datatype evidence_class =
    MATHEMATICAL_CONSISTENCY | ENGINE_MANUAL | PSEUDOPOTENTIAL_METADATA | PROJECT_POLICY
  | LITERATURE_BACKED | RUNTIME_EVIDENCE | HEURISTIC_REVIEW | HUMAN_DECISION

datatype finding_scope =
    SYNTAX | STRUCTURE | PSEUDOPOTENTIAL_SCOPE | NUMERICAL | PHYSICAL | EXECUTION | PROVENANCE
  | POLICY

record validation_subject =
  subj_id :: string
  subj_type :: string
  subj_source :: "string option"
  subj_attributes :: pyobj

definition validation_subject :: "validation_subject \<Rightarrow> validation_subject res" where
  "validation_subject s =
     (if py_strip (subj_id s) = [] \<or> py_strip (subj_type s) = []
      then Inl (ValueError ''validation subjects require id and type'')
      else rbind (canonical_primitive (subj_attributes s)) (\<lambda>_. Inr s))"

record validation_finding =
  find_rule :: string
  find_code :: string
  find_status :: decision_status
  find_message :: string
  find_evidence_class :: evidence_class
  find_scope :: finding_scope
  find_subject :: string
  find_location :: "string option"
  find_hint :: "string option"
  find_data :: pyobj

definition validation_finding :: "validation_finding \<Rightarrow> validation_finding res" where
  "validation_finding f =
     rbind (require_namespaced_identifier (find_rule f) ''rule_id'') (\<lambda>_.
       if py_strip (find_code f) = [] \<or> py_strip (find_message f) = [] \<or>
          py_strip (find_subject f) = []
       then Inl (ValueError ''findings require code, message, and subject_id'')
       else rbind (canonical_primitive (find_data f)) (\<lambda>_. Inr f))"

text \<open>
  \<open>int(s, 16)\<close> accepts a text: blanks around it, a sign, the prefix \<open>0x\<close> and single underscores
  between digits are allowed besides the digits.
\<close>

definition hex_digit :: "char \<Rightarrow> bool" where
  "hex_digit c \<longleftrightarrow> is_hex_lower (lower_char c)"

fun hex_digits_ok :: "string \<Rightarrow> bool" where
  "hex_digits_ok [] = False"
| "hex_digits_ok [c] = hex_digit c"
| "hex_digits_ok (c # d # cs) =
     (hex_digit c \<and> (if d = CHR ''_'' then hex_digits_ok cs else hex_digits_ok (d # cs)))"

definition py_int16_ok :: "string \<Rightarrow> bool" where
  "py_int16_ok s =
     (let t = py_strip s;
          u = (if t \<noteq> [] \<and> (hd t = CHR ''-'' \<or> hd t = CHR ''+'') then tl t else t)
      in if take 2 u = ''0x'' \<or> take 2 u = ''0X''
         then (let w = drop 2 u in hex_digits_ok (if w \<noteq> [] \<and> hd w = CHR ''_'' then tl w else w))
         else hex_digits_ok u)"

definition require_sha256_text :: "string \<Rightarrow> string \<Rightarrow> unit res" where
  "require_sha256_text name s =
     (if length s \<noteq> 64
      then Inl (ValueError (name @ '' must contain 64 hexadecimal characters''))
      else if \<not> py_int16_ok s then Inl (ValueError ''invalid literal for int() with base 16'')
      else Inr ())"

record validation_report =
  rep_id :: string
  rep_subject :: validation_subject
  rep_findings :: "validation_finding list"
  rep_status :: decision_status
  rep_ruleset_sha256 :: string
  rep_produced_by :: string
  rep_metadata :: pyobj

definition decision_str :: "decision_status \<Rightarrow> string" where
  "decision_str d =
     (case d of PASS \<Rightarrow> ''PASS'' | REVIEW \<Rightarrow> ''REVIEW'' | FAIL \<Rightarrow> ''FAIL'' | BLOCKED \<Rightarrow> ''BLOCKED'')"

definition validation_report :: "validation_report \<Rightarrow> validation_report res" where
  "validation_report r =
     (if py_strip (rep_id r) = [] \<or> py_strip (rep_produced_by r) = []
      then Inl (ValueError ''validation reports require id and producer'')
      else rbind (require_sha256_text ''ruleset_sha256'' (rep_ruleset_sha256 r)) (\<lambda>_.
        let expected = aggregate_decisions (map find_status (rep_findings r)) in
        if rep_status r \<noteq> expected
        then Inl (ValueError (''report status '' @ decision_str (rep_status r) @
                              '' does not match findings '' @ decision_str expected))
        else rbind (canonical_primitive (rep_metadata r)) (\<lambda>_. Inr r)))"

definition build_report ::
  "string \<Rightarrow> validation_subject \<Rightarrow> validation_finding list \<Rightarrow> string \<Rightarrow> string \<Rightarrow> pyobj \<Rightarrow>
   validation_report res" where
  "build_report rid subject findings ruleset produced_by metadata =
     validation_report
       \<lparr>rep_id = rid, rep_subject = subject, rep_findings = findings,
        rep_status = aggregate_decisions (map find_status findings),
        rep_ruleset_sha256 = py_lower ruleset, rep_produced_by = produced_by,
        rep_metadata = metadata\<rparr>"

lemma validation_report_Inr:
  "validation_report r = Inr q \<Longrightarrow>
     q = r \<and> rep_status q = aggregate_decisions (map find_status (rep_findings q))"
  by (auto simp: validation_report_def Let_def rbind_Inr_iff split: if_splits)

end
