(* ===== verification/WorkflowContract.thy ===== *)
theory WorkflowContract
  imports Validation
begin

text \<open>
  The contracts of a resolved workflow DAG: \<open>src/qraft/contracts/workflow.py\<close>. Every dataclass is
  a record with a constructor function that performs \<open>__post_init__\<close> and returns the normalised
  value. An accepted \<open>CompiledWorkflow\<close> is a topologically ordered DAG whose edges, dependencies
  and input bindings agree.
\<close>

section \<open>Data\<close>

datatype workflow_task_kind =
    CALCULATION | TRANSFORMATION | VALIDATION | SWEEP | SELECTION | CHECKPOINT | POSTPROCESS
  | COMPARISON | EXPORT | EXTERNAL

datatype workflow_edge_kind = CONTROL | ARTIFACT

fun kind_str :: "workflow_edge_kind \<Rightarrow> string" where
  "kind_str CONTROL = ''control''"
| "kind_str ARTIFACT = ''artifact''"

record input_binding =
  in_name :: string
  in_destination :: string
  in_media_type :: string
  in_external :: "string option"
  in_source_task :: "string option"
  in_source_output :: "string option"

record output_port =
  out_name :: string
  out_path :: string
  out_artifact_type :: string
  out_media_type :: string
  out_required :: bool

record workflow_edge =
  e_source :: string
  e_target :: string
  e_kind :: workflow_edge_kind
  e_output :: "string option"
  e_input :: "string option"

record task_node =
  node_id :: string
  node_kind :: workflow_task_kind
  node_capability :: string
  node_dependencies :: "string list"
  node_inputs :: "input_binding list"
  node_outputs :: "output_port list"
  node_resources :: pyobj
  node_settings :: pyobj

record compiled_workflow =
  wf_id :: string
  wf_project :: string
  wf_definition_sha256 :: string
  wf_tasks :: "task_node list"
  wf_edges :: "workflow_edge list"
  wf_externals :: "artifact_reference list"
  wf_metadata :: pyobj

section \<open>Constructors\<close>

text \<open>\<open>str(x)\<close> of an optional text: the literal \<open>None\<close> when it is absent.\<close>

definition opt_str :: "string option \<Rightarrow> string" where
  "opt_str s = (case s of None \<Rightarrow> ''None'' | Some t \<Rightarrow> t)"

definition mk_input_binding :: "input_binding \<Rightarrow> input_binding res" where
  "mk_input_binding b =
     rbind (require_local_id (in_name b) ''input name'') (\<lambda>name.
     rbind (require_relative_artifact_path (in_destination b) ''input destination'') (\<lambda>dest.
     if py_strip (in_media_type b) = []
     then Inl (ValueError ''workflow inputs require media_type'')
     else
       let is_external = (in_external b \<noteq> None);
           produced = (in_source_task b \<noteq> None \<or> in_source_output b \<noteq> None) in
       if is_external = produced
       then Inl (ValueError ''workflow inputs require exactly one external or produced source'')
       else if is_external
       then rbind (require_local_id (opt_str (in_external b)) ''external artifact id'') (\<lambda>x.
              Inr (b\<lparr>in_name := name, in_destination := dest, in_external := Some x\<rparr>))
       else rbind (require_local_id (opt_str (in_source_task b)) ''source task id'') (\<lambda>t.
            rbind (require_local_id (opt_str (in_source_output b)) ''source output name'') (\<lambda>n.
              Inr (b\<lparr>in_name := name, in_destination := dest, in_source_task := Some t,
                     in_source_output := Some n\<rparr>)))))"

definition mk_output_port :: "output_port \<Rightarrow> output_port res" where
  "mk_output_port p =
     rbind (require_local_id (out_name p) ''output name'') (\<lambda>name.
     rbind (require_relative_artifact_path (out_path p) ''output path'') (\<lambda>path.
     rbind (require_namespaced_identifier (out_artifact_type p) ''artifact type'') (\<lambda>ty.
     if py_strip (out_media_type p) = []
     then Inl (ValueError ''workflow outputs require media_type'')
     else Inr (p\<lparr>out_name := name, out_path := path, out_artifact_type := ty\<rparr>))))"

definition opt_local_id :: "string option \<Rightarrow> string \<Rightarrow> string option res" where
  "opt_local_id s field_name =
     (case s of None \<Rightarrow> Inr None
      | Some t \<Rightarrow> rbind (require_local_id t field_name) (\<lambda>u. Inr (Some u)))"

definition mk_edge :: "workflow_edge \<Rightarrow> workflow_edge res" where
  "mk_edge e =
     rbind (require_local_id (e_source e) ''edge source'') (\<lambda>s.
     rbind (require_local_id (e_target e) ''edge target'') (\<lambda>t.
     if s = t then Inl (ValueError ''workflow edges cannot be self-referential'')
     else
       if e_kind e = ARTIFACT \<and> \<not> (e_output e \<noteq> None \<and> e_input e \<noteq> None)
       then Inl (ValueError ''artifact edges require source output and target input'')
       else if e_kind e = CONTROL \<and> (e_output e \<noteq> None \<or> e_input e \<noteq> None)
       then Inl (ValueError ''control edges cannot declare artifact ports'')
       else rbind (opt_local_id (e_output e) ''edge source output'') (\<lambda>o'.
            rbind (opt_local_id (e_input e) ''edge target input'') (\<lambda>i'.
              Inr (e\<lparr>e_source := s, e_target := t, e_output := o', e_input := i'\<rparr>)))))"

text \<open>The loop over the dependencies of a node; their normalised form is not kept.\<close>

fun check_dependencies :: "string \<Rightarrow> string list \<Rightarrow> unit res" where
  "check_dependencies tid [] = Inr ()"
| "check_dependencies tid (d # ds) =
     rbind (require_local_id d ''task dependency'') (\<lambda>_.
       if d = tid then Inl (ValueError (''task '' @ tid @ '' cannot depend on itself''))
       else check_dependencies tid ds)"

definition mk_task_node :: "task_node \<Rightarrow> task_node res" where
  "mk_task_node n =
     rbind (require_local_id (node_id n) ''task id'') (\<lambda>tid.
     rbind (require_namespaced_identifier (node_capability n) ''capability id'') (\<lambda>cap.
     if \<not> distinct (node_dependencies n)
     then Inl (ValueError (''duplicate dependencies in task '' @ tid))
     else rbind (check_dependencies tid (node_dependencies n)) (\<lambda>_.
       if \<not> distinct (map in_name (node_inputs n))
       then Inl (ValueError (''duplicate input names in task '' @ tid))
       else if \<not> distinct (map in_destination (node_inputs n))
       then Inl (ValueError (''duplicate input destinations in task '' @ tid))
       else if \<not> distinct (map out_name (node_outputs n))
       then Inl (ValueError (''duplicate output names in task '' @ tid))
       else if \<not> distinct (map out_path (node_outputs n))
       then Inl (ValueError (''duplicate output paths in task '' @ tid))
       else rbind (canonical_primitive (node_resources n)) (\<lambda>_.
            rbind (canonical_primitive (node_settings n)) (\<lambda>_.
              Inr (n\<lparr>node_id := tid, node_capability := cap\<rparr>))))))"

section \<open>The compiled workflow\<close>

text \<open>
  \<open>by_task\<close> and the port dictionaries are lookups by name (a later entry of the same name would
  win, which the uniqueness checks exclude); \<open>positions\<close> is the index in the task order.
\<close>

definition by_task :: "task_node list \<Rightarrow> string \<Rightarrow> task_node option" where
  "by_task ts i = find (\<lambda>n. node_id n = i) (rev ts)"

definition port_of :: "task_node \<Rightarrow> string \<Rightarrow> output_port option" where
  "port_of n name = find (\<lambda>p. out_name p = name) (rev (node_outputs n))"

definition binding_of :: "task_node \<Rightarrow> string \<Rightarrow> input_binding option" where
  "binding_of n name = find (\<lambda>b. in_name b = name) (rev (node_inputs n))"

definition position :: "task_node list \<Rightarrow> string \<Rightarrow> nat" where
  "position ts i = length (takeWhile (\<lambda>n. node_id n \<noteq> i) ts)"

definition check_artifact_edge :: "task_node \<Rightarrow> task_node \<Rightarrow> workflow_edge \<Rightarrow> unit res" where
  "check_artifact_edge source target e =
     (case (port_of source (opt_str (e_output e)), binding_of target (opt_str (e_input e))) of
        (Some out, Some b) \<Rightarrow>
          if in_source_task b \<noteq> Some (e_source e) \<or> in_source_output b \<noteq> e_output e
          then Inl (ValueError ''artifact edge disagrees with its input binding'')
          else if in_media_type b \<noteq> out_media_type out
          then Inl (ValueError ''artifact edge media types are incompatible'')
          else Inr ()
      | _ \<Rightarrow> Inl (ValueError ''artifact edge references an unknown task port''))"

definition check_edge :: "task_node list \<Rightarrow> workflow_edge \<Rightarrow> unit res" where
  "check_edge ts e =
     (case (by_task ts (e_source e), by_task ts (e_target e)) of
        (Some source, Some target) \<Rightarrow>
          if position ts (e_target e) \<le> position ts (e_source e)
          then Inl (ValueError ''compiled workflow tasks are not topologically ordered'')
          else if e_kind e = ARTIFACT then check_artifact_edge source target e
          else Inr ()
      | _ \<Rightarrow> Inl (ValueError ''workflow edge references an unknown task''))"

text \<open>The first exception of a loop whose body returns nothing.\<close>

fun for_each :: "('a \<Rightarrow> unit res) \<Rightarrow> 'a list \<Rightarrow> unit res" where
  "for_each f [] = Inr ()"
| "for_each f (x # xs) = rbind (f x) (\<lambda>_. for_each f xs)"

lemma for_each_Inr: "for_each f xs = Inr () \<longleftrightarrow> (\<forall>x \<in> set xs. f x = Inr ())"
  by (induction xs) (auto simp: rbind_Inr_iff)

definition incoming :: "workflow_edge list \<Rightarrow> string \<Rightarrow> string set" where
  "incoming es t = set (map e_source (filter (\<lambda>e. e_target e = t) es))"

lemma incoming_iff:
  "d \<in> incoming es t \<longleftrightarrow> (\<exists>e \<in> set es. e_source e = d \<and> e_target e = t)"
  unfolding incoming_def set_map set_filter image_def mem_Collect_eq by (rule iffI; elim bexE conjE CollectE; blast)

definition check_binding :: "string set \<Rightarrow> input_binding \<Rightarrow> unit res" where
  "check_binding external_ids b =
     (case in_external b of
        None \<Rightarrow> Inr ()
      | Some x \<Rightarrow> if x \<notin> external_ids
                  then Inl (ValueError (''input references unknown external artifact: '' @ x))
                  else Inr ())"

definition check_node :: "workflow_edge list \<Rightarrow> string set \<Rightarrow> task_node \<Rightarrow> unit res" where
  "check_node es external_ids n =
     (if set (node_dependencies n) \<noteq> incoming es (node_id n)
      then Inl (ValueError (''task dependencies disagree with graph edges: '' @ node_id n))
      else for_each (check_binding external_ids) (node_inputs n))"

definition used_external_ids :: "task_node list \<Rightarrow> string set" where
  "used_external_ids ts =
     set (concat (map (\<lambda>n. concat (map (\<lambda>b. case in_external b of None \<Rightarrow> [] | Some x \<Rightarrow> [x])
       (node_inputs n))) ts))"

definition mk_compiled_workflow :: "compiled_workflow \<Rightarrow> compiled_workflow res" where
  "mk_compiled_workflow w =
     rbind (require_local_id (wf_id w) ''workflow id'') (\<lambda>i.
     rbind (require_local_id (wf_project w) ''project id'') (\<lambda>p.
     rbind (require_sha256_text ''definition_sha256'' (wf_definition_sha256 w)) (\<lambda>_.
     let identifiers = map node_id (wf_tasks w); ext = map art_id (wf_externals w) in
     if identifiers = [] \<or> \<not> distinct identifiers
     then Inl (ValueError ''compiled workflows require unique tasks'')
     else if \<not> distinct ext then Inl (ValueError ''external artifact ids must be unique'')
     else if \<not> distinct (wf_edges w)
     then Inl (ValueError ''compiled workflow edges must be unique'')
     else rbind (for_each (check_edge (wf_tasks w)) (wf_edges w)) (\<lambda>_.
          rbind (for_each (check_node (wf_edges w) (set ext)) (wf_tasks w)) (\<lambda>_.
            if used_external_ids (wf_tasks w) \<noteq> set ext
            then Inl (ValueError ''compiled workflow contains unused external artifacts'')
            else rbind (canonical_primitive (wf_metadata w)) (\<lambda>_.
              Inr (w\<lparr>wf_id := i, wf_project := p\<rparr>)))))))"

section \<open>What an accepted workflow guarantees\<close>

text \<open>
  \<open>topological ids deps\<close>: the ids are distinct and the dependencies of each stand before it, so
  the dependency graph is acyclic and closed.
\<close>

fun topological :: "('a \<times> 'a set) list \<Rightarrow> 'a set \<Rightarrow> bool" where
  "topological [] seen = True"
| "topological ((i, ds) # rest) seen =
     (i \<notin> seen \<and> ds \<subseteq> seen \<and> topological rest (insert i seen))"

definition task_graph :: "compiled_workflow \<Rightarrow> (string \<times> string set) list" where
  "task_graph w = map (\<lambda>n. (node_id n, set (node_dependencies n))) (wf_tasks w)"

lemma topological_append:
  "topological (xs @ ys) seen \<longleftrightarrow> topological xs seen \<and> topological ys (fst ` set xs \<union> seen)"
  by (induction xs seen rule: topological.induct) auto

text \<open>The ids in front of a task: what topological order is about.\<close>

lemma topological_split:
  "topological g {} \<longleftrightarrow>
     distinct (map fst g) \<and> (\<forall>pre i ds post. g = pre @ (i, ds) # post \<longrightarrow> ds \<subseteq> fst ` set pre)"
proof (induction g rule: rev_induct)
  case Nil
  then show ?case by simp
next
  case (snoc p g)
  obtain i ds where p: "p = (i, ds)" by (cases p)
  show ?case
  proof
    assume "topological (g @ [p]) {}"
    then have t: "topological g {}" "i \<notin> fst ` set g" "ds \<subseteq> fst ` set g"
      by (auto simp: topological_append p)
    have "es \<subseteq> fst ` set pre" if "g @ [p] = pre @ (j, es) # post" for pre j es post
    proof (cases post rule: rev_cases)
      case Nil
      with that t p show ?thesis by auto
    next
      case (snoc post' q)
      with that have "g = pre @ (j, es) # post'" by simp
      with t snoc.IH show ?thesis by blast
    qed
    with t snoc.IH p show "distinct (map fst (g @ [p])) \<and>
        (\<forall>pre i ds post. g @ [p] = pre @ (i, ds) # post \<longrightarrow> ds \<subseteq> fst ` set pre)" by auto
  next
    assume r: "distinct (map fst (g @ [p])) \<and>
        (\<forall>pre i ds post. g @ [p] = pre @ (i, ds) # post \<longrightarrow> ds \<subseteq> fst ` set pre)"
    then have "ds \<subseteq> fst ` set g" using p by blast
    moreover have "\<forall>pre i ds post. g = pre @ (i, ds) # post \<longrightarrow> ds \<subseteq> fst ` set pre"
    proof (intro allI impI)
      fix pre j es post assume "g = pre @ (j, es) # post"
      then have "g @ [p] = pre @ (j, es) # (post @ [p])" by simp
      with r show "es \<subseteq> fst ` set pre" by blast
    qed
    moreover have "distinct (map fst g)" "i \<notin> fst ` set g" using r p by auto
    ultimately show "topological (g @ [p]) {}" using snoc.IH p by (simp add: topological_append)
  qed
qed

lemma takeWhile_short: "length (takeWhile P (xs @ ys)) < length xs \<Longrightarrow> \<exists>x \<in> set xs. \<not> P x"
  by (induction xs) (auto split: if_splits)

lemma position_here:
  assumes "distinct (map node_id (pre @ n # post))"
  shows "position (pre @ n # post) (node_id n) = length pre"
proof -
  have "\<forall>x \<in> set pre. node_id x \<noteq> node_id n" using assms by (auto simp: image_iff)
  then show ?thesis by (simp add: position_def takeWhile_append)
qed

lemma position_before:
  assumes "position (pre @ post) i < length pre"
  shows "i \<in> node_id ` set pre"
  using takeWhile_short [OF assms [unfolded position_def]] by auto

lemma mk_compiled_workflow_Inr:
  assumes "mk_compiled_workflow w = Inr v"
  shows "distinct (map node_id (wf_tasks v))" "wf_tasks v \<noteq> []" "distinct (wf_edges v)"
    and "\<forall>e \<in> set (wf_edges v). check_edge (wf_tasks v) e = Inr ()"
    and "\<forall>n \<in> set (wf_tasks v). check_node (wf_edges v) (art_id ` set (wf_externals v)) n = Inr ()"
    and "used_external_ids (wf_tasks v) = art_id ` set (wf_externals v)"
    and "distinct (map art_id (wf_externals v))"
    and "local_id (wf_id v)" "local_id (wf_project v)"
    and "v = w\<lparr>wf_id := py_strip (wf_id w), wf_project := py_strip (wf_project w)\<rparr>"
  using assms
  by (auto simp: mk_compiled_workflow_def rbind_Inr_iff for_each_Inr require_local_id_Inr Let_def
      split: if_splits)

lemma check_edge_Inr:
  assumes "check_edge ts e = Inr ()"
  shows "position ts (e_source e) < position ts (e_target e)"
    and "e_kind e = ARTIFACT \<Longrightarrow>
         \<exists>source target. by_task ts (e_source e) = Some source \<and> by_task ts (e_target e) = Some target
           \<and> check_artifact_edge source target e = Inr ()"
  using assms by (auto simp: check_edge_def split: option.splits if_splits)

lemma check_node_Inr:
  assumes "check_node es ext n = Inr ()"
  shows "set (node_dependencies n) = incoming es (node_id n)"
    and "b \<in> set (node_inputs n) \<Longrightarrow> in_external b = Some x \<Longrightarrow> x \<in> ext"
  using assms by (auto simp: check_node_def for_each_Inr check_binding_def split: if_splits)

lemma compiled_topological:
  assumes "mk_compiled_workflow w = Inr v"
  shows "topological (task_graph v) {}"
  unfolding topological_split
proof (intro conjI allI impI)
  note m = mk_compiled_workflow_Inr [OF assms]
  show "distinct (map fst (task_graph v))" using m(1) by (simp add: task_graph_def comp_def)
  fix pre i ds post assume g: "task_graph v = pre @ (i, ds) # post"
  obtain ps rs where r: "wf_tasks v = ps @ rs"
    "map (\<lambda>n. (node_id n, set (node_dependencies n))) ps = pre"
    "map (\<lambda>n. (node_id n, set (node_dependencies n))) rs = (i, ds) # post"
    using g [unfolded task_graph_def, THEN iffD1 [OF map_eq_append_conv]] by (elim exE conjE) simp
  obtain n qs where q: "rs = n # qs" "i = node_id n" "ds = set (node_dependencies n)"
  proof (cases rs)
    case Nil
    with r(3) show thesis by simp
  next
    case (Cons n qs)
    from r(3) have "i = node_id n" "ds = set (node_dependencies n)" by (simp_all add: Cons)
    with Cons show thesis by (rule that)
  qed
  have s: "wf_tasks v = ps @ n # qs" by (simp only: r(1) q(1))
  have pre: "fst ` set pre = node_id ` set ps" by (simp add: r(2) [symmetric] image_comp comp_def)
  note n = q(2,3)
  show "ds \<subseteq> fst ` set pre"
  proof
    fix d assume "d \<in> ds"
    moreover have "n \<in> set (wf_tasks v)" by (simp add: s)
    then have "set (node_dependencies n) = incoming (wf_edges v) (node_id n)"
      using m(5) check_node_Inr(1) by blast
    ultimately have "d \<in> incoming (wf_edges v) (node_id n)" by (simp only: n)
    then obtain e where e: "e \<in> set (wf_edges v)" "e_source e = d" "e_target e = node_id n"
      unfolding incoming_iff by (elim bexE conjE)
    from check_edge_Inr(1) [OF bspec [OF m(4) e(1)]]
    have "position (wf_tasks v) d < position (wf_tasks v) (node_id n)" by (simp only: e(2,3))
    moreover have "position (wf_tasks v) (node_id n) = length ps"
      unfolding s by (rule position_here) (rule m(1) [unfolded s])
    ultimately have "position (ps @ n # qs) d < length ps" by (simp only: s)
    from position_before [OF this] show "d \<in> fst ` set pre" by (simp only: pre)
  qed
qed

lemma find_some: "find P xs = Some x \<Longrightarrow> x \<in> set xs \<and> P x"
  by (auto simp: find_Some_iff)

lemma by_task_Some: "by_task ts i = Some n \<Longrightarrow> n \<in> set ts \<and> node_id n = i"
  unfolding by_task_def using find_some by fastforce

lemma artifact_edge_ports:
  assumes "check_artifact_edge source target e = Inr ()"
  shows "\<exists>p \<in> set (node_outputs source). \<exists>b \<in> set (node_inputs target).
           out_name p = opt_str (e_output e) \<and> in_name b = opt_str (e_input e) \<and>
           in_source_task b = Some (e_source e) \<and> in_source_output b = e_output e \<and>
           in_media_type b = out_media_type p"
proof -
  from assms obtain p b where "port_of source (opt_str (e_output e)) = Some p"
    "binding_of target (opt_str (e_input e)) = Some b"
    and c: "in_source_task b = Some (e_source e)" "in_source_output b = e_output e"
      "in_media_type b = out_media_type p"
    by (auto simp: check_artifact_edge_def split: option.splits if_splits)
  then have "p \<in> set (node_outputs source)" "out_name p = opt_str (e_output e)"
    "b \<in> set (node_inputs target)" "in_name b = opt_str (e_input e)"
    unfolding port_of_def binding_of_def using find_some by fastforce+
  with c show ?thesis by blast
qed

text \<open>
  Property C11. A \<open>CompiledWorkflow\<close> whose checks pass is a well-formed DAG: the task ids are
  distinct and every dependency of a task is a task in front of it, so following dependencies
  always ends; the dependencies of a task are exactly the sources of its incoming edges; every
  artifact edge joins an output port of its source to an input of its target that names that
  output, with one media type; and the external artifacts are exactly those some input uses.
\<close>

theorem compiled_workflow_is_dag:
  assumes "mk_compiled_workflow w = Inr v"
  shows "topological (task_graph v) {} \<and>
         (\<forall>n \<in> set (wf_tasks v). set (node_dependencies n) = incoming (wf_edges v) (node_id n)) \<and>
         (\<forall>e \<in> set (wf_edges v). e_kind e = ARTIFACT \<longrightarrow>
            (\<exists>source \<in> set (wf_tasks v). \<exists>target \<in> set (wf_tasks v).
               node_id source = e_source e \<and> node_id target = e_target e \<and>
               (\<exists>p \<in> set (node_outputs source). \<exists>b \<in> set (node_inputs target).
                  out_name p = opt_str (e_output e) \<and> in_name b = opt_str (e_input e) \<and>
                  in_source_task b = Some (e_source e) \<and> in_source_output b = e_output e \<and>
                  in_media_type b = out_media_type p))) \<and>
         (\<forall>x. x \<in> art_id ` set (wf_externals v) \<longleftrightarrow>
            (\<exists>n \<in> set (wf_tasks v). \<exists>b \<in> set (node_inputs n). in_external b = Some x))"
proof (intro conjI)
  note m = mk_compiled_workflow_Inr [OF assms]
  show "topological (task_graph v) {}" by (rule compiled_topological [OF assms])
  show "\<forall>n \<in> set (wf_tasks v). set (node_dependencies n) = incoming (wf_edges v) (node_id n)"
    using m(5) check_node_Inr(1) by blast
  show "\<forall>e \<in> set (wf_edges v). e_kind e = ARTIFACT \<longrightarrow>
            (\<exists>source \<in> set (wf_tasks v). \<exists>target \<in> set (wf_tasks v).
               node_id source = e_source e \<and> node_id target = e_target e \<and>
               (\<exists>p \<in> set (node_outputs source). \<exists>b \<in> set (node_inputs target).
                  out_name p = opt_str (e_output e) \<and> in_name b = opt_str (e_input e) \<and>
                  in_source_task b = Some (e_source e) \<and> in_source_output b = e_output e \<and>
                  in_media_type b = out_media_type p))"
  proof (intro ballI impI)
    fix e assume e: "e \<in> set (wf_edges v)" "e_kind e = ARTIFACT"
    then have "check_edge (wf_tasks v) e = Inr ()" using m(4) by blast
    from check_edge_Inr(2) [OF this e(2)] obtain source target
      where "by_task (wf_tasks v) (e_source e) = Some source"
        "by_task (wf_tasks v) (e_target e) = Some target"
        and c: "check_artifact_edge source target e = Inr ()" by blast
    with by_task_Some artifact_edge_ports [OF c]
    show "\<exists>source \<in> set (wf_tasks v). \<exists>target \<in> set (wf_tasks v).
               node_id source = e_source e \<and> node_id target = e_target e \<and>
               (\<exists>p \<in> set (node_outputs source). \<exists>b \<in> set (node_inputs target).
                  out_name p = opt_str (e_output e) \<and> in_name b = opt_str (e_input e) \<and>
                  in_source_task b = Some (e_source e) \<and> in_source_output b = e_output e \<and>
                  in_media_type b = out_media_type p)" by blast
  qed
  have "x \<in> used_external_ids (wf_tasks v) \<longleftrightarrow>
      (\<exists>n \<in> set (wf_tasks v). \<exists>b \<in> set (node_inputs n). in_external b = Some x)" for x
    unfolding used_external_ids_def by (auto split: option.splits) metis+
  then show "\<forall>x. x \<in> art_id ` set (wf_externals v) \<longleftrightarrow>
            (\<exists>n \<in> set (wf_tasks v). \<exists>b \<in> set (node_inputs n). in_external b = Some x)"
    using m(6) by blast
qed

section \<open>Constructors normalise once\<close>

lemma require_local_id_again: "require_local_id v f = Inr s \<Longrightarrow> require_local_id s g = Inr s"
  unfolding require_local_id_Inr by (metis local_id_strip)

lemma require_namespaced_again:
  "require_namespaced_identifier v f = Inr s \<Longrightarrow> require_namespaced_identifier s g = Inr s"
  unfolding require_namespaced_identifier_Inr by (metis contract_name_strip)

lemma opt_local_id_again: "opt_local_id v f = Inr s \<Longrightarrow> opt_local_id s g = Inr s"
  by (auto simp: opt_local_id_def rbind_Inr_iff require_local_id_again split: option.splits)

lemma mk_output_port_again:
  assumes "mk_output_port p = Inr q"
  shows "mk_output_port q = Inr q"
proof -
  from assms obtain n d ty where "require_local_id (out_name p) ''output name'' = Inr n"
    "require_relative_artifact_path (out_path p) ''output path'' = Inr d"
    "require_namespaced_identifier (out_artifact_type p) ''artifact type'' = Inr ty"
    "py_strip (out_media_type p) \<noteq> []"
    and q: "q = p\<lparr>out_name := n, out_path := d, out_artifact_type := ty\<rparr>"
    by (auto simp: mk_output_port_def rbind_Inr_iff split: if_split_asm)
  then show ?thesis
    by (simp add: mk_output_port_def require_local_id_again require_relative_safe(2) require_namespaced_again)
qed

lemma mk_edge_again:
  assumes "mk_edge e = Inr d"
  shows "mk_edge d = Inr d"
proof -
  from assms obtain s t u i where "require_local_id (e_source e) ''edge source'' = Inr s"
    "require_local_id (e_target e) ''edge target'' = Inr t" "s \<noteq> t"
    "\<not> (e_kind e = ARTIFACT \<and> \<not> (e_output e \<noteq> None \<and> e_input e \<noteq> None))"
    "\<not> (e_kind e = CONTROL \<and> (e_output e \<noteq> None \<or> e_input e \<noteq> None))"
    and o: "opt_local_id (e_output e) ''edge source output'' = Inr u"
      "opt_local_id (e_input e) ''edge target input'' = Inr i"
    and d: "d = e\<lparr>e_source := s, e_target := t, e_output := u, e_input := i\<rparr>"
    by (auto simp: mk_edge_def rbind_Inr_iff split: if_split_asm)
  moreover have "u = None \<longleftrightarrow> e_output e = None" "i = None \<longleftrightarrow> e_input e = None"
    using o by (auto simp: opt_local_id_def rbind_Inr_iff split: option.splits)
  ultimately show ?thesis
    by (simp add: mk_edge_def require_local_id_again opt_local_id_again)
qed

lemma mk_input_binding_again:
  assumes "mk_input_binding b = Inr c"
  shows "mk_input_binding c = Inr c"
proof -
  let ?x = "in_external b \<noteq> None"
  from assms obtain n d where nd: "require_local_id (in_name b) ''input name'' = Inr n"
    "require_relative_artifact_path (in_destination b) ''input destination'' = Inr d"
    "py_strip (in_media_type b) \<noteq> []"
    "?x \<noteq> (in_source_task b \<noteq> None \<or> in_source_output b \<noteq> None)"
    and r: "(if ?x then rbind (require_local_id (opt_str (in_external b)) ''external artifact id'') (\<lambda>x.
              Inr (b\<lparr>in_name := n, in_destination := d, in_external := Some x\<rparr>))
       else rbind (require_local_id (opt_str (in_source_task b)) ''source task id'') (\<lambda>t.
            rbind (require_local_id (opt_str (in_source_output b)) ''source output name'') (\<lambda>m.
              Inr (b\<lparr>in_name := n, in_destination := d, in_source_task := Some t,
                     in_source_output := Some m\<rparr>)))) = Inr c"
    by (auto simp: mk_input_binding_def rbind_Inr_iff Let_def split: if_split_asm)
  note again = nd(1) [THEN require_local_id_again] nd(2) [THEN require_relative_safe(2)]
  show ?thesis
  proof (cases ?x)
    case True
    with r obtain x where x: "require_local_id (opt_str (in_external b)) ''external artifact id'' = Inr x"
      and c: "c = b\<lparr>in_name := n, in_destination := d, in_external := Some x\<rparr>"
      by (auto simp: rbind_Inr_iff)
    show ?thesis
      using nd(3,4) True by (simp add: mk_input_binding_def c again opt_str_def require_local_id_again [OF x])
  next
    case False
    with r obtain t m where x: "require_local_id (opt_str (in_source_task b)) ''source task id'' = Inr t"
      "require_local_id (opt_str (in_source_output b)) ''source output name'' = Inr m"
      and c: "c = b\<lparr>in_name := n, in_destination := d, in_source_task := Some t, in_source_output := Some m\<rparr>"
      by (auto simp: rbind_Inr_iff)
    from False have "in_external b = None" by simp
    then show ?thesis
      using nd(3,4)
      by (simp add: Let_def mk_input_binding_def c again opt_str_def require_local_id_again [OF x(1)]
          require_local_id_again [OF x(2)])
  qed
qed

lemma mk_task_node_built:
  assumes "mk_task_node n = Inr m"
  shows "mk_task_node m = Inr m" "node_inputs m = node_inputs n" "node_outputs m = node_outputs n"
    "node_resources m = node_resources n" "node_settings m = node_settings n"
proof -
  from assms obtain i c where "require_local_id (node_id n) ''task id'' = Inr i"
    "require_namespaced_identifier (node_capability n) ''capability id'' = Inr c"
    and m: "m = n\<lparr>node_id := i, node_capability := c\<rparr>"
    by (auto simp: mk_task_node_def rbind_Inr_iff split: if_split_asm)
  with assms show "mk_task_node m = Inr m"
    unfolding mk_task_node_def
    by (auto simp: rbind_Inr_iff require_local_id_again require_namespaced_again split: if_split_asm)
  show "node_inputs m = node_inputs n" "node_outputs m = node_outputs n"
    "node_resources m = node_resources n" "node_settings m = node_settings n" by (simp_all add: m)
qed

lemma mk_compiled_workflow_again:
  assumes "mk_compiled_workflow w = Inr v"
  shows "mk_compiled_workflow v = Inr v"
proof -
  from assms obtain i p where "require_local_id (wf_id w) ''workflow id'' = Inr i"
    "require_local_id (wf_project w) ''project id'' = Inr p"
    and v: "v = w\<lparr>wf_id := i, wf_project := p\<rparr>"
    by (auto simp: mk_compiled_workflow_def Let_def rbind_Inr_iff split: if_split_asm)
  with assms show ?thesis
    unfolding mk_compiled_workflow_def Let_def
    by (auto simp: rbind_Inr_iff require_local_id_again split: if_split_asm)
qed

section \<open>A sample\<close>

text \<open>A two-task workflow, the second reading what the first writes.\<close>

definition sample_port :: output_port where
  "sample_port = \<lparr>out_name = ''dm'', out_path = ''out/run.DM'',
     out_artifact_type = ''siesta.density'', out_media_type = ''application/octet-stream'',
     out_required = True\<rparr>"

definition sample_binding :: input_binding where
  "sample_binding = \<lparr>in_name = ''restart'', in_destination = ''run.DM'',
     in_media_type = ''application/octet-stream'', in_external = None,
     in_source_task = Some ''relax'', in_source_output = Some ''dm''\<rparr>"

definition sample_node :: "string \<Rightarrow> string list \<Rightarrow> input_binding list \<Rightarrow> output_port list \<Rightarrow> task_node"
  where
  "sample_node i ds bs ps = \<lparr>node_id = i, node_kind = CALCULATION, node_capability = ''siesta.scf'',
     node_dependencies = ds, node_inputs = bs, node_outputs = ps, node_resources = OMap [],
     node_settings = OMap []\<rparr>"

definition sample_workflow :: compiled_workflow where
  "sample_workflow = \<lparr>wf_id = ''w'', wf_project = ''p'',
     wf_definition_sha256 = replicate 64 CHR ''a'',
     wf_tasks = [sample_node ''relax'' [] [] [sample_port],
                 sample_node ''bands'' [''relax''] [sample_binding] []],
     wf_edges = [\<lparr>e_source = ''relax'', e_target = ''bands'', e_kind = ARTIFACT,
                  e_output = Some ''dm'', e_input = Some ''restart''\<rparr>],
     wf_externals = [], wf_metadata = OMap []\<rparr>"

lemma sample_workflow_ok: "mk_compiled_workflow sample_workflow = Inr sample_workflow"
proof -
  have s: "require_local_id ''w'' f = Inr ''w''" "require_local_id ''p'' f = Inr ''p''" for f
    by (simp_all add: require_local_id_id local_id_def is_alnum_def is_lower_def)
  have h: "py_int16_ok (replicate 64 CHR ''a'')" by code_simp
  show ?thesis
    by (simp add: mk_compiled_workflow_def sample_workflow_def s require_sha256_text_def h
        sample_node_def check_edge_def by_task_def position_def check_artifact_edge_def port_of_def
        binding_of_def sample_port_def sample_binding_def opt_str_def check_node_def incoming_def
        used_external_ids_def check_binding_def)
qed

theorem compiled_workflow_is_dag_witness:
  "topological (task_graph sample_workflow) {}"
  by (rule compiled_workflow_is_dag [OF sample_workflow_ok, THEN conjunct1])

end
