(* ===== verification/WorkflowResolver.thy ===== *)
theory WorkflowResolver
  imports WorkflowContract "HOL-Library.Product_Lexorder" "HOL-Library.Multiset"
begin

text \<open>
  Artifact resolution and deterministic topological compilation:
  \<open>src/qraft/workflows/resolver.py\<close> with the drafts of \<open>workflows/models.py\<close> and the \<open>finding\<close>
  helper of \<open>workflows/diagnostics.py\<close>. The file system is the parameter \<open>files\<close>: what resolving,
  testing, hashing and measuring a relative path of the workflow's directory gives.
\<close>

section \<open>Topological order\<close>

text \<open>
  \<open>_topological_order\<close>: rounds that emit all ready tasks in name order. \<open>remaining\<close> is the
  dictionary of unemitted tasks with their unemitted dependencies; \<open>None\<close> is the detected cycle,
  with the tasks among which it was found.
\<close>

definition ready_tasks :: "(string \<times> string set) list \<Rightarrow> string list" where
  "ready_tasks remaining = sort (map fst (filter (\<lambda>(k, v). v = {}) remaining))"

definition drop_ready ::
  "string list \<Rightarrow> (string \<times> string set) list \<Rightarrow> (string \<times> string set) list" where
  "drop_ready ready remaining =
     map (\<lambda>(k, v). (k, v - set ready)) (filter (\<lambda>(k, v). k \<notin> set ready) remaining)"

lemma ready_tasks_set: "set (ready_tasks remaining) = {k. (k, {}) \<in> set remaining}"
  by (auto simp: ready_tasks_def image_iff)

lemma drop_ready_shorter:
  assumes "ready_tasks remaining \<noteq> []"
  shows "length (drop_ready (ready_tasks remaining) remaining) < length remaining"
proof -
  from assms obtain k where "k \<in> set (ready_tasks remaining)" by (meson last_in_set)
  then have "(k, {}) \<in> set remaining" "k \<in> set (ready_tasks remaining)"
    by (simp_all add: ready_tasks_set)
  then show ?thesis by (auto simp: drop_ready_def intro: length_filter_less)
qed

function topo_loop ::
  "(string \<times> string set) list \<Rightarrow> string list \<Rightarrow> string list + string list" where
  "topo_loop remaining order =
     (if remaining = [] then Inr order
      else let ready = ready_tasks remaining in
           if ready = [] then Inl (sort (map fst remaining))
           else topo_loop (drop_ready ready remaining) (order @ ready))"
  by pat_completeness auto
termination
  by (relation "measure (\<lambda>(remaining, _). length remaining)") (simp_all add: drop_ready_shorter)

declare topo_loop.simps [simp del]

section \<open>Drafts and findings\<close>

record input_draft =
  d_name :: string
  d_destination :: "string option"
  d_media_type :: "string option"
  d_source_path :: "string option"
  d_source_task :: "string option"
  d_source_output :: "string option"
  d_sha256 :: "string option"
  d_location :: string

record task_draft =
  td_id :: string
  td_kind :: workflow_task_kind
  td_capability :: string
  td_dependencies :: "string list"
  td_inputs :: "input_draft list"
  td_outputs :: "output_port list"
  td_resources :: "(string \<times> pyobj) list"
  td_settings :: "(string \<times> pyobj) list"

record parsed_workflow =
  pw_definition_sha256 :: string
  pw_id :: string
  pw_project :: string
  pw_description :: string
  pw_metadata :: "(string \<times> pyobj) list"
  pw_tasks :: "task_draft list"

definition wf_finding ::
  "string \<Rightarrow> string \<Rightarrow> string \<Rightarrow> string option \<Rightarrow> finding_scope \<Rightarrow> validation_finding" where
  "wf_finding code message location hint scope =
     \<lparr>find_rule = ''siestaflow.workflow.compiler'', find_code = code, find_status = BLOCKED,
      find_message = message, find_evidence_class = MATHEMATICAL_CONSISTENCY, find_scope = scope,
      find_subject = ''workflow'', find_location = Some location, find_hint = hint,
      find_data = OMap []\<rparr>"

fun exn_str :: "exn \<Rightarrow> string" where
  "exn_str (ValueError m) = m"
| "exn_str (TypeError m) = m"
| "exn_str (RuntimeError m) = m"
| "exn_str (KeyError m) = repr_str m"
| "exn_str (OSError m) = m"
| "exn_str (AuthorityLost m) = m"

text \<open>
  What the file system says of a relative path: whether its resolution stays inside the workflow
  directory, whether it is a file, its SHA-256 and its size; or the error of asking.
\<close>

record file_facts =
  xf_inside :: bool
  xf_is_file :: bool
  xf_sha256 :: string
  xf_size :: int

record resolve_state =
  rs_external :: "artifact_reference dict"
  rs_dependencies :: "string set dict"
  rs_bindings :: "input_binding list dict"
  rs_edges :: "workflow_edge list"
  rs_findings :: "validation_finding list"

definition add_finding :: "validation_finding \<Rightarrow> resolve_state \<Rightarrow> resolve_state" where
  "add_finding f st = st\<lparr>rs_findings := rs_findings st @ [f]\<rparr>"

section \<open>Resolution of one task\<close>

definition control_edge :: "string \<Rightarrow> string \<Rightarrow> workflow_edge" where
  "control_edge dependency tid =
     \<lparr>e_source = dependency, e_target = tid, e_kind = CONTROL, e_output = None, e_input = None\<rparr>"

fun resolve_control_dependencies ::
  "string set \<Rightarrow> string \<Rightarrow> string list \<Rightarrow> resolve_state \<Rightarrow> resolve_state res" where
  "resolve_control_dependencies ids tid [] st = Inr st"
| "resolve_control_dependencies ids tid (d # ds) st =
     (if d \<notin> ids
      then resolve_control_dependencies ids tid ds
             (add_finding (wf_finding ''WORKFLOW_DEPENDENCY_UNKNOWN''
                (''Task '' @ repr_str tid @ '' depends on unknown task '' @ repr_str d @ ''.'')
                (''tasks.'' @ tid @ ''.depends_on'') None STRUCTURE) st)
      else if d = tid
      then resolve_control_dependencies ids tid ds
             (add_finding (wf_finding ''WORKFLOW_SELF_DEPENDENCY''
                (''Task '' @ repr_str tid @ '' depends on itself.'')
                (''tasks.'' @ tid @ ''.depends_on'') None STRUCTURE) st)
      else rbind (mk_edge (control_edge d tid)) (\<lambda>e.
             resolve_control_dependencies ids tid ds (st\<lparr>rs_edges := rs_edges st @ [e]\<rparr>)))"

text \<open>\<open>a or b\<close> on an optional text: the empty text counts as absent.\<close>

definition or_else :: "string option \<Rightarrow> string \<Rightarrow> string" where
  "or_else a b = (case a of None \<Rightarrow> b | Some s \<Rightarrow> if s = [] then b else s)"

definition add_dependency :: "string \<Rightarrow> string \<Rightarrow> resolve_state \<Rightarrow> resolve_state" where
  "add_dependency tid d st =
     st\<lparr>rs_dependencies := AList.map_entry tid (insert d) (rs_dependencies st)\<rparr>"

definition resolve_produced_input ::
  "string set \<Rightarrow> (string \<times> string \<Rightarrow> output_port option) \<Rightarrow> string \<Rightarrow> input_draft \<Rightarrow> resolve_state \<Rightarrow>
   input_binding option \<times> resolve_state" where
  "resolve_produced_input ids outputs tid item st =
     (if (case d_source_task item of None \<Rightarrow> True | Some t \<Rightarrow> t \<notin> ids)
      then (None, add_finding (wf_finding ''WORKFLOW_INPUT_TASK_UNKNOWN''
             (''Input '' @ repr_str (d_name item) @ '' references unknown task '' @
              (case d_source_task item of None \<Rightarrow> ''None'' | Some t \<Rightarrow> repr_str t) @ ''.'')
             (d_location item) None STRUCTURE) st)
      else case outputs (opt_str (d_source_task item), opt_str (d_source_output item)) of
        None \<Rightarrow> (None, add_finding (wf_finding ''WORKFLOW_INPUT_OUTPUT_UNKNOWN''
             (''Input '' @ repr_str (d_name item) @ '' references unknown output '' @
              opt_str (d_source_task item) @ ''.'' @ opt_str (d_source_output item) @ ''.'')
             (d_location item) None STRUCTURE) st)
      | Some out \<Rightarrow>
          let source = opt_str (d_source_task item);
              st1 = add_dependency tid source st;
              made = rbind (mk_input_binding
                 \<lparr>in_name = d_name item,
                  in_destination = or_else (d_destination item) (path_name (out_path out)),
                  in_media_type = or_else (d_media_type item) (out_media_type out),
                  in_external = None, in_source_task = d_source_task item,
                  in_source_output = d_source_output item\<rparr>) (\<lambda>b.
               rbind (mk_edge \<lparr>e_source = source, e_target = tid, e_kind = ARTIFACT,
                        e_output = Some (opt_str (d_source_output item)),
                        e_input = Some (d_name item)\<rparr>) (\<lambda>e. Inr (b, e)))
          in case made of
               Inr (b, e) \<Rightarrow> (Some b, st1\<lparr>rs_edges := rs_edges st1 @ [e]\<rparr>)
             | Inl x \<Rightarrow> (None, add_finding (wf_finding ''WORKFLOW_INPUT_INVALID'' (exn_str x)
                          (d_location item) None STRUCTURE) st1))"

definition require_declared_hash :: "string \<Rightarrow> string option \<Rightarrow> string \<Rightarrow> unit res" where
  "require_declared_hash relative declared observed =
     (case declared of
        None \<Rightarrow> Inr ()
      | Some h \<Rightarrow>
          if length h \<noteq> 64 \<or> \<not> list_all is_hex_lower h
          then Inl (ValueError (''invalid declared SHA-256 for '' @ relative))
          else if h \<noteq> observed
          then Inl (ValueError (''declared SHA-256 mismatch for '' @ relative))
          else Inr ())"

text \<open>
  The reference of an external input and the reasons there is none; the artifact's identity is the
  hash of its path.
\<close>

definition external_reference ::
  "(rat \<Rightarrow> string) \<Rightarrow> (string \<Rightarrow> string) \<Rightarrow> (string \<Rightarrow> file_facts res) \<Rightarrow> input_draft \<Rightarrow>
   artifact_reference res" where
  "external_reference fr sha files item =
     rbind (require_relative_artifact_path (opt_str (d_source_path item)) ''external input source'')
       (\<lambda>relative.
     rbind (files relative) (\<lambda>f.
       if \<not> xf_inside f
       then Inl (ValueError ''external input resolves outside workflow directory'')
       else if \<not> xf_is_file f
       then Inl (ValueError (''external input does not exist: '' @ relative))
       else rbind (require_declared_hash relative (d_sha256 item) (xf_sha256 f)) (\<lambda>_.
            rbind (contract_sha256 fr sha (OMap [(OStr ''path'', OStr relative)])) (\<lambda>h.
              artifact_reference
                \<lparr>art_id = ''input-'' @ take 16 h, art_role = INPUT, art_path = relative,
                 art_sha256 = xf_sha256 f, art_size = xf_size f,
                 art_media_type = or_else (d_media_type item) ''application/octet-stream'',
                 art_producer_task = None, art_producer_attempt = None, art_metadata = OMap []\<rparr>))))"

definition external_binding :: "input_draft \<Rightarrow> artifact_reference \<Rightarrow> input_binding res" where
  "external_binding item a =
     mk_input_binding
       \<lparr>in_name = d_name item,
        in_destination = or_else (d_destination item) (path_name (art_path a)),
        in_media_type = or_else (d_media_type item) ''application/octet-stream'',
        in_external = Some (art_id a), in_source_task = None, in_source_output = None\<rparr>"

definition external_failed :: "input_draft \<Rightarrow> exn \<Rightarrow> resolve_state \<Rightarrow> resolve_state" where
  "external_failed item x st =
     add_finding (wf_finding ''WORKFLOW_EXTERNAL_INPUT_INVALID'' (exn_str x) (d_location item)
       (Some ''Use a relative path inside the workflow directory.'') PROVENANCE) st"

definition resolve_external_input ::
  "(rat \<Rightarrow> string) \<Rightarrow> (string \<Rightarrow> string) \<Rightarrow> (string \<Rightarrow> file_facts res) \<Rightarrow> input_draft \<Rightarrow>
   resolve_state \<Rightarrow> input_binding option \<times> resolve_state" where
  "resolve_external_input fr sha files item st =
     (case external_reference fr sha files item of
        Inl x \<Rightarrow> (None, external_failed item x st)
      | Inr a \<Rightarrow>
          if (case map_of (rs_external st) (art_id a) of None \<Rightarrow> False | Some b \<Rightarrow> b \<noteq> a)
          then (None, external_failed item
                  (ValueError (''external artifact identity collision: '' @ art_path a)) st)
          else
            let st1 = st\<lparr>rs_external := AList.update (art_id a) a (rs_external st)\<rparr> in
            (case external_binding item a of
               Inl x \<Rightarrow> (None, external_failed item x st1)
             | Inr b \<Rightarrow> (Some b, st1)))"

fun resolve_inputs ::
  "(rat \<Rightarrow> string) \<Rightarrow> (string \<Rightarrow> string) \<Rightarrow> (string \<Rightarrow> file_facts res) \<Rightarrow> string set \<Rightarrow>
   (string \<times> string \<Rightarrow> output_port option) \<Rightarrow> string \<Rightarrow> input_draft list \<Rightarrow> resolve_state \<Rightarrow>
   resolve_state" where
  "resolve_inputs fr sha files ids outputs tid [] st = st"
| "resolve_inputs fr sha files ids outputs tid (item # items) st =
     (let (b, st1) =
        (if d_source_path item \<noteq> None then resolve_external_input fr sha files item st
         else resolve_produced_input ids outputs tid item st);
        st2 = (case b of None \<Rightarrow> st1
               | Some x \<Rightarrow> st1\<lparr>rs_bindings := AList.map_entry tid (\<lambda>bs. bs @ [x]) (rs_bindings st1)\<rparr>)
      in resolve_inputs fr sha files ids outputs tid items st2)"

fun resolve_tasks ::
  "(rat \<Rightarrow> string) \<Rightarrow> (string \<Rightarrow> string) \<Rightarrow> (string \<Rightarrow> file_facts res) \<Rightarrow> string set \<Rightarrow>
   (string \<times> string \<Rightarrow> output_port option) \<Rightarrow> task_draft list \<Rightarrow> resolve_state \<Rightarrow> resolve_state res"
  where
  "resolve_tasks fr sha files ids outputs [] st = Inr st"
| "resolve_tasks fr sha files ids outputs (t # ts) st =
     rbind (resolve_control_dependencies ids (td_id t) (td_dependencies t) st) (\<lambda>st1.
       resolve_tasks fr sha files ids outputs ts
         (resolve_inputs fr sha files ids outputs (td_id t) (td_inputs t) st1))"

section \<open>The resolver\<close>

definition topological_order ::
  "string set dict \<Rightarrow> validation_finding list \<Rightarrow> string list option \<times> validation_finding list" where
  "topological_order dependencies findings =
     (if list_ex (\<lambda>(k, v). \<not> v \<subseteq> set (map fst dependencies)) dependencies
      then (None, findings)
      else (case topo_loop dependencies [] of
              Inr order \<Rightarrow> (Some order, findings)
            | Inl names \<Rightarrow>
                (None, findings @ [wf_finding ''WORKFLOW_CYCLE_DETECTED''
                   (''Workflow dependency cycle detected among: '' @
                    concat (map (\<lambda>(i, n). if i = 0 then n else '', '' @ n)
                      (zip [0 ..< length names] names)))
                   ''tasks'' (Some ''Remove at least one dependency in the reported cycle.'')
                   STRUCTURE])))"

definition make_node :: "resolve_state \<Rightarrow> task_draft \<Rightarrow> task_node res" where
  "make_node st t =
     mk_task_node
       \<lparr>node_id = td_id t, node_kind = td_kind t, node_capability = td_capability t,
        node_dependencies =
          sorted_list_of_set (case map_of (rs_dependencies st) (td_id t) of None \<Rightarrow> {} | Some v \<Rightarrow> v),
        node_inputs =
          sort_key in_name (case map_of (rs_bindings st) (td_id t) of None \<Rightarrow> [] | Some v \<Rightarrow> v),
        node_outputs = sort_key out_name (td_outputs t),
        node_resources = OData (td_resources t), node_settings = OData (td_settings t)\<rparr>"

fun make_nodes ::
  "resolve_state \<Rightarrow> (string \<Rightarrow> task_draft option) \<Rightarrow> string list \<Rightarrow> task_node list \<Rightarrow>
   validation_finding list \<Rightarrow> task_node list \<times> validation_finding list" where
  "make_nodes st by_id [] nodes findings = (nodes, findings)"
| "make_nodes st by_id (i # is) nodes findings =
     (case by_id i of
        None \<Rightarrow> make_nodes st by_id is nodes findings
      | Some t \<Rightarrow>
          (case make_node st t of
             Inr n \<Rightarrow> make_nodes st by_id is (nodes @ [n]) findings
           | Inl x \<Rightarrow> make_nodes st by_id is nodes
               (findings @ [wf_finding ''WORKFLOW_TASK_INVALID'' (exn_str x) (''tasks.'' @ i)
                              None STRUCTURE])))"

text \<open>The key \<open>sorted\<close> puts the edges in; two valid edges never share it.\<close>

definition edge_key :: "workflow_edge \<Rightarrow> string \<times> string \<times> string \<times> string \<times> string" where
  "edge_key e =
     (e_source e, e_target e, kind_str (e_kind e), or_else (e_output e) [], or_else (e_input e) [])"

definition draft_by_id :: "task_draft list \<Rightarrow> string \<Rightarrow> task_draft option" where
  "draft_by_id ts i = find (\<lambda>t. td_id t = i) (rev ts)"

definition draft_output :: "task_draft list \<Rightarrow> string \<times> string \<Rightarrow> output_port option" where
  "draft_output ts k =
     map_option snd (find (\<lambda>p. fst p = k)
       (rev (concat (map (\<lambda>t. map (\<lambda>out. ((td_id t, out_name out), out)) (td_outputs t)) ts))))"

definition resolve_start :: "task_draft list \<Rightarrow> validation_finding list \<Rightarrow> resolve_state" where
  "resolve_start ts findings =
     \<lparr>rs_external = [],
      rs_dependencies =
        fold (\<lambda>t d. AList.update (td_id t) (set (td_dependencies t)) d) ts [],
      rs_bindings = fold (\<lambda>t d. AList.update (td_id t) [] d) ts [],
      rs_edges = [], rs_findings = findings\<rparr>"

definition compiled_of :: "parsed_workflow \<Rightarrow> resolve_state \<Rightarrow> task_node list \<Rightarrow> compiled_workflow" where
  "compiled_of parsed st nodes =
     \<lparr>wf_id = pw_id parsed, wf_project = pw_project parsed,
      wf_definition_sha256 = pw_definition_sha256 parsed, wf_tasks = nodes,
      wf_edges = sort_key edge_key (remdups (rs_edges st)),
      wf_externals = sort_key art_id (map snd (rs_external st)),
      wf_metadata = OData (if pw_description parsed = [] then pw_metadata parsed
        else AList.update ''description'' (OStr (pw_description parsed)) (pw_metadata parsed))\<rparr>"

definition resolve ::
  "(rat \<Rightarrow> string) \<Rightarrow> (string \<Rightarrow> string) \<Rightarrow> (string \<Rightarrow> file_facts res) \<Rightarrow> parsed_workflow \<Rightarrow>
   validation_finding list \<Rightarrow> (compiled_workflow option \<times> validation_finding list) res" where
  "resolve fr sha files parsed findings =
     (let ts = pw_tasks parsed in
      rbind (resolve_tasks fr sha files (td_id ` set ts) (draft_output ts) ts
               (resolve_start ts findings)) (\<lambda>st.
        let (order, findings1) = topological_order (rs_dependencies st) (rs_findings st) in
        if findings1 \<noteq> [] \<or> order = None then Inr (None, findings1)
        else let (nodes, findings2) = make_nodes st (draft_by_id ts) (the order) [] findings1 in
          if findings2 \<noteq> [] then Inr (None, findings2)
          else (case mk_compiled_workflow (compiled_of parsed st nodes) of
                  Inr w \<Rightarrow> Inr (Some w, findings2)
                | Inl (ValueError m) \<Rightarrow>
                    Inr (None, findings2 @ [wf_finding ''WORKFLOW_CONTRACT_INVALID'' m ''workflow''
                                              None STRUCTURE])
                | Inl x \<Rightarrow> Inl x)))"

section \<open>The order is topological, or there is a cycle\<close>

abbreviation dict_keys :: "('k \<times> 'v) list \<Rightarrow> 'k set" where
  "dict_keys d \<equiv> fst ` set d"

definition deps_of :: "('k \<times> 'v set) list \<Rightarrow> 'k \<Rightarrow> 'v set" where
  "deps_of g k = (case map_of g k of None \<Rightarrow> {} | Some v \<Rightarrow> v)"

definition with_deps :: "('k \<times> 'v set) list \<Rightarrow> 'k list \<Rightarrow> ('k \<times> 'v set) list" where
  "with_deps g order = map (\<lambda>k. (k, deps_of g k)) order"

definition closed_graph :: "('k \<times> 'k set) list \<Rightarrow> bool" where
  "closed_graph g \<longleftrightarrow> (\<forall>k v. (k, v) \<in> set g \<longrightarrow> v \<subseteq> dict_keys g)"

definition unemitted :: "('k \<times> 'k set) list \<Rightarrow> 'k list \<Rightarrow> ('k \<times> 'k set) list" where
  "unemitted g order = map (\<lambda>(k, v). (k, v - set order)) (filter (\<lambda>(k, v). k \<notin> set order) g)"

lemma deps_of_in: "dict_ok g \<Longrightarrow> (k, v) \<in> set g \<Longrightarrow> deps_of g k = v"
  by (simp add: deps_of_def)

lemma dict_keysE: "k \<in> dict_keys g \<Longrightarrow> dict_ok g \<Longrightarrow> (k, deps_of g k) \<in> set g"
  by (auto simp: deps_of_in)

lemma drop_ready_unemitted:
  "drop_ready ready (unemitted g order) = unemitted g (order @ ready)"
  by (induction g) (auto simp: drop_ready_def unemitted_def)

lemma unemitted_set:
  "(k, w) \<in> set (unemitted g order) \<longleftrightarrow> (\<exists>v. (k, v) \<in> set g \<and> k \<notin> set order \<and> w = v - set order)"
  by (auto simp: unemitted_def)

lemma unemitted_keys: "dict_keys (unemitted g order) = dict_keys g - set order"
  by (force simp: unemitted_def image_iff)

lemma unemitted_ok: "dict_ok g \<Longrightarrow> dict_ok (unemitted g order)"
  by (induction g) (auto simp: unemitted_def image_iff)

lemma ready_tasks_distinct:
  assumes "dict_ok r"
  shows "distinct (ready_tasks r)"
  using assms by (simp add: ready_tasks_def distinct_map_filter)

lemma ready_unemitted:
  assumes "dict_ok g" "k \<in> set (ready_tasks (unemitted g order))"
  shows "k \<in> dict_keys g - set order" "deps_of g k \<subseteq> set order"
proof -
  from assms(2) obtain v where v: "(k, v) \<in> set g" "k \<notin> set order" "v - set order = {}"
    by (auto simp: ready_tasks_set unemitted_set)
  then show "k \<in> dict_keys g - set order" by force
  from v assms(1) show "deps_of g k \<subseteq> set order" by (auto simp: deps_of_in)
qed

lemma topological_layer:
  assumes "distinct ks" "set ks \<inter> seen = {}" "\<And>k. k \<in> set ks \<Longrightarrow> deps_of g k \<subseteq> seen"
  shows "topological (with_deps g ks) seen"
  using assms
proof (induction ks arbitrary: seen)
  case (Cons k ks)
  have "topological (with_deps g ks) (insert k seen)"
    by (rule Cons.IH) (use Cons.prems in auto)
  with Cons.prems show ?case by (simp add: with_deps_def)
qed (simp add: with_deps_def)

text \<open>What a result of the loop means for the graph.\<close>

fun topo_result_ok :: "('k \<times> 'k set) list \<Rightarrow> 'k list + 'k list \<Rightarrow> bool" where
  "topo_result_ok g (Inr order) \<longleftrightarrow>
     set order = dict_keys g \<and> topological (with_deps g order) {}"
| "topo_result_ok g (Inl names) \<longleftrightarrow>
     names \<noteq> [] \<and> set names \<subseteq> dict_keys g \<and> (\<forall>k \<in> set names. deps_of g k \<inter> set names \<noteq> {})"

lemma topo_loop_ok:
  assumes "dict_ok g" "closed_graph g"
    and "remaining = unemitted g order" "set order \<subseteq> dict_keys g"
    and "topological (with_deps g order) {}"
  shows "topo_result_ok g (topo_loop remaining order)"
  using assms(3-5)
proof (induction remaining order rule: topo_loop.induct)
  case (1 remaining order)
  let ?ready = "ready_tasks remaining"
  show ?case
  proof (cases "remaining = []")
    case True
    then have "dict_keys g - set order = {}"
      using unemitted_keys [of g order] 1(2) by simp
    with True 1 show ?thesis by (simp add: topo_loop.simps)
  next
    case False
    show ?thesis
    proof (cases "?ready = []")
      case True
      have k: "dict_keys remaining = dict_keys g - set order"
        using 1(2) by (simp add: unemitted_keys)
      have dep: "deps_of g i \<inter> dict_keys remaining \<noteq> {}" if i: "i \<in> dict_keys remaining" for i
      proof -
        obtain v where v1: "(i, v) \<in> set g" "i \<notin> set order" using i k by auto
        then have "(i, v - set order) \<in> set remaining"
          unfolding 1(2) unemitted_set by blast
        note v = v1(1) this
        have "v - set order \<noteq> {}"
        proof
          assume "v - set order = {}"
          with v(2) have "i \<in> set ?ready" by (simp add: ready_tasks_set)
          with True show False by simp
        qed
        moreover have "v \<subseteq> dict_keys g" using assms(2) v(1) by (auto simp: closed_graph_def)
        moreover have "deps_of g i = v" using assms(1) v(1) by (simp add: deps_of_in)
        ultimately show ?thesis unfolding k by blast
      qed
      have "topo_loop remaining order = Inl (sort (map fst remaining))"
        using False True by (subst topo_loop.simps) simp
      moreover have "sort (map fst remaining) \<noteq> []"
        using False by (metis length_0_conv length_map length_sort)
      ultimately show ?thesis using dep k by simp
    next
      case nonempty: False
      have "dict_ok remaining" using 1(2) assms(1) by (simp add: unemitted_ok)
      then have d: "distinct ?ready" by (rule ready_tasks_distinct)
      have r: "set ?ready \<subseteq> dict_keys g - set order"
        "\<And>k. k \<in> set ?ready \<Longrightarrow> deps_of g k \<subseteq> set order"
        using ready_unemitted [OF assms(1)] 1(2) by blast+
      have "topological (with_deps g ?ready) (set order)"
        by (rule topological_layer [OF d _ r(2)]) (use r(1) in blast)
      then have "topological (with_deps g (order @ ?ready)) {}"
        using 1(4) by (simp add: with_deps_def topological_append image_comp comp_def)
      moreover have "drop_ready ?ready remaining = unemitted g (order @ ?ready)"
        by (simp only: 1(2) drop_ready_unemitted)
      moreover have "set (order @ ?ready) \<subseteq> dict_keys g" using 1(3) r(1) by auto
      ultimately have "topo_result_ok g (topo_loop (drop_ready ?ready remaining) (order @ ?ready))"
        using 1(1) [OF False refl nonempty] by blast
      then show ?thesis using False nonempty by (subst topo_loop.simps) (simp add: Let_def)
    qed
  qed
qed

lemma unemitted_Nil: "unemitted g [] = g"
  by (induction g) (auto simp: unemitted_def)

lemma topo_loop_start:
  assumes "dict_ok g" "closed_graph g"
  shows "topo_result_ok g (topo_loop g [])"
  by (rule topo_loop_ok [OF assms]) (simp_all add: unemitted_Nil with_deps_def)

text \<open>A set in which every member depends on a member cannot be ordered.\<close>

lemma no_order_through_cycle:
  assumes "topological (with_deps g order) seen" and "R \<subseteq> set order \<union> seen" and "R \<inter> seen = {}"
    and "\<forall>k \<in> R. deps_of g k \<inter> R \<noteq> {}"
  shows "R = {}"
  using assms
proof (induction order arbitrary: seen)
  case (Cons k order)
  have t: "k \<notin> seen" "deps_of g k \<subseteq> seen" "topological (with_deps g order) (insert k seen)"
    using Cons.prems(1) by (simp_all add: with_deps_def)
  then have "k \<notin> R" using Cons.prems(3,4) by blast
  with Cons.IH [OF t(3)] Cons.prems show ?case by auto
qed auto

text \<open>
  Property C22. The topological sort is right both ways. On a closed dependency graph it returns
  either an enumeration of all the tasks in which every task follows its dependencies, or, with
  one more finding, no order; and in that case the named tasks form a set in which each depends on
  another of the set, and no enumeration of the tasks is topological.
\<close>

theorem topological_order_correct:
  assumes "dict_ok g" "closed_graph g"
  shows "case topological_order g findings of
           (Some order, fs) \<Rightarrow> fs = findings \<and> set order = dict_keys g \<and>
              topological (with_deps g order) {}
         | (None, fs) \<Rightarrow> (\<exists>f. fs = findings @ [f] \<and> find_code f = ''WORKFLOW_CYCLE_DETECTED'') \<and>
              (\<exists>R. R \<noteq> {} \<and> R \<subseteq> dict_keys g \<and> (\<forall>k \<in> R. deps_of g k \<inter> R \<noteq> {})) \<and>
              (\<nexists>order. set order = dict_keys g \<and> topological (with_deps g order) {})"
proof -
  have closed: "\<not> list_ex (\<lambda>(k, v). \<not> v \<subseteq> set (map fst g)) g"
    using assms(2) by (force simp: closed_graph_def list_ex_iff)
  note ok = topo_loop_start [OF assms]
  show ?thesis
  proof (cases "topo_loop g []")
    case (Inr order)
    with ok closed show ?thesis by (simp add: topological_order_def)
  next
    case (Inl names)
    with ok have n: "set names \<noteq> {}" "set names \<subseteq> dict_keys g"
      "\<forall>k \<in> set names. deps_of g k \<inter> set names \<noteq> {}" by simp_all
    have no: "\<nexists>order. set order = dict_keys g \<and> topological (with_deps g order) {}"
    proof
      assume "\<exists>order. set order = dict_keys g \<and> topological (with_deps g order) {}"
      then obtain order where o: "set order = dict_keys g" "topological (with_deps g order) {}"
        by blast
      from no_order_through_cycle [OF o(2), of "set names"] n o(1) show False by auto
    qed
    from n have "\<exists>R. R \<noteq> {} \<and> R \<subseteq> dict_keys g \<and> (\<forall>k \<in> R. deps_of g k \<inter> R \<noteq> {})" by blast
    with Inl closed no show ?thesis by (simp add: topological_order_def wf_finding_def)
  qed
qed

theorem topological_order_correct_witness:
  "topological (with_deps [(''b'', {''a'', ''c''}), (''c'', {''a''}), (''a'', {})] [''a'', ''c'', ''b'']) {}"
proof -
  let ?g = "[(''b'', {''a'', ''c''}), (''c'', {''a''}), (''a'', {})] :: (string \<times> string set) list"
  have run: "topological_order ?g [] = (Some [''a'', ''c'', ''b''], [])"
    by (simp add: topological_order_def topo_loop.simps ready_tasks_def drop_ready_def)
  have "dict_ok ?g" by simp
  moreover have "closed_graph ?g" by (auto simp: closed_graph_def)
  ultimately have "case topological_order ?g [] of
           (Some order, fs) \<Rightarrow> fs = [] \<and> set order = dict_keys ?g \<and>
              topological (with_deps ?g order) {}
         | (None, fs) \<Rightarrow> (\<exists>f. fs = [] @ [f] \<and> find_code f = ''WORKFLOW_CYCLE_DETECTED'') \<and>
              (\<exists>R. R \<noteq> {} \<and> R \<subseteq> dict_keys ?g \<and> (\<forall>k \<in> R. deps_of ?g k \<inter> R \<noteq> {})) \<and>
              (\<nexists>order. set order = dict_keys ?g \<and> topological (with_deps ?g order) {})"
    by (rule topological_order_correct)
  then show ?thesis unfolding run by simp
qed

section \<open>Determinism\<close>

text \<open>
  Python dictionaries iterate in insertion order, which follows the file; the order of the rounds
  does not depend on it.
\<close>

lemma mset_drop_ready:
  "mset r = mset s \<Longrightarrow> mset (drop_ready ready r) = mset (drop_ready ready s)"
  by (simp add: drop_ready_def)

lemma sort_mset_cong:
  fixes xs ys :: "'a :: linorder list"
  shows "mset xs = mset ys \<Longrightarrow> sort xs = sort ys"
  by (metis mset_sort properties_for_sort sorted_sort)

lemma ready_tasks_mset: "mset r = mset s \<Longrightarrow> ready_tasks r = ready_tasks s"
  unfolding ready_tasks_def by (rule sort_mset_cong) simp

text \<open>
  The order of the compiled tasks does not depend on the order in which the definition
  lists them: permuting the dependency dictionary changes neither the order nor the reported cycle.
\<close>

theorem topological_order_deterministic:
  assumes "mset g = mset h"
  shows "topological_order g findings = topological_order h findings"
proof -
  have loop: "topo_loop r order = topo_loop s order" if "mset r = mset s" for r s order
    using that
  proof (induction r order arbitrary: s rule: topo_loop.induct)
    case (1 r order)
    have nil: "r = [] \<longleftrightarrow> s = []" using 1(2) by (metis mset_zero_iff)
    have ready: "ready_tasks r = ready_tasks s" by (rule ready_tasks_mset [OF 1(2)])
    have names: "sort (map fst r) = sort (map fst s)" by (rule sort_mset_cong) (simp add: 1(2))
    show ?case
    proof (cases "r = [] \<or> ready_tasks r = []")
      case True
      then show ?thesis using nil ready names by (auto simp: topo_loop.simps [of r] topo_loop.simps [of s])
    next
      case False
      then have "topo_loop (drop_ready (ready_tasks r) r) (order @ ready_tasks r) =
          topo_loop (drop_ready (ready_tasks r) s) (order @ ready_tasks r)"
        using 1(1) [OF _ refl _ mset_drop_ready [OF 1(2)]] by blast
      with False nil ready show ?thesis
        by (simp add: topo_loop.simps [of r] topo_loop.simps [of s] Let_def)
    qed
  qed
  have "set g = set h" using assms by (rule mset_eq_setD)
  then show ?thesis by (simp add: topological_order_def list_ex_iff loop [OF assms])
qed

theorem topological_order_deterministic_witness:
  "topological_order [(''a'', {}), (''b'', {''a''})] [] = topological_order [(''b'', {''a''}), (''a'', {})] []"
  by (rule topological_order_deterministic) simp

section \<open>The resolver's result\<close>

lemma update_keys: "dict_keys (AList.update k v d) = insert k (dict_keys d)"
  by (induction d) auto

lemma map_entry_keys [simp]: "dict_keys (AList.map_entry k f d) = dict_keys d"
  by (induction d) auto

lemma map_entry_ok: "dict_ok d \<Longrightarrow> dict_ok (AList.map_entry k f d)"
  by (induction d) (auto simp: image_iff)

definition resolve_inv :: "string set \<Rightarrow> resolve_state \<Rightarrow> bool" where
  "resolve_inv ids st \<longleftrightarrow>
     dict_keys (rs_dependencies st) = ids \<and> dict_ok (rs_dependencies st)"

lemma resolve_inv_produced:
  "resolve_inv ids st \<Longrightarrow>
   resolve_inv ids (snd (resolve_produced_input known outputs tid item st)) \<and>
   (\<exists>fs. rs_findings (snd (resolve_produced_input known outputs tid item st)) = rs_findings st @ fs)"
  by (auto simp: resolve_produced_input_def resolve_inv_def add_finding_def add_dependency_def Let_def
      map_entry_ok split: option.splits sum.splits)

lemma resolve_inv_external:
  "resolve_inv ids st \<Longrightarrow>
   resolve_inv ids (snd (resolve_external_input fr sha files item st)) \<and>
   (\<exists>fs. rs_findings (snd (resolve_external_input fr sha files item st)) = rs_findings st @ fs)"
  by (auto simp: resolve_external_input_def resolve_inv_def add_finding_def external_failed_def Let_def
      split: option.splits sum.splits)

lemma resolve_inv_inputs:
  "resolve_inv ids st \<Longrightarrow>
   resolve_inv ids (resolve_inputs fr sha files known outputs tid items st) \<and>
   (\<exists>fs. rs_findings (resolve_inputs fr sha files known outputs tid items st) = rs_findings st @ fs)"
proof (induction items arbitrary: st)
  case Nil
  then show ?case by simp
next
  case (Cons item items)
  define r where "r = (if d_source_path item \<noteq> None then resolve_external_input fr sha files item st
         else resolve_produced_input known outputs tid item st)"
  obtain b st1 where r1: "r = (b, st1)" by (cases r)
  have i: "resolve_inv ids st1 \<and> (\<exists>fs. rs_findings st1 = rs_findings st @ fs)"
    using resolve_inv_external [OF Cons.prems, of fr sha files item]
      resolve_inv_produced [OF Cons.prems, of known outputs tid item] r1
    by (cases "d_source_path item = None") (simp_all add: r_def)
  define st2 where "st2 = (case b of None \<Rightarrow> st1
      | Some x \<Rightarrow> st1\<lparr>rs_bindings := AList.map_entry tid (\<lambda>bs. bs @ [x]) (rs_bindings st1)\<rparr>)"
  have "resolve_inv ids st2" "rs_findings st2 = rs_findings st1"
    using i by (simp_all add: st2_def resolve_inv_def split: option.splits)
  moreover have "resolve_inputs fr sha files known outputs tid (item # items) st =
      resolve_inputs fr sha files known outputs tid items st2"
    using r1 by (simp add: r_def st2_def)
  ultimately show ?case using Cons.IH [of st2] i by auto
qed

lemma resolve_inv_control:
  "resolve_control_dependencies known tid ds st = Inr st' \<Longrightarrow> resolve_inv ids st \<Longrightarrow>
   resolve_inv ids st' \<and> (\<exists>fs. rs_findings st' = rs_findings st @ fs)"
proof (induction ds arbitrary: st)
  case Nil
  then show ?case by simp
next
  case (Cons d ds)
  then obtain st1 where "resolve_control_dependencies known tid ds st1 = Inr st'"
    and "rs_dependencies st1 = rs_dependencies st" "\<exists>fs. rs_findings st1 = rs_findings st @ fs"
    by (auto simp: rbind_Inr_iff add_finding_def split: if_splits)
  with Cons.IH [of st1] Cons.prems(2) show ?case by (auto simp: resolve_inv_def)
qed

lemma resolve_inv_tasks:
  "resolve_tasks fr sha files known outputs ts st = Inr st' \<Longrightarrow> resolve_inv ids st \<Longrightarrow>
   resolve_inv ids st' \<and> (\<exists>fs. rs_findings st' = rs_findings st @ fs)"
proof (induction ts arbitrary: st)
  case Nil
  then show ?case by simp
next
  case (Cons t ts)
  then obtain st1 where c: "resolve_control_dependencies known (td_id t) (td_dependencies t) st = Inr st1"
    and r: "resolve_tasks fr sha files known outputs ts
      (resolve_inputs fr sha files known outputs (td_id t) (td_inputs t) st1) = Inr st'"
    by (auto simp: rbind_Inr_iff)
  from resolve_inv_control [OF c Cons.prems(2)] have 1: "resolve_inv ids st1"
    "\<exists>fs. rs_findings st1 = rs_findings st @ fs" by auto
  from resolve_inv_inputs [OF 1(1), of fr sha files known outputs "td_id t" "td_inputs t"]
  have 2: "resolve_inv ids (resolve_inputs fr sha files known outputs (td_id t) (td_inputs t) st1)"
    "\<exists>fs. rs_findings (resolve_inputs fr sha files known outputs (td_id t) (td_inputs t) st1) =
      rs_findings st1 @ fs" by auto
  from Cons.IH [OF r 2(1)] 1 2 show ?case by auto
qed

lemma resolve_start_inv: "resolve_inv (td_id ` set ts) (resolve_start ts findings)"
proof -
  have "dict_keys (fold (\<lambda>t d. AList.update (td_id t) (set (td_dependencies t)) d) ts d) =
      td_id ` set ts \<union> dict_keys d" for d :: "string set dict"
    by (induction ts arbitrary: d) (auto simp: update_keys)
  moreover have "dict_ok d \<Longrightarrow>
      dict_ok (fold (\<lambda>t d. AList.update (td_id t) (set (td_dependencies t)) d) ts d)"
    for d :: "string set dict" by (induction ts arbitrary: d) auto
  ultimately show ?thesis by (simp add: resolve_inv_def resolve_start_def)
qed

lemma make_nodes_findings:
  "make_nodes st by_id is nodes fs = (ns, fs') \<Longrightarrow> \<exists>gs. fs' = fs @ gs"
  by (induction st by_id "is" nodes fs rule: make_nodes.induct)
    (fastforce split: option.splits sum.splits)+

lemma make_nodes_clean:
  assumes "make_nodes st by_id is nodes fs = (ns, [])" "\<forall>i \<in> set is. by_id i \<noteq> None"
  shows "\<exists>ms. ns = nodes @ ms \<and> fs = [] \<and>
           list_all2 (\<lambda>i n. \<exists>t. by_id i = Some t \<and> make_node st t = Inr n) is ms"
  using assms
proof (induction st by_id "is" nodes fs rule: make_nodes.induct)
  case (1 st by_id nodes fs)
  then show ?case by simp
next
  case (2 st by_id i "is" nodes fs)
  from 2(5) obtain t where t: "by_id i = Some t" by auto
  show ?case
  proof (cases "make_node st t")
    case (Inl x)
    with 2(4) t have "make_nodes st by_id is nodes (fs @ [wf_finding ''WORKFLOW_TASK_INVALID''
        (exn_str x) (''tasks.'' @ i) None STRUCTURE]) = (ns, [])" by simp
    from make_nodes_findings [OF this] show ?thesis by simp
  next
    case (Inr n)
    with 2(4) t have "make_nodes st by_id is (nodes @ [n]) fs = (ns, [])" by simp
    from 2(3) [OF t Inr this] 2(5) obtain ms where "ns = (nodes @ [n]) @ ms" "fs = []"
      "list_all2 (\<lambda>i n. \<exists>t. by_id i = Some t \<and> make_node st t = Inr n) is ms" by auto
    with t Inr show ?thesis by (intro exI [of _ "n # ms"]) simp
  qed
qed

lemma mk_task_node_Inr:
  assumes "mk_task_node n = Inr m"
  shows "node_id m = py_strip (node_id n)" "node_dependencies m = node_dependencies n"
    "local_id (node_id m)"
  using assms
  by (auto simp: mk_task_node_def Let_def rbind_Inr_iff require_local_id_Inr split: if_splits)

lemma draft_by_id_Some:
  assumes "i \<in> td_id ` set ts"
  shows "\<exists>t \<in> set ts. draft_by_id ts i = Some t \<and> td_id t = i"
proof (cases "draft_by_id ts i")
  case None
  with assms show ?thesis by (auto simp: draft_by_id_def find_None_iff)
next
  case (Some t)
  then show ?thesis unfolding draft_by_id_def using find_some by fastforce
qed

lemma topological_order_Some:
  assumes "topological_order g findings = (Some order, fs)" "dict_ok g"
  shows "set order = dict_keys g" "fs = findings"
proof -
  have c: "closed_graph g"
    using assms(1) by (force simp: topological_order_def closed_graph_def list_ex_iff
        split: if_splits sum.splits)
  from assms(1) have "topo_loop g [] = Inr order" "fs = findings"
    by (auto simp: topological_order_def split: if_splits sum.splits)
  with topo_loop_start [OF assms(2) c] show "set order = dict_keys g" "fs = findings" by simp_all
qed

lemma topological_order_findings:
  "\<exists>gs. snd (topological_order g findings) = findings @ gs"
  by (auto simp: topological_order_def split: sum.splits)

lemma resolve_Some:
  assumes "resolve fr sha files parsed findings = Inr (Some w, fs)"
  shows "\<exists>st order nodes. rs_findings st = [] \<and> fs = [] \<and> findings = [] \<and>
     resolve_inv (td_id ` set (pw_tasks parsed)) st \<and>
     topological_order (rs_dependencies st) [] = (Some order, []) \<and>
     make_nodes st (draft_by_id (pw_tasks parsed)) order [] [] = (nodes, []) \<and>
     mk_compiled_workflow (compiled_of parsed st nodes) = Inr w"
proof -
  let ?ts = "pw_tasks parsed"
  from assms obtain st where st: "resolve_tasks fr sha files (td_id ` set ?ts) (draft_output ?ts) ?ts
      (resolve_start ?ts findings) = Inr st"
    and rest: "(let (order, findings1) = topological_order (rs_dependencies st) (rs_findings st) in
        if findings1 \<noteq> [] \<or> order = None then Inr (None, findings1)
        else let (nodes, findings2) = make_nodes st (draft_by_id ?ts) (the order) [] findings1 in
          if findings2 \<noteq> [] then Inr (None, findings2)
          else (case mk_compiled_workflow (compiled_of parsed st nodes) of
                  Inr w \<Rightarrow> Inr (Some w, findings2)
                | Inl (ValueError m) \<Rightarrow>
                    Inr (None, findings2 @ [wf_finding ''WORKFLOW_CONTRACT_INVALID'' m ''workflow''
                                              None STRUCTURE])
                | Inl x \<Rightarrow> Inl x)) = Inr (Some w, fs)"
    by (auto simp: resolve_def Let_def rbind_Inr_iff)
  from resolve_inv_tasks [OF st resolve_start_inv] obtain gs where
    inv: "resolve_inv (td_id ` set ?ts) st" and gs: "rs_findings st = findings @ gs"
    by (auto simp: resolve_start_def)
  obtain o' fs1 where o: "topological_order (rs_dependencies st) (rs_findings st) = (o', fs1)"
    by fastforce
  with rest have fs1: "fs1 = []" "o' \<noteq> None" by (auto split: if_splits)
  obtain order where order: "o' = Some order" using fs1(2) by blast
  have no: "rs_findings st = []"
    using topological_order_findings [of "rs_dependencies st" "rs_findings st"] o fs1 by simp
  obtain nodes fs2 where n: "make_nodes st (draft_by_id ?ts) order [] [] = (nodes, fs2)" by fastforce
  have fs2: "fs2 = []" using rest o fs1 order n by (auto split: if_splits)
  have "mk_compiled_workflow (compiled_of parsed st nodes) = Inr w" "fs = []"
    using rest o fs1 order n fs2 by (auto split: sum.splits exn.splits)
  with inv no gs o fs1 order n fs2 show ?thesis by (intro exI [of _ st] exI [of _ order]) simp
qed

lemma resolve_complete:
  assumes "resolve fr sha files parsed findings = Inr (Some w, fs)"
  shows "findings = [] \<and> fs = [] \<and>
         node_id ` set (wf_tasks w) = py_strip ` td_id ` set (pw_tasks parsed) \<and>
         topological (task_graph w) {}"
proof -
  let ?ts = "pw_tasks parsed"
  from resolve_Some [OF assms] obtain st order nodes where no: "rs_findings st = []" "fs = []"
      "findings = []"
    and inv: "resolve_inv (td_id ` set ?ts) st"
    and o: "topological_order (rs_dependencies st) [] = (Some order, [])"
    and n: "make_nodes st (draft_by_id ?ts) order [] [] = (nodes, [])"
    and w: "mk_compiled_workflow (compiled_of parsed st nodes) = Inr w" by blast
  have keys: "set order = td_id ` set ?ts"
    using topological_order_Some [OF o] inv by (simp add: resolve_inv_def)
  then have "\<forall>i \<in> set order. draft_by_id ?ts i \<noteq> None" using draft_by_id_Some by fastforce
  from make_nodes_clean [OF n this]
  have l: "list_all2 (\<lambda>i n. \<exists>t. draft_by_id ?ts i = Some t \<and> make_node st t = Inr n) order nodes"
    by simp
  have "list_all2 (\<lambda>i n. node_id n = py_strip i) order nodes"
    using l
  proof (rule list_all2_mono)
    fix i n assume "\<exists>t. draft_by_id ?ts i = Some t \<and> make_node st t = Inr n"
    then obtain t where t: "draft_by_id ?ts i = Some t" "make_node st t = Inr n" by blast
    have "td_id t = i" using t(1) find_some unfolding draft_by_id_def by fastforce
    with mk_task_node_Inr(1) [OF t(2) [unfolded make_node_def]] show "node_id n = py_strip i" by simp
  qed
  then have "map node_id nodes = map py_strip order"
    by (induction rule: list_all2_induct) simp_all
  then have "node_id ` set nodes = py_strip ` set order" by (metis set_map)
  moreover have "wf_tasks w = nodes"
    using mk_compiled_workflow_Inr(10) [OF w] by (simp add: compiled_of_def)
  ultimately show ?thesis using no keys compiled_topological [OF w] by simp
qed

lemma resolve_tasks_kept:
  "resolve fr sha files parsed findings = Inr (Some w, fs) \<Longrightarrow>
     node_id ` set (wf_tasks w) = py_strip ` td_id ` set (pw_tasks parsed)"
  by (drule resolve_complete) (elim conjE)

text \<open>
  Property C31. A definition the resolver compiles had no finding before and raises none, and
  nothing of it is lost: the tasks of the compiled workflow are exactly the drafted tasks (by their
  stripped ids), in a topological order of their dependencies.
\<close>

theorem resolve_compiles_all_tasks:
  assumes "resolve fr sha files parsed findings = Inr (Some w, fs)"
  shows "findings = [] \<and> fs = [] \<and>
         node_id ` set (wf_tasks w) = py_strip ` td_id ` set (pw_tasks parsed) \<and>
         topological (task_graph w) {}"
  by (rule resolve_complete [OF assms])

definition sample_draft :: "string \<Rightarrow> string list \<Rightarrow> task_draft" where
  "sample_draft i ds =
     \<lparr>td_id = i, td_kind = CALCULATION, td_capability = ''siesta.scf'', td_dependencies = ds,
      td_inputs = [], td_outputs = [], td_resources = [], td_settings = []\<rparr>"

definition sample_parsed :: parsed_workflow where
  "sample_parsed =
     \<lparr>pw_definition_sha256 = replicate 64 CHR ''a'', pw_id = ''w'', pw_project = ''p'',
      pw_description = [], pw_metadata = [],
      pw_tasks = [sample_draft ''b'' [''a''], sample_draft ''a'' []]\<rparr>"

theorem resolve_compiles_all_tasks_witness:
  "case resolve (\<lambda>_. []) (\<lambda>t. t) (\<lambda>_. Inl (OSError [])) sample_parsed [] of
     Inr (Some w, _) \<Rightarrow> node_id ` set (wf_tasks w) = {''a'', ''b''}
   | _ \<Rightarrow> False"
proof -
  let ?r = "resolve (\<lambda>_. []) (\<lambda>t. t) (\<lambda>_. Inl (OSError [])) sample_parsed []"
  have "case ?r of Inr (Some w, _) \<Rightarrow> True | _ \<Rightarrow> False" by code_simp
  then obtain w fs where r: "?r = Inr (Some w, fs)"
    by (auto split: sum.splits option.splits)
  have s: "py_strip ` td_id ` set (pw_tasks sample_parsed) = {''a'', ''b''}" by code_simp
  from resolve_compiles_all_tasks [OF r] show ?thesis by (simp only: r s sum.case prod.case option.case)
qed

end
