(* ===== verification/WorkflowParser.thy ===== *)
theory WorkflowParser
  imports WorkflowResolver
begin

text \<open>
  The strict parser of workflow definitions, the compilation service and its report:
  \<open>src/qraft/workflows/parser.py\<close>, \<open>workflows/compiler.py\<close>, \<open>workflows/diagnostics.py\<close> and
  \<open>workflows/models.py\<close>. The input is the loaded document, a JSON value whose mappings have text
  keys; reading the file is the loader's. Every method appends to the list of findings, which is
  threaded through.
\<close>

type_synonym findings = "validation_finding list"

definition structure_finding :: "string \<Rightarrow> string \<Rightarrow> string \<Rightarrow> string option \<Rightarrow> validation_finding" where
  "structure_finding code message location hint = wf_finding code message location hint STRUCTURE"

section \<open>Fields\<close>

definition top_level_fields :: "string list" where
  "top_level_fields =
     [''schema_version'', ''workflow_id'', ''project_id'', ''description'', ''metadata'', ''tasks'']"

definition task_fields :: "string list" where
  "task_fields =
     [''task_id'', ''kind'', ''capability'', ''depends_on'', ''inputs'', ''outputs'', ''resources'',
      ''settings'']"

definition input_fields :: "string list" where
  "input_fields =
     [''name'', ''source'', ''from'', ''destination'', ''media_type'', ''sha256'']"

definition output_fields :: "string list" where
  "output_fields = [''name'', ''path'', ''artifact_type'', ''media_type'', ''required'']"

definition resource_fields :: "string list" where
  "resource_fields =
     [''nodes'', ''mpi_processes'', ''processes_per_node'', ''cpus_per_process'', ''memory_mb'',
      ''walltime_seconds'']"

text \<open>\<open>sorted(set(raw) - allowed)\<close>, one finding each.\<close>

definition unknown_fields :: "pyval dict \<Rightarrow> string list \<Rightarrow> string \<Rightarrow> findings \<Rightarrow> findings" where
  "unknown_fields raw allowed location fs =
     fs @ map (\<lambda>f. structure_finding ''WORKFLOW_FIELD_UNKNOWN'' (''Unknown field '' @ repr_str f @ ''.'')
                     (location @ ''.'' @ f)
                     (Some ''Remove the field or use a supported schema version.''))
            (sort (filter (\<lambda>k. k \<notin> set allowed) (map fst raw)))"

text \<open>\<open>str(raw.get(k, "")).strip()\<close>\<close>

definition text_field :: "(rat \<Rightarrow> string) \<Rightarrow> pyval dict \<Rightarrow> string \<Rightarrow> string" where
  "text_field fr raw k = py_strip (py_str fr (field_or (PStr []) raw k))"

text \<open>An optional field: absent and \<open>None\<close> are the same.\<close>

definition present_field :: "pyval dict \<Rightarrow> string \<Rightarrow> pyval option" where
  "present_field raw k = (let v = field_or PNone raw k in if v = PNone then None else Some v)"

definition opt_text_field :: "(rat \<Rightarrow> string) \<Rightarrow> pyval dict \<Rightarrow> string \<Rightarrow> string option" where
  "opt_text_field fr raw k = map_option (\<lambda>v. py_strip (py_str fr v)) (present_field raw k)"

definition kind_of :: "string \<Rightarrow> workflow_task_kind option" where
  "kind_of s =
     map_of [(''calculation'', CALCULATION), (''transformation'', TRANSFORMATION),
       (''validation'', VALIDATION), (''sweep'', SWEEP), (''selection'', SELECTION),
       (''checkpoint'', CHECKPOINT), (''postprocess'', POSTPROCESS), (''comparison'', COMPARISON),
       (''export'', EXPORT), (''external'', EXTERNAL)] s"

section \<open>Resources\<close>

definition resource_finding :: "string \<Rightarrow> string \<times> pyval \<Rightarrow> findings" where
  "resource_finding location p =
     (if positive_int (snd p) then []
      else [wf_finding ''WORKFLOW_RESOURCE_INVALID''
              (''Resource '' @ repr_str (fst p) @ '' must be a positive integer.'')
              (location @ ''.'' @ fst p) None EXECUTION])"

fun is_int :: "pyval \<Rightarrow> bool" where
  "is_int (PInt n) = True"
| "is_int _ = False"

definition validate_resources :: "pyval dict \<Rightarrow> string \<Rightarrow> findings \<Rightarrow> findings" where
  "validate_resources resources location fs =
     (let fs1 = unknown_fields resources resource_fields location fs;
          fs2 = fs1 @ concat (map (resource_finding location) resources);
          nodes = field_or PNone resources ''nodes'';
          ranks = field_or PNone resources ''mpi_processes'';
          ppn = field_or PNone resources ''processes_per_node''
      in if is_int nodes \<and> is_int ranks \<and> is_int ppn \<and> int_of nodes * int_of ppn \<noteq> int_of ranks
         then fs2 @ [wf_finding ''WORKFLOW_RESOURCE_PLACEMENT_MISMATCH''
                ''mpi_processes must equal nodes x processes_per_node.'' location None EXECUTION]
         else fs2)"

section \<open>Inputs and outputs\<close>

definition parse_input ::
  "(rat \<Rightarrow> string) \<Rightarrow> pyval \<Rightarrow> string \<Rightarrow> findings \<Rightarrow> input_draft option \<times> findings" where
  "parse_input fr v location fs =
     (case v of
        PDict raw \<Rightarrow>
          (let fs1 = unknown_fields raw input_fields location fs;
               name = text_field fr raw ''name'';
               source = present_field raw ''source'';
               produced = present_field raw ''from'';
               draft = (\<lambda>st so. \<lparr>d_name = name, d_destination = opt_text_field fr raw ''destination'',
                 d_media_type = opt_text_field fr raw ''media_type'',
                 d_source_path = opt_text_field fr raw ''source'',
                 d_source_task = st, d_source_output = so,
                 d_sha256 = map_option py_lower (opt_text_field fr raw ''sha256''),
                 d_location = location\<rparr>)
           in if name = [] \<or> (source = None) = (produced = None)
              then (None, fs1 @ [structure_finding ''WORKFLOW_INPUT_SOURCE_INVALID''
                     ''An input requires a name and exactly one of source or from.'' location None])
              else (case produced of
                      None \<Rightarrow> (Some (draft None None), fs1)
                    | Some (PDict p) \<Rightarrow>
                        (if set (map fst p) \<noteq> {''task'', ''output''}
                         then (None, fs1 @ [structure_finding ''WORKFLOW_INPUT_REFERENCE_INVALID''
                                ''from must contain exactly task and output.''
                                (location @ ''.from'') None])
                         else (Some (draft (Some (text_field fr p ''task''))
                                           (Some (text_field fr p ''output''))), fs1))
                    | Some _ \<Rightarrow> (None, fs1 @ [structure_finding ''WORKFLOW_INPUT_REFERENCE_INVALID''
                                ''from must contain exactly task and output.''
                                (location @ ''.from'') None])))
      | _ \<Rightarrow> (None, fs @ [structure_finding ''WORKFLOW_INPUT_INVALID''
                ''Each input must be a mapping.'' location None]))"

definition parse_output ::
  "(rat \<Rightarrow> string) \<Rightarrow> pyval \<Rightarrow> string \<Rightarrow> findings \<Rightarrow> output_port option \<times> findings" where
  "parse_output fr v location fs =
     (case v of
        PDict raw \<Rightarrow>
          (let fs1 = unknown_fields raw output_fields location fs in
           case field_or (PBool True) raw ''required'' of
             PBool required \<Rightarrow>
               (case mk_output_port
                  \<lparr>out_name = text_field fr raw ''name'', out_path = text_field fr raw ''path'',
                   out_artifact_type = text_field fr raw ''artifact_type'',
                   out_media_type = text_field fr raw ''media_type'', out_required = required\<rparr> of
                  Inr p \<Rightarrow> (Some p, fs1)
                | Inl x \<Rightarrow> (None, fs1 @ [structure_finding ''WORKFLOW_OUTPUT_INVALID'' (exn_str x)
                                          location None]))
           | _ \<Rightarrow> (None, fs1 @ [structure_finding ''WORKFLOW_OUTPUT_INVALID''
                       ''required must be true or false.'' (location @ ''.required'') None]))
      | _ \<Rightarrow> (None, fs @ [structure_finding ''WORKFLOW_OUTPUT_INVALID''
                ''Each output must be a mapping.'' location None]))"

text \<open>
  The loops of \<open>_parse_inputs\<close> and \<open>_parse_outputs\<close>, which differ in the item parser and the code
  of the duplicate finding; the items kept so far have the names seen so far.
\<close>

fun parse_ports ::
  "(pyval \<Rightarrow> string \<Rightarrow> findings \<Rightarrow> 'p option \<times> findings) \<Rightarrow> ('p \<Rightarrow> string) \<Rightarrow> string \<Rightarrow> string \<Rightarrow>
   string \<Rightarrow> nat \<Rightarrow> pyval list \<Rightarrow> 'p list \<Rightarrow> findings \<Rightarrow> 'p list \<times> findings" where
  "parse_ports parse name code what prefix i [] result fs = (result, fs)"
| "parse_ports parse name code what prefix i (v # vs) result fs =
     (let location = prefix @ ''['' @ nat_str i @ '']'' in
      case parse v location fs of
        (None, fs1) \<Rightarrow> parse_ports parse name code what prefix (Suc i) vs result fs1
      | (Some item, fs1) \<Rightarrow>
          if name item \<in> name ` set result
          then parse_ports parse name code what prefix (Suc i) vs result
                 (fs1 @ [structure_finding code (''Duplicate '' @ what @ '' name '' @
                           repr_str (name item) @ ''.'') location None])
          else parse_ports parse name code what prefix (Suc i) vs (result @ [item]) fs1)"

definition parse_inputs ::
  "(rat \<Rightarrow> string) \<Rightarrow> pyval list \<Rightarrow> string \<Rightarrow> findings \<Rightarrow> input_draft list \<times> findings" where
  "parse_inputs fr vs location fs =
     parse_ports (parse_input fr) d_name ''WORKFLOW_INPUT_DUPLICATE'' ''input''
       (location @ ''.inputs'') 0 vs [] fs"

definition parse_outputs ::
  "(rat \<Rightarrow> string) \<Rightarrow> pyval list \<Rightarrow> string \<Rightarrow> findings \<Rightarrow> output_port list \<times> findings" where
  "parse_outputs fr vs location fs =
     parse_ports (parse_output fr) out_name ''WORKFLOW_OUTPUT_DUPLICATE'' ''output''
       (location @ ''.outputs'') 0 vs [] fs"

section \<open>Tasks\<close>

text \<open>The part of \<open>_parse_task\<close> after the kind and the identity are known.\<close>

definition parse_dependencies ::
  "(rat \<Rightarrow> string) \<Rightarrow> pyval dict \<Rightarrow> string \<Rightarrow> findings \<Rightarrow> string list \<times> findings" where
  "parse_dependencies fr raw location fs =
     (let (vs, fs1) = (case field_or (PList []) raw ''depends_on'' of
             PList vs \<Rightarrow> (vs, fs)
           | _ \<Rightarrow> ([], fs @ [structure_finding ''WORKFLOW_DEPENDENCIES_INVALID''
                     ''depends_on must be a list.'' (location @ ''.depends_on'') None]));
          ds = map (\<lambda>v. py_strip (py_str fr v)) vs
      in (ds, if list_ex (\<lambda>d. d = []) ds \<or> \<not> distinct ds
              then fs1 @ [structure_finding ''WORKFLOW_DEPENDENCIES_INVALID''
                     ''Dependencies must be non-empty and unique.'' (location @ ''.depends_on'') None]
              else fs1))"

definition parse_task_body ::
  "(rat \<Rightarrow> string) \<Rightarrow> pyval dict \<Rightarrow> string \<Rightarrow> string \<Rightarrow> workflow_task_kind \<Rightarrow> string \<Rightarrow> findings \<Rightarrow>
   task_draft option \<times> findings" where
  "parse_task_body fr raw location tid kind capability fs =
     (let (ds, fs1) = parse_dependencies fr raw location fs in
      case (field_or (PList []) raw ''inputs'', field_or (PList []) raw ''outputs'') of
        (PList ins, PList outs) \<Rightarrow>
          (let (inputs, fs2) = parse_inputs fr ins location fs1;
               (outputs, fs3) = parse_outputs fr outs location fs2;
               (resources, fs4) = (case field_or (PDict []) raw ''resources'' of
                    PDict r \<Rightarrow> (r, validate_resources r (location @ ''.resources'') fs3)
                  | _ \<Rightarrow> ([], fs3 @ [structure_finding ''WORKFLOW_RESOURCES_INVALID''
                            ''resources must be a mapping.'' (location @ ''.resources'') None]));
               (settings, fs5) = (case field_or (PDict []) raw ''settings'' of
                    PDict s \<Rightarrow> (s, fs4)
                  | _ \<Rightarrow> ([], fs4 @ [structure_finding ''WORKFLOW_SETTINGS_INVALID''
                            ''settings must be a mapping.'' (location @ ''.settings'') None]))
           in (case canonical_fields (obj_dict settings) of
                 Inl x \<Rightarrow> (None, fs5 @ [structure_finding ''WORKFLOW_TASK_INVALID'' (exn_str x)
                                        location None])
               | Inr _ \<Rightarrow>
                   (Some \<lparr>td_id = tid, td_kind = kind, td_capability = capability,
                          td_dependencies = ds, td_inputs = inputs, td_outputs = outputs,
                          td_resources = obj_dict resources, td_settings = obj_dict settings\<rparr>, fs5)))
      | _ \<Rightarrow> (None, fs1 @ [structure_finding ''WORKFLOW_PORTS_INVALID''
                ''inputs and outputs must be lists.'' location None]))"

definition parse_task ::
  "(rat \<Rightarrow> string) \<Rightarrow> pyval \<Rightarrow> string \<Rightarrow> findings \<Rightarrow> task_draft option \<times> findings" where
  "parse_task fr v location fs =
     (case v of
        PDict raw \<Rightarrow>
          (let fs1 = unknown_fields raw task_fields location fs;
               tid = text_field fr raw ''task_id'';
               capability = text_field fr raw ''capability''
           in case kind_of (py_lower (text_field fr raw ''kind'')) of
                None \<Rightarrow> (None, fs1 @ [structure_finding ''WORKFLOW_TASK_KIND_INVALID''
                          (''Unknown task kind '' @ py_repr fr (field_or PNone raw ''kind'') @ ''.'')
                          (location @ ''.kind'')
                          (Some ''Use a task kind defined by Core Contracts 1.0.'')])
              | Some kind \<Rightarrow>
                  if tid = [] \<or> capability = []
                  then (None, fs1 @ [structure_finding ''WORKFLOW_TASK_IDENTITY_MISSING''
                         ''task_id and capability are required.'' location None])
                  else parse_task_body fr raw location tid kind capability fs1)
      | _ \<Rightarrow> (None, fs @ [structure_finding ''WORKFLOW_TASK_INVALID''
                ''Each task must be a mapping.'' location None]))"

fun parse_tasks ::
  "(rat \<Rightarrow> string) \<Rightarrow> nat \<Rightarrow> pyval list \<Rightarrow> task_draft list \<Rightarrow> findings \<Rightarrow> task_draft list \<times> findings"
  where
  "parse_tasks fr i [] tasks fs = (tasks, fs)"
| "parse_tasks fr i (v # vs) tasks fs =
     (let location = ''tasks['' @ nat_str i @ '']'' in
      case parse_task fr v location fs of
        (None, fs1) \<Rightarrow> parse_tasks fr (Suc i) vs tasks fs1
      | (Some t, fs1) \<Rightarrow>
          if td_id t \<in> td_id ` set tasks
          then parse_tasks fr (Suc i) vs tasks
                 (fs1 @ [structure_finding ''WORKFLOW_TASK_DUPLICATE''
                    (''Duplicate task_id '' @ repr_str (td_id t) @ ''.'') (location @ ''.task_id'') None])
          else parse_tasks fr (Suc i) vs (tasks @ [t]) fs1)"

section \<open>Documents\<close>

definition parse_header ::
  "(rat \<Rightarrow> string) \<Rightarrow> pyval dict \<Rightarrow> (string \<times> string \<times> pyval dict) \<times> findings" where
  "parse_header fr data =
     (let fs0 = unknown_fields data top_level_fields ''workflow'' [];
          schema = text_field fr data ''schema_version'';
          fs1 = (if schema \<noteq> ''1.0''
                 then fs0 @ [structure_finding ''WORKFLOW_SCHEMA_UNSUPPORTED''
                        (''Unsupported workflow schema '' @ repr_str schema @ ''.'')
                        ''schema_version'' (Some ''Use schema_version 1.0.'')]
                 else fs0);
          wid = text_field fr data ''workflow_id'';
          pid = text_field fr data ''project_id'';
          fs2 = (if wid = []
                 then fs1 @ [structure_finding ''WORKFLOW_ID_MISSING'' ''workflow_id is required.''
                        ''workflow_id'' None] else fs1);
          fs3 = (if pid = []
                 then fs2 @ [structure_finding ''PROJECT_ID_MISSING'' ''project_id is required.''
                        ''project_id'' None] else fs2);
          (metadata, fs4) = (case field_or (PDict []) data ''metadata'' of
               PDict m \<Rightarrow> (m, fs3)
             | _ \<Rightarrow> ([], fs3 @ [structure_finding ''WORKFLOW_METADATA_INVALID''
                       ''metadata must be a mapping.'' ''metadata'' None]));
          fs5 = (case canonical_fields (obj_dict metadata) of
               Inl x \<Rightarrow> fs4 @ [structure_finding ''WORKFLOW_METADATA_INVALID''
                          (''metadata is not canonically serializable: '' @ exn_str x) ''metadata'' None]
             | Inr _ \<Rightarrow> fs4)
      in ((wid, pid, metadata), fs5))"

definition parse_data ::
  "(rat \<Rightarrow> string) \<Rightarrow> pyval dict \<Rightarrow> string \<Rightarrow> parsed_workflow option \<times> findings" where
  "parse_data fr data digest =
     (let ((wid, pid, metadata), fs) = parse_header fr data in
      case field_or PNone data ''tasks'' of
        PList (v # vs) \<Rightarrow>
          (let (tasks, fs1) = parse_tasks fr 0 (v # vs) [] fs in
           if fs1 \<noteq> [] \<or> tasks = [] then (None, fs1)
           else (Some \<lparr>pw_definition_sha256 = digest, pw_id = wid, pw_project = pid,
                       pw_description = text_field fr data ''description'',
                       pw_metadata = obj_dict metadata, pw_tasks = tasks\<rparr>, fs1))
      | _ \<Rightarrow> (None, fs @ [structure_finding ''WORKFLOW_TASKS_MISSING''
                ''A workflow requires a non-empty tasks list.'' ''tasks'' None]))"

text \<open>\<open>parse_mapping\<close> without supplied bytes: the digest is that of the canonical JSON.\<close>

definition parse_mapping ::
  "(rat \<Rightarrow> string) \<Rightarrow> (string \<Rightarrow> string) \<Rightarrow> pyval dict \<Rightarrow> parsed_workflow option \<times> findings" where
  "parse_mapping fr sha data = parse_data fr data (sha (json_text fr (sort_keys (PDict data))))"

section \<open>Compilation\<close>

record workflow_compilation =
  comp_report :: validation_report
  comp_compiled :: "compiled_workflow option"

definition compilation_valid :: "workflow_compilation \<Rightarrow> bool" where
  "compilation_valid c \<longleftrightarrow> comp_compiled c \<noteq> None \<and> rep_status (comp_report c) = PASS"

definition compilation_result ::
  "(rat \<Rightarrow> string) \<Rightarrow> (string \<Rightarrow> string) \<Rightarrow> string \<Rightarrow> string \<Rightarrow> string option \<Rightarrow> findings \<Rightarrow>
   compiled_workflow option \<Rightarrow> workflow_compilation res" where
  "compilation_result fr sha source source_name wid fs compiled =
     (let sid = or_else wid source_name in
      rbind (validation_subject \<lparr>subj_id = sid, subj_type = ''siestaflow.workflow-definition'',
               subj_source = Some source, subj_attributes = OMap []\<rparr>) (\<lambda>subject.
      rbind (map_res (\<lambda>f. validation_finding (f\<lparr>find_subject := sid\<rparr>)) fs) (\<lambda>findings.
      rbind (contract_sha256 fr sha (OMap [(OStr ''rules'', OSeq
               [OStr ''siestaflow.workflow.schema@1.0'', OStr ''siestaflow.workflow.graph@1.0'',
                OStr ''siestaflow.workflow.artifacts@1.0'', OStr ''siestaflow.workflow.resources@1.0''])]))
        (\<lambda>ruleset.
      rbind (build_report (''workflow-validation:'' @ sid) subject findings ruleset
               ''siestaflow.workflow-compiler'' (OMap [(OStr ''schema_version'', OStr ''1.0'')]))
        (\<lambda>report. Inr \<lparr>comp_report = report, comp_compiled = compiled\<rparr>)))))"

definition compile_mapping ::
  "(rat \<Rightarrow> string) \<Rightarrow> (string \<Rightarrow> string) \<Rightarrow> (string \<Rightarrow> file_facts res) \<Rightarrow> string \<Rightarrow> pyval dict \<Rightarrow>
   workflow_compilation res" where
  "compile_mapping fr sha files source data =
     (case parse_mapping fr sha data of
        (None, fs) \<Rightarrow> compilation_result fr sha source ''.qraft-definition.json'' None fs None
      | (Some parsed, fs) \<Rightarrow>
          rbind (resolve fr sha files parsed fs) (\<lambda>(compiled, fs1).
            compilation_result fr sha source ''.qraft-definition.json'' (Some (pw_id parsed)) fs1
              compiled))"

section \<open>Findings only grow\<close>

text \<open>\<open>reports fs fs'\<close>: the findings \<open>fs\<close> followed by blocking ones.\<close>

definition reports :: "findings \<Rightarrow> findings \<Rightarrow> bool" where
  "reports fs fs' \<longleftrightarrow> (\<exists>gs. fs' = fs @ gs \<and> (\<forall>g \<in> set gs. find_status g = BLOCKED))"

named_theorems reports_intros

lemma reports_refl [simp, reports_intros]: "reports fs fs"
  by (simp add: reports_def)

lemma reports_trans: "reports fs gs \<Longrightarrow> reports gs hs \<Longrightarrow> reports fs hs"
  unfolding reports_def by fastforce

lemma find_status_wf [simp]: "find_status (wf_finding c m l h s) = BLOCKED"
  by (simp add: wf_finding_def)

lemma reports_add [reports_intros]: "reports fs gs \<Longrightarrow> reports fs (gs @ [wf_finding c m l h s])"
  unfolding reports_def by fastforce

lemma reports_adds [reports_intros]:
  "reports fs gs \<Longrightarrow> (\<forall>h \<in> set hs. find_status h = BLOCKED) \<Longrightarrow> reports fs (gs @ hs)"
  unfolding reports_def by fastforce

lemma reports_structure [reports_intros]:
  "reports fs gs \<Longrightarrow> reports fs (gs @ [structure_finding c m l h])"
  by (simp add: structure_finding_def reports_add)

lemma reports_nonempty: "reports fs fs' \<Longrightarrow> fs \<noteq> [] \<Longrightarrow> fs' \<noteq> []"
  by (auto simp: reports_def)

lemma reports_Nil: "reports fs [] \<Longrightarrow> fs = []"
  by (auto simp: reports_def)

lemma reports_unknown: "reports fs (unknown_fields raw allowed location fs)"
  unfolding unknown_fields_def
  by (rule reports_adds) (auto simp: structure_finding_def)

lemma reports_resources: "reports fs (validate_resources r location fs)"
proof -
  have "\<forall>h \<in> set (concat (map (resource_finding location) r)). find_status h = BLOCKED"
    by (auto simp: resource_finding_def split: if_splits)
  from reports_adds [OF reports_unknown this]
  have 1: "reports fs (unknown_fields r resource_fields location fs @
      concat (map (resource_finding location) r))" .
  show ?thesis
    unfolding validate_resources_def Let_def
    by (simp del: append_assoc add: 1 reports_add [OF 1])
qed

lemma reports_input: "reports fs (snd (parse_input fr v location fs))"
proof (cases v)
  case (PDict raw)
  note u = reports_unknown [of fs raw input_fields location]
  show ?thesis
    unfolding parse_input_def Let_def PDict
    by (auto intro!: u reports_structure split: option.splits pyval.splits)
qed (auto simp: parse_input_def intro: reports_structure)

lemma reports_output: "reports fs (snd (parse_output fr v location fs))"
proof (cases v)
  case (PDict raw)
  note u = reports_unknown [of fs raw output_fields location]
  show ?thesis
    unfolding parse_output_def Let_def PDict
    by (auto intro!: u reports_structure split: pyval.splits sum.splits)
qed (auto simp: parse_output_def intro: reports_structure)

lemma reports_ports:
  assumes "\<And>v l fs. reports fs (snd (parse v l fs))"
  shows "reports fs (snd (parse_ports parse name code what prefix i vs result fs))"
proof (induction vs arbitrary: i result fs)
  case (Cons v vs)
  obtain item fs1 where p: "parse v (prefix @ ''['' @ nat_str i @ '']'') fs = (item, fs1)" by fastforce
  then have 1: "reports fs fs1" using assms [of fs v] by (metis snd_conv)
  show ?case
    using p 1 reports_trans [OF 1 Cons.IH] reports_trans [OF reports_structure [OF 1] Cons.IH]
    by (simp add: Let_def split: option.splits)
qed simp

lemma reports_inputs: "reports fs (snd (parse_inputs fr vs location fs))"
  unfolding parse_inputs_def by (rule reports_ports) (rule reports_input)

lemma reports_outputs: "reports fs (snd (parse_outputs fr vs location fs))"
  unfolding parse_outputs_def by (rule reports_ports) (rule reports_output)

lemma reports_dependencies: "reports fs (snd (parse_dependencies fr raw location fs))"
  by (auto simp: parse_dependencies_def Let_def intro!: reports_structure split: pyval.splits prod.splits)

text \<open>The body of a task, step by step, as its own lemma: no draft means a finding.\<close>

lemma parse_task_body_Some:
  assumes "parse_task_body fr raw location tid kind capability fs = (Some t, fs')"
  obtains fs1 ins outs fs2 fs3 fs4 where
    "parse_dependencies fr raw location fs = (td_dependencies t, fs1)"
    "parse_inputs fr ins location fs1 = (td_inputs t, fs2)"
    "parse_outputs fr outs location fs2 = (td_outputs t, fs3)"
    "td_id t = tid" "td_capability t = capability" "td_kind t = kind"
    "(\<exists>r. td_resources t = obj_dict r \<and> fs4 = validate_resources r (location @ ''.resources'') fs3) \<or>
     fs4 \<noteq> []"
    "reports fs3 fs4" "reports fs4 fs'"
proof -
  obtain ds fs1 where d: "parse_dependencies fr raw location fs = (ds, fs1)" by fastforce
  with assms obtain ins outs where io: "field_or (PList []) raw ''inputs'' = PList ins"
    "field_or (PList []) raw ''outputs'' = PList outs"
    by (auto simp: parse_task_body_def split: pyval.splits)
  obtain inputs fs2 where i: "parse_inputs fr ins location fs1 = (inputs, fs2)" by fastforce
  obtain outputs fs3 where o: "parse_outputs fr outs location fs2 = (outputs, fs3)" by fastforce
  obtain resources fs4 where r: "(case field_or (PDict []) raw ''resources'' of
                    PDict r \<Rightarrow> (r, validate_resources r (location @ ''.resources'') fs3)
                  | _ \<Rightarrow> ([], fs3 @ [structure_finding ''WORKFLOW_RESOURCES_INVALID''
                            ''resources must be a mapping.'' (location @ ''.resources'') None])) =
      (resources, fs4)" by fastforce
  obtain settings fs5 where s: "(case field_or (PDict []) raw ''settings'' of
                    PDict s \<Rightarrow> (s, fs4)
                  | _ \<Rightarrow> ([], fs4 @ [structure_finding ''WORKFLOW_SETTINGS_INVALID''
                            ''settings must be a mapping.'' (location @ ''.settings'') None])) =
      (settings, fs5)" by fastforce
  have t: "t = \<lparr>td_id = tid, td_kind = kind, td_capability = capability,
      td_dependencies = ds, td_inputs = inputs, td_outputs = outputs,
      td_resources = obj_dict resources, td_settings = obj_dict settings\<rparr>" and fs': "fs' = fs5"
    using assms by (simp_all only: parse_task_body_def Let_def d i o r s io prod.case pyval.case
        canonical_fields_obj_dict sum.case prod.inject option.inject)
  have tr: "td_resources t = obj_dict resources" by (simp add: t)
  have res: "(\<exists>r. td_resources t = obj_dict r \<and>
      fs4 = validate_resources r (location @ ''.resources'') fs3) \<or> fs4 \<noteq> []"
  proof (cases "\<exists>q. field_or (PDict []) raw ''resources'' = PDict q")
    case True
    then obtain q where "field_or (PDict []) raw ''resources'' = PDict q" by blast
    with r have "resources = q" "fs4 = validate_resources q (location @ ''.resources'') fs3" by auto
    with tr show ?thesis by blast
  next
    case False
    with r show ?thesis by (cases "field_or (PDict []) raw ''resources''") auto
  qed
  have r34: "reports fs3 fs4"
    using r reports_resources [of fs3] reports_structure [OF reports_refl]
    by (cases "field_or (PDict []) raw ''resources''") auto
  have "reports fs4 fs5"
    using s reports_structure [OF reports_refl]
    by (cases "field_or (PDict []) raw ''settings''") auto
  then show thesis
    by (intro that [of fs1 ins fs2 outs fs3 fs4] res r34) (simp_all add: d i o t fs')
qed

lemma reports_task_body:
  "reports fs (snd (parse_task_body fr raw location tid kind capability fs)) \<and>
   (fst (parse_task_body fr raw location tid kind capability fs) = None \<longrightarrow>
      snd (parse_task_body fr raw location tid kind capability fs) \<noteq> [])"
proof -
  obtain ds fs1 where d: "parse_dependencies fr raw location fs = (ds, fs1)" by fastforce
  have 1: "reports fs fs1" using reports_dependencies [of fs fr raw location] d by simp
  show ?thesis
  proof (cases "\<exists>ins outs. field_or (PList []) raw ''inputs'' = PList ins \<and>
      field_or (PList []) raw ''outputs'' = PList outs")
    case False
    then have "parse_task_body fr raw location tid kind capability fs =
        (None, fs1 @ [structure_finding ''WORKFLOW_PORTS_INVALID''
                ''inputs and outputs must be lists.'' location None])"
      by (auto simp: parse_task_body_def d split: pyval.splits)
    then show ?thesis using reports_structure [OF 1] by simp
  next
    case True
    then obtain ins outs where io: "field_or (PList []) raw ''inputs'' = PList ins"
      "field_or (PList []) raw ''outputs'' = PList outs" by blast
    obtain t fs' where t: "parse_task_body fr raw location tid kind capability fs = (Some t, fs')"
      by (cases "parse_task_body fr raw location tid kind capability fs")
        (auto simp: parse_task_body_def d io Let_def split: prod.splits)
    from parse_task_body_Some [OF this] obtain fs1 ins' outs' fs2 fs3 fs4 where
      "parse_dependencies fr raw location fs = (td_dependencies t, fs1)"
      "parse_inputs fr ins' location fs1 = (td_inputs t, fs2)"
      "parse_outputs fr outs' location fs2 = (td_outputs t, fs3)"
      "reports fs3 fs4" "reports fs4 fs'" by metis
    then have "reports fs fs'"
      using reports_dependencies [of fs fr raw location] reports_inputs [of fs1 fr ins' location]
        reports_outputs [of fs2 fr outs' location] by (metis reports_trans snd_conv)
    with t show ?thesis by simp
  qed
qed

lemma reports_task:
  "reports fs (snd (parse_task fr v location fs)) \<and>
   (fst (parse_task fr v location fs) = None \<longrightarrow> snd (parse_task fr v location fs) \<noteq> [])"
proof (cases v)
  case (PDict raw)
  note u = reports_unknown [of fs raw task_fields location]
  note b = reports_task_body [of "unknown_fields raw task_fields location fs" fr raw location
      "text_field fr raw ''task_id''" _ "text_field fr raw ''capability''"]
  show ?thesis
    using reports_trans [OF u conjunct1 [OF b]] b u reports_structure [OF u]
    by (simp add: parse_task_def PDict Let_def split: option.splits)
qed (auto simp: parse_task_def intro: reports_structure)

section \<open>What the parser accepts\<close>

text \<open>A draft without findings, as the parser guarantees it.\<close>

definition draft_ok :: "task_draft \<Rightarrow> bool" where
  "draft_ok t \<longleftrightarrow>
     td_id t \<noteq> [] \<and> td_capability t \<noteq> [] \<and>
     distinct (td_dependencies t) \<and> [] \<notin> set (td_dependencies t) \<and>
     distinct (map d_name (td_inputs t)) \<and>
     (\<forall>i \<in> set (td_inputs t). d_name i \<noteq> [] \<and>
        (d_source_path i = None) = (d_source_task i \<noteq> None \<and> d_source_output i \<noteq> None)) \<and>
     distinct (map out_name (td_outputs t)) \<and>
     (\<forall>p \<in> set (td_outputs t). mk_output_port p = Inr p \<and> local_id (out_name p) \<and>
        safe_relative (out_path p)) \<and>
     (\<exists>r. td_resources t = obj_dict r \<and> set (map fst r) \<subseteq> set resource_fields \<and>
        (\<forall>(k, v) \<in> set r. positive_int v))"

lemma parse_input_Some:
  assumes "parse_input fr v location fs = (Some i, fs')"
  shows "d_name i \<noteq> [] \<and>
         (d_source_path i = None) = (d_source_task i \<noteq> None \<and> d_source_output i \<noteq> None)"
proof (cases v)
  case (PDict raw)
  note a = assms [unfolded parse_input_def PDict Let_def pyval.case]
  show ?thesis
  proof (cases "present_field raw ''from''")
    case None
    with a show ?thesis
      by (simp add: opt_text_field_def split: if_split_asm) (elim conjE; hypsubst; simp)
  next
    case (Some w)
    with a show ?thesis
      by (cases w; simp add: opt_text_field_def split: if_split_asm) (elim conjE; hypsubst; simp)
  qed
qed (use assms in \<open>simp_all add: parse_input_def\<close>)

lemma mk_output_port_Inr:
  "mk_output_port p = Inr q \<Longrightarrow>
     mk_output_port q = Inr q \<and> local_id (out_name q) \<and> safe_relative (out_path q)"
  using require_relative_safe(1) mk_output_port_again [of p q]
  by (auto simp: mk_output_port_def rbind_Inr_iff require_local_id_Inr split: if_splits)

lemma parse_output_Some:
  assumes "parse_output fr v location fs = (Some p, fs')"
  shows "mk_output_port p = Inr p \<and> local_id (out_name p) \<and> safe_relative (out_path p)"
proof -
  from assms obtain q where "mk_output_port q = Inr p"
    by (auto simp: parse_output_def Let_def split: pyval.splits sum.splits)
  then show ?thesis by (rule mk_output_port_Inr)
qed

lemma parse_ports_Some:
  assumes "\<And>v l fs item fs'. parse v l fs = (Some item, fs') \<Longrightarrow> good item"
    and "parse_ports parse name code what prefix i vs result fs = (items, fs')"
    and "distinct (map name result)" "\<forall>x \<in> set result. good x"
  shows "distinct (map name items) \<and> (\<forall>x \<in> set items. good x)"
  using assms(2-4)
proof (induction vs arbitrary: i result fs)
  case (Cons v vs)
  obtain item fs1 where p: "parse v (prefix @ ''['' @ nat_str i @ '']'') fs = (item, fs1)" by fastforce
  show ?case
  proof (cases item)
    case None
    with Cons p show ?thesis by (simp add: Let_def)
  next
    case (Some x)
    have g: "good x" using assms(1) p Some by blast
    show ?thesis
    proof (cases "name x \<in> name ` set result")
      case True
      with Cons p Some show ?thesis by (simp add: Let_def)
    next
      case False
      with Cons.prems(1) p Some have "parse_ports parse name code what prefix (Suc i) vs
          (result @ [x]) fs1 = (items, fs')" by (simp add: Let_def)
      from Cons.IH [OF this] False g Cons.prems(2,3) show ?thesis by simp
    qed
  qed
qed simp

lemma validate_resources_clean:
  assumes "validate_resources r location fs = []"
  shows "set (map fst r) \<subseteq> set resource_fields" "\<forall>(k, v) \<in> set r. positive_int v"
proof -
  have u: "unknown_fields r resource_fields location fs = []"
    and f: "concat (map (resource_finding location) r) = []"
    using assms unfolding validate_resources_def Let_def by (simp_all only: split: if_split_asm) simp_all
  from u have "length (sort (filter (\<lambda>k. k \<notin> set resource_fields) (map fst r))) = 0"
    unfolding unknown_fields_def append_is_Nil_conv map_is_Nil_conv by (elim conjE) (simp only: list.size)
  then show "set (map fst r) \<subseteq> set resource_fields"
    unfolding length_sort length_0_conv filter_empty_conv by blast
  from f show "\<forall>(k, v) \<in> set r. positive_int v"
    by (fastforce simp: resource_finding_def split: if_splits)
qed

lemma parse_dependencies_clean:
  assumes "parse_dependencies fr raw location fs = (ds, [])"
  shows "distinct ds" "[] \<notin> set ds"
  using assms
  by (auto simp: parse_dependencies_def Let_def list_ex_iff split: prod.splits if_splits)

lemma parse_task_Some:
  assumes "parse_task fr v location fs = (Some t, [])"
  shows "draft_ok t"
proof -
  from assms obtain raw kind where b: "parse_task_body fr raw location (text_field fr raw ''task_id'')
      kind (text_field fr raw ''capability'') (unknown_fields raw task_fields location fs) = (Some t, [])"
    and n: "text_field fr raw ''task_id'' \<noteq> []" "text_field fr raw ''capability'' \<noteq> []"
    by (auto simp: parse_task_def Let_def split: pyval.splits option.splits if_splits)
  from parse_task_body_Some [OF b] obtain fs1 ins outs fs2 fs3 fs4 where
    d: "parse_dependencies fr raw location (unknown_fields raw task_fields location fs) =
        (td_dependencies t, fs1)"
    and i: "parse_inputs fr ins location fs1 = (td_inputs t, fs2)"
    and o: "parse_outputs fr outs location fs2 = (td_outputs t, fs3)"
    and id: "td_id t = text_field fr raw ''task_id''" "td_capability t = text_field fr raw ''capability''"
    and r: "(\<exists>r. td_resources t = obj_dict r \<and>
        fs4 = validate_resources r (location @ ''.resources'') fs3) \<or> fs4 \<noteq> []"
    and rep: "reports fs3 fs4" "reports fs4 []" by metis
  have z4: "fs4 = []" using rep(2) by (rule reports_Nil)
  have z3: "fs3 = []" using rep(1) z4 reports_Nil by blast
  have z2: "fs2 = []" using reports_outputs [of fs2 fr outs location] o z3 by (simp add: reports_Nil)
  have z1: "fs1 = []" using reports_inputs [of fs1 fr ins location] i z2 by (simp add: reports_Nil)
  have ri: "distinct (map d_name (td_inputs t)) \<and> (\<forall>i \<in> set (td_inputs t). d_name i \<noteq> [] \<and>
        (d_source_path i = None) = (d_source_task i \<noteq> None \<and> d_source_output i \<noteq> None))"
    by (rule parse_ports_Some [OF parse_input_Some i [unfolded parse_inputs_def]]) simp_all
  have ro: "distinct (map out_name (td_outputs t)) \<and>
      (\<forall>p \<in> set (td_outputs t). mk_output_port p = Inr p \<and> local_id (out_name p) \<and> safe_relative (out_path p))"
    by (rule parse_ports_Some [OF parse_output_Some o [unfolded parse_outputs_def]]) simp_all
  from r z4 obtain q where q: "td_resources t = obj_dict q"
    "validate_resources q (location @ ''.resources'') fs3 = []" by auto
  have res: "\<exists>r. td_resources t = obj_dict r \<and> set (map fst r) \<subseteq> set resource_fields \<and>
      (\<forall>(k, v) \<in> set r. positive_int v)"
    by (intro exI [of _ q] conjI q(1) validate_resources_clean [OF q(2)])
  show ?thesis
    unfolding draft_ok_def
    by (intro conjI res conjunct1 [OF ri] conjunct2 [OF ri] conjunct1 [OF ro] conjunct2 [OF ro]
        parse_dependencies_clean [OF d [unfolded z1]]) (simp_all add: id n)
qed

lemma parse_tasks_ok:
  assumes "parse_tasks fr i vs tasks fs = (tasks', fs')"
  shows "reports fs fs' \<and> (tasks' = [] \<longrightarrow> vs = [] \<or> fs' \<noteq> []) \<and>
    (fs' = [] \<longrightarrow> distinct (map td_id tasks) \<longrightarrow> (\<forall>t \<in> set tasks. draft_ok t) \<longrightarrow>
       distinct (map td_id tasks') \<and> (\<forall>t \<in> set tasks'. draft_ok t)) \<and>
    length tasks \<le> length tasks'"
  using assms
proof (induction vs arbitrary: i tasks fs)
  case (Cons v vs)
  let ?l = "''tasks['' @ nat_str i @ '']''"
  obtain t fs1 where p: "parse_task fr v ?l fs = (t, fs1)" by fastforce
  have r: "reports fs fs1" "t = None \<longrightarrow> fs1 \<noteq> []" using reports_task [of fs fr v ?l] p by simp_all
  show ?case
  proof (cases t)
    case None
    with Cons.prems p have "parse_tasks fr (Suc i) vs tasks fs1 = (tasks', fs')" by (simp add: Let_def)
    from Cons.IH [OF this] None r show ?thesis using reports_trans reports_nonempty by blast
  next
    case (Some x)
    show ?thesis
    proof (cases "td_id x \<in> td_id ` set tasks")
      case True
      let ?f = "structure_finding ''WORKFLOW_TASK_DUPLICATE''
                    (''Duplicate task_id '' @ repr_str (td_id x) @ ''.'') (?l @ ''.task_id'') None"
      from True Cons.prems p Some
      have n: "parse_tasks fr (Suc i) vs tasks (fs1 @ [?f]) = (tasks', fs')" by (simp add: Let_def)
      have r2: "reports fs (fs1 @ [?f])" by (rule reports_structure [OF r(1)])
      from Cons.IH [OF n] r2 show ?thesis using reports_trans reports_nonempty by blast
    next
      case False
      with Cons.prems p Some
      have n: "parse_tasks fr (Suc i) vs (tasks @ [x]) fs1 = (tasks', fs')" by (simp add: Let_def)
      note ih = Cons.IH [OF n]
      have "tasks' \<noteq> []" using ih by auto
      moreover have "draft_ok x" if "fs' = []"
      proof -
        have "fs1 = []" using ih that reports_Nil by blast
        with p Some parse_task_Some show ?thesis by blast
      qed
      ultimately show ?thesis using ih False r(1) by (auto intro: reports_trans)
    qed
  qed
qed simp

lemma parse_data_Some:
  assumes "parse_data fr data digest = (Some p, fs)"
  shows "fs = []" "pw_tasks p \<noteq> []" "distinct (map td_id (pw_tasks p))"
    "\<forall>t \<in> set (pw_tasks p). draft_ok t" "pw_definition_sha256 p = digest"
    "\<exists>m. pw_metadata p = obj_dict m"
proof -
  obtain wid pid metadata fs0 where h: "parse_header fr data = ((wid, pid, metadata), fs0)"
    by (metis surj_pair)
  from assms h obtain v vs tasks where t: "parse_tasks fr 0 (v # vs) [] fs0 = (tasks, [])"
    and p: "p = \<lparr>pw_definition_sha256 = digest, pw_id = wid, pw_project = pid,
                       pw_description = text_field fr data ''description'',
                       pw_metadata = obj_dict metadata, pw_tasks = tasks\<rparr>" "tasks \<noteq> []" "fs = []"
    by (auto simp: parse_data_def Let_def simp del: parse_tasks.simps
        split: pyval.splits list.splits prod.splits if_splits)
  from parse_tasks_ok [OF t] p show "fs = []" "pw_tasks p \<noteq> []" "distinct (map td_id (pw_tasks p))"
    "\<forall>t \<in> set (pw_tasks p). draft_ok t" "pw_definition_sha256 p = digest"
    "\<exists>m. pw_metadata p = obj_dict m" by auto
qed


definition sample_document :: "pyval dict" where
  "sample_document =
     [(''schema_version'', PStr ''1.0''), (''workflow_id'', PStr ''w''), (''project_id'', PStr ''p''),
      (''tasks'', PList
        [PDict [(''task_id'', PStr ''relax''), (''kind'', PStr ''calculation''),
           (''capability'', PStr ''siesta.scf''),
           (''resources'', PDict [(''nodes'', PInt 2), (''mpi_processes'', PInt 8),
              (''processes_per_node'', PInt 4)])]])]"


section \<open>Verdicts of the compiler\<close>

lemma reports_header: "reports [] (snd (parse_header fr data))"
proof -
  note u = reports_unknown [of "[]" data top_level_fields "''workflow''"]
  show ?thesis
    unfolding parse_header_def Let_def
    by (auto simp del: append_assoc intro!: u reports_structure split: pyval.splits sum.splits prod.splits)
qed

lemma parse_data_None:
  assumes "parse_data fr data digest = (None, fs)"
  shows "fs \<noteq> []" "\<forall>f \<in> set fs. find_status f = BLOCKED"
proof -
  obtain wid pid metadata fs0 where h: "parse_header fr data = ((wid, pid, metadata), fs0)"
    by (metis surj_pair)
  have 0: "reports [] fs0" using reports_header [of fr data] h by simp
  have "reports [] fs \<and> fs \<noteq> []"
  proof (cases "\<exists>v vs. field_or PNone data ''tasks'' = PList (v # vs)")
    case True
    then obtain v vs where v: "field_or PNone data ''tasks'' = PList (v # vs)" by blast
    obtain tasks fs1 where t: "parse_tasks fr 0 (v # vs) [] fs0 = (tasks, fs1)" by fastforce
    note ok = parse_tasks_ok [OF t]
    from assms v h t have "fs = fs1" "fs1 \<noteq> [] \<or> tasks = []"
      by (simp_all add: parse_data_def del: parse_tasks.simps split: if_split_asm)
    with ok 0 reports_trans show ?thesis by blast
  next
    case False
    then have "parse_data fr data digest = (None, fs0 @ [structure_finding ''WORKFLOW_TASKS_MISSING''
                ''A workflow requires a non-empty tasks list.'' ''tasks'' None])"
      unfolding parse_data_def h by (auto split: pyval.splits list.splits)
    with assms have "fs = fs0 @ [structure_finding ''WORKFLOW_TASKS_MISSING''
                ''A workflow requires a non-empty tasks list.'' ''tasks'' None]" by simp
    with reports_structure [OF 0] show ?thesis by simp
  qed
  then show "fs \<noteq> []" "\<forall>f \<in> set fs. find_status f = BLOCKED" by (auto simp: reports_def)
qed

text \<open>The resolver: every step only adds findings, and a dependency it adds is a known task.\<close>

definition step_ok :: "string set \<Rightarrow> string set \<Rightarrow> resolve_state \<Rightarrow> resolve_state \<Rightarrow> bool" where
  "step_ok ids U st st' \<longleftrightarrow>
     reports (rs_findings st) (rs_findings st') \<and>
     ((\<forall>(k, v) \<in> set (rs_dependencies st). v \<subseteq> ids \<union> U) \<longrightarrow>
      (\<forall>(k, v) \<in> set (rs_dependencies st'). v \<subseteq> ids \<union> U))"

lemma step_ok_refl: "step_ok ids U st st"
  by (simp add: step_ok_def)

lemma step_ok_trans: "step_ok ids U st st1 \<Longrightarrow> step_ok ids U st1 st2 \<Longrightarrow> step_ok ids U st st2"
  unfolding step_ok_def using reports_trans by blast

lemma step_ok_finding: "step_ok ids U st (add_finding (wf_finding c m l h s) st)"
  by (simp add: step_ok_def add_finding_def reports_intros)

lemma map_entry_values:
  "(\<forall>(k, v) \<in> set d. P v) \<Longrightarrow> (\<forall>v. P v \<longrightarrow> P (f v)) \<Longrightarrow> (\<forall>(k, v) \<in> set (AList.map_entry i f d). P v)"
  by (induction d) auto

lemma step_ok_dependency:
  assumes "d \<in> ids"
  shows "step_ok ids U st (add_dependency tid d st)"
  unfolding step_ok_def add_dependency_def
  using map_entry_values [of "rs_dependencies st" "\<lambda>v. v \<subseteq> ids \<union> U" "insert d" tid] assms
  by auto

lemma step_ok_same:
  "rs_findings st' = rs_findings st \<Longrightarrow> rs_dependencies st' = rs_dependencies st \<Longrightarrow>
   step_ok ids U st st'"
  by (simp add: step_ok_def)

lemma step_ok_produced: "step_ok ids U st (snd (resolve_produced_input ids outputs tid item st))"
proof (cases "case d_source_task item of None \<Rightarrow> True | Some t \<Rightarrow> t \<notin> ids")
  case True
  then show ?thesis by (simp add: resolve_produced_input_def step_ok_finding)
next
  case False
  then obtain t where t: "d_source_task item = Some t" "t \<in> ids" by (auto split: option.splits)
  show ?thesis
  proof (cases "outputs (t, opt_str (d_source_output item))")
    case None
    with t show ?thesis by (simp add: resolve_produced_input_def step_ok_finding opt_str_def)
  next
    case (Some out)
    have d: "step_ok ids U st (add_dependency tid t st)" by (rule step_ok_dependency [OF t(2)])
    show ?thesis
      using t Some step_ok_trans [OF d step_ok_finding] step_ok_trans [OF d step_ok_same]
      by (simp add: resolve_produced_input_def Let_def opt_str_def split: sum.splits prod.splits)
  qed
qed

lemma step_ok_external: "step_ok ids U st (snd (resolve_external_input fr sha files item st))"
proof (cases "external_reference fr sha files item")
  case (Inl x)
  then show ?thesis by (simp add: resolve_external_input_def external_failed_def step_ok_finding)
next
  case (Inr a)
  let ?st1 = "st\<lparr>rs_external := AList.update (art_id a) a (rs_external st)\<rparr>"
  have s: "step_ok ids U st ?st1" by (rule step_ok_same) simp_all
  show ?thesis
    using Inr s step_ok_trans [OF s step_ok_finding]
    by (simp add: resolve_external_input_def external_failed_def step_ok_finding Let_def
        split: sum.splits option.splits)
qed

lemma step_ok_inputs:
  "step_ok ids U st (resolve_inputs fr sha files ids outputs tid items st)"
proof (induction items arbitrary: st)
  case Nil
  show ?case by (simp add: step_ok_refl)
next
  case (Cons item items)
  define r where "r = (if d_source_path item \<noteq> None then resolve_external_input fr sha files item st
         else resolve_produced_input ids outputs tid item st)"
  obtain b st1 where r1: "r = (b, st1)" by (cases r)
  have 1: "step_ok ids U st st1"
    using step_ok_external [of ids U st fr sha files item]
      step_ok_produced [of ids U st outputs tid item] r1
    by (cases "d_source_path item = None") (simp_all add: r_def)
  define st2 where "st2 = (case b of None \<Rightarrow> st1
      | Some x \<Rightarrow> st1\<lparr>rs_bindings := AList.map_entry tid (\<lambda>bs. bs @ [x]) (rs_bindings st1)\<rparr>)"
  have 2: "step_ok ids U st1 st2" by (rule step_ok_same) (simp_all add: st2_def split: option.splits)
  have "resolve_inputs fr sha files ids outputs tid (item # items) st =
      resolve_inputs fr sha files ids outputs tid items st2"
    using r1 by (simp add: r_def st2_def)
  with step_ok_trans [OF 1 step_ok_trans [OF 2 Cons.IH]] show ?case by simp
qed

lemma step_ok_control:
  "resolve_control_dependencies ids tid ds st = Inr st' \<Longrightarrow>
   step_ok ids U st st' \<and> (rs_findings st' = [] \<longrightarrow> set ds \<subseteq> ids)"
proof (induction ds arbitrary: st)
  case Nil
  then show ?case by (simp add: step_ok_refl)
next
  case (Cons d ds)
  show ?case
  proof (cases "d \<notin> ids \<or> d = tid")
    case True
    then obtain c m l h s where
      "resolve_control_dependencies ids tid ds (add_finding (wf_finding c m l h s) st) = Inr st'"
      using Cons.prems by (auto split: if_splits)
    note ih = Cons.IH [OF this]
    have "rs_findings st' \<noteq> []"
      using ih reports_nonempty [of "rs_findings (add_finding (wf_finding c m l h s) st)"]
      by (auto simp: step_ok_def add_finding_def)
    with ih step_ok_trans [OF step_ok_finding] show ?thesis by blast
  next
    case False
    then obtain e where
      "resolve_control_dependencies ids tid ds (st\<lparr>rs_edges := rs_edges st @ [e]\<rparr>) = Inr st'"
      using Cons.prems by (auto simp: rbind_Inr_iff)
    note ih = Cons.IH [OF this]
    have "step_ok ids U st (st\<lparr>rs_edges := rs_edges st @ [e]\<rparr>)" by (rule step_ok_same) simp_all
    with ih False step_ok_trans show ?thesis by auto
  qed
qed

lemma step_ok_tasks:
  "resolve_tasks fr sha files ids outputs ts st = Inr st' \<Longrightarrow>
   step_ok ids U st st' \<and> (rs_findings st' = [] \<longrightarrow> (\<forall>t \<in> set ts. set (td_dependencies t) \<subseteq> ids))"
proof (induction ts arbitrary: st)
  case Nil
  then show ?case by (simp add: step_ok_refl)
next
  case (Cons t ts)
  then obtain st1 where c: "resolve_control_dependencies ids (td_id t) (td_dependencies t) st = Inr st1"
    and r: "resolve_tasks fr sha files ids outputs ts
      (resolve_inputs fr sha files ids outputs (td_id t) (td_inputs t) st1) = Inr st'"
    by (auto simp: rbind_Inr_iff)
  let ?st2 = "resolve_inputs fr sha files ids outputs (td_id t) (td_inputs t) st1"
  note 1 = step_ok_control [OF c, of U] and 2 = step_ok_inputs [of ids U st1] and 3 = Cons.IH [OF r]
  have 12: "step_ok ids U st1 st'" using 2 3 step_ok_trans by blast
  have "rs_findings st' = [] \<Longrightarrow> rs_findings st1 = []"
    using 12 reports_nonempty unfolding step_ok_def by blast
  with 1 12 3 step_ok_trans show ?case by auto
qed

lemma make_nodes_reports:
  "make_nodes st by_id is nodes fs = (ns, fs') \<Longrightarrow> reports fs fs'"
proof (induction st by_id "is" nodes fs rule: make_nodes.induct)
  case (1 st by_id nodes fs)
  then show ?case by simp
next
  case (2 st by_id i "is" nodes fs)
  show ?case
  proof (cases "by_id i")
    case None
    with 2(1) 2(4) show ?thesis by simp
  next
    case (Some t)
    show ?thesis
    proof (cases "make_node st t")
      case (Inl x)
      have "reports (fs @ [wf_finding ''WORKFLOW_TASK_INVALID'' (exn_str x) (''tasks.'' @ i) None
          STRUCTURE]) fs'"
        using 2(2) [OF Some Inl] 2(4) Some Inl by simp
      with reports_add [OF reports_refl] show ?thesis using reports_trans by blast
    next
      case (Inr n)
      with 2(3) [OF Some Inr] 2(4) Some show ?thesis by simp
    qed
  qed
qed

lemma start_values:
  "\<forall>(k, v) \<in> set (rs_dependencies (resolve_start ts fs)). v \<subseteq> (\<Union>t \<in> set ts. set (td_dependencies t))"
proof -
  have "\<forall>(k, v) \<in> set d. v \<subseteq> A \<Longrightarrow>
      \<forall>(k, v) \<in> set (fold (\<lambda>t d. AList.update (td_id t) (set (td_dependencies t)) d) ts d).
        v \<subseteq> A \<union> (\<Union>t \<in> set ts. set (td_dependencies t))" for d :: "string set dict" and A
  proof (induction ts arbitrary: d A)
    case (Cons t ts)
    have "\<forall>(k, v) \<in> set (AList.update (td_id t) (set (td_dependencies t)) d).
        v \<subseteq> A \<union> set (td_dependencies t)"
      using Cons.prems in_set_update [of _ _ "td_id t" "set (td_dependencies t)" d] by fastforce
    from Cons.IH [OF this] show ?case by (simp add: Un_assoc)
  qed auto
  from this [of "[]" "{}"] show ?thesis by (simp add: resolve_start_def)
qed

lemma values_mono:
  "\<forall>(k, v) \<in> set d. v \<subseteq> A \<Longrightarrow> A \<subseteq> B \<Longrightarrow> \<forall>(k, v) \<in> set d. v \<subseteq> B"
  by fast

lemma resolve_None:
  assumes "resolve fr sha files parsed [] = Inr (None, fs)"
  shows "fs \<noteq> []" "\<forall>f \<in> set fs. find_status f = BLOCKED"
proof -
  let ?ts = "pw_tasks parsed" and ?ids = "td_id ` set (pw_tasks parsed)"
  let ?U = "\<Union>t \<in> set ?ts. set (td_dependencies t)"
  from assms obtain st where st: "resolve_tasks fr sha files ?ids (draft_output ?ts) ?ts
      (resolve_start ?ts []) = Inr st"
    by (auto simp: resolve_def Let_def rbind_Inr_iff)
  obtain o' fs1 where o: "topological_order (rs_dependencies st) (rs_findings st) = (o', fs1)"
    by fastforce
  have ok: "step_ok ?ids ?U (resolve_start ?ts []) st"
    and known: "rs_findings st = [] \<Longrightarrow> \<forall>t \<in> set ?ts. set (td_dependencies t) \<subseteq> ?ids"
    using step_ok_tasks [OF st, of ?U] by auto
  have inv: "resolve_inv ?ids st" using resolve_inv_tasks [OF st resolve_start_inv] by blast
  have 0: "reports [] (rs_findings st)" using ok by (simp add: step_ok_def resolve_start_def)
  have 1: "reports (rs_findings st) fs1"
    using o by (auto simp: topological_order_def reports_add split: if_splits sum.splits)
  have closed: "o' = None \<Longrightarrow> fs1 \<noteq> []"
  proof (cases "rs_findings st = []")
    case True
    have "\<forall>(k, v) \<in> set (rs_dependencies (resolve_start ?ts [])). v \<subseteq> ?ids \<union> ?U"
      by (rule values_mono [OF start_values Un_upper2])
    from mp [OF conjunct2 [OF ok [unfolded step_ok_def]] this]
    have "\<forall>(k, v) \<in> set (rs_dependencies st). v \<subseteq> ?ids \<union> ?U" .
    moreover have "?U \<subseteq> ?ids" using known [OF True] by blast
    ultimately have "\<forall>(k, v) \<in> set (rs_dependencies st). v \<subseteq> ?ids"
      by (intro values_mono [of "rs_dependencies st" "?ids \<union> ?U" ?ids]) simp_all
    moreover have "set (map fst (rs_dependencies st)) = ?ids" using inv by (simp add: resolve_inv_def)
    ultimately have "\<not> list_ex (\<lambda>(k, v). \<not> v \<subseteq> set (map fst (rs_dependencies st))) (rs_dependencies st)"
      unfolding list_ex_iff by (simp only:) fast
    with o show "o' = None \<Longrightarrow> fs1 \<noteq> []"
      by (auto simp: topological_order_def split: sum.splits)
  qed (use 1 reports_nonempty in blast)
  obtain nodes fs2 where n: "make_nodes st (draft_by_id ?ts) (the o') [] fs1 = (nodes, fs2)" by fastforce
  have 2: "reports fs1 fs2" by (rule make_nodes_reports [OF n])
  have "reports [] fs \<and> fs \<noteq> []"
  proof (cases "fs1 \<noteq> [] \<or> o' = None")
    case True
    with assms st o have "fs = fs1" by (simp add: resolve_def Let_def)
    with True closed 0 1 reports_trans show ?thesis by blast
  next
    case False
    show ?thesis
    proof (cases "fs2 = []")
      case True
      with False assms st o n obtain m where "fs = fs2 @ [wf_finding ''WORKFLOW_CONTRACT_INVALID''
          m ''workflow'' None STRUCTURE]"
        by (auto simp: resolve_def Let_def split: sum.splits exn.splits)
      with 0 1 2 reports_trans reports_add show ?thesis by blast
    next
      case ne: False
      from False obtain order where "o' = Some order" "fs1 = []" by blast
      with ne assms st o n have "fs = fs2" by (simp add: resolve_def Let_def)
      with ne 0 1 2 reports_trans show ?thesis by blast
    qed
  qed
  then show "fs \<noteq> []" "\<forall>f \<in> set fs. find_status f = BLOCKED" by (auto simp: reports_def)
qed

lemma compilation_result_Inr:
  assumes "compilation_result fr sha source name wid fs compiled = Inr c"
  shows "comp_compiled c = compiled" "map find_status (rep_findings (comp_report c)) = map find_status fs"
    "rep_status (comp_report c) = aggregate_decisions (map find_status fs)"
proof -
  let ?sid = "or_else wid name"
  from assms obtain subject findings ruleset report where
    f: "map_res (\<lambda>f. validation_finding (f\<lparr>find_subject := ?sid\<rparr>)) fs = Inr findings"
    and r: "build_report (''workflow-validation:'' @ ?sid) subject findings ruleset
               ''siestaflow.workflow-compiler'' (OMap [(OStr ''schema_version'', OStr ''1.0'')]) =
            Inr report"
    and c: "c = \<lparr>comp_report = report, comp_compiled = compiled\<rparr>"
    by (auto simp: compilation_result_def Let_def rbind_Inr_iff)
  have fin: "rep_findings report = findings"
    using validation_report_Inr [OF r [unfolded build_report_def]] by simp
  have "map find_status findings = map find_status fs"
    using f unfolding map_res_Inr_iff
    by (induction rule: list_all2_induct)
      (auto simp: validation_finding_def rbind_Inr_iff split: if_splits)
  moreover have "rep_status report = aggregate_decisions (map find_status (rep_findings report))"
    using validation_report_Inr [OF r [unfolded build_report_def]] by simp
  ultimately show "comp_compiled c = compiled"
    "map find_status (rep_findings (comp_report c)) = map find_status fs"
    "rep_status (comp_report c) = aggregate_decisions (map find_status fs)"
    by (simp_all add: c fin)
qed

text \<open>
  The compiler's verdict is consistent: when a compilation returns, it has a compiled
  workflow exactly when its report has no finding, its report is PASS in that case and BLOCKED
  otherwise, so \<open>valid\<close> says no more and no less than that a workflow was compiled; the compiled
  workflow is then a topologically ordered DAG.
\<close>

theorem compile_verdict_consistent:
  assumes "compile_mapping fr sha files source data = Inr c"
  shows "(comp_compiled c \<noteq> None \<longleftrightarrow> rep_findings (comp_report c) = []) \<and>
         rep_status (comp_report c) = (if comp_compiled c = None then BLOCKED else PASS) \<and>
         (compilation_valid c \<longleftrightarrow> comp_compiled c \<noteq> None) \<and>
         (\<forall>w. comp_compiled c = Some w \<longrightarrow> topological (task_graph w) {})"
proof -
  have blocked: "aggregate_decisions (map find_status fs) = BLOCKED"
    if "fs \<noteq> []" "\<forall>f \<in> set fs. find_status f = BLOCKED" for fs
  proof -
    have "find_status ` set fs = {BLOCKED}" using that by (cases fs) auto
    then show ?thesis by (simp add: aggregate_Max max_def less_eq_decision_status_def)
  qed
  have verdict: "(comp_compiled c \<noteq> None \<longleftrightarrow> rep_findings (comp_report c) = []) \<and>
      rep_status (comp_report c) = (if comp_compiled c = None then BLOCKED else PASS)"
    if "compilation_result fr sha source name wid fs None = Inr c" "fs \<noteq> []"
      "\<forall>f \<in> set fs. find_status f = BLOCKED" for name wid fs
    using compilation_result_Inr [OF that(1)] blocked [OF that(2,3)] that(2) by auto
  have "(comp_compiled c \<noteq> None \<longleftrightarrow> rep_findings (comp_report c) = []) \<and>
      rep_status (comp_report c) = (if comp_compiled c = None then BLOCKED else PASS) \<and>
      (\<forall>w. comp_compiled c = Some w \<longrightarrow> topological (task_graph w) {})"
  proof (cases "parse_mapping fr sha data")
    case (Pair p fs)
    show ?thesis
    proof (cases p)
      case None
      with Pair have n: "parse_data fr data (sha (json_text fr (sort_keys (PDict data)))) = (None, fs)"
        by (simp add: parse_mapping_def)
      from Pair None assms have c: "compilation_result fr sha source ''.qraft-definition.json'' None fs
          None = Inr c" by (simp add: compile_mapping_def)
      from verdict [OF c parse_data_None [OF n]] compilation_result_Inr(1) [OF c] show ?thesis by simp
    next
      case (Some parsed)
      with Pair have "fs = []" using parse_data_Some(1) unfolding parse_mapping_def by blast
      with Pair Some assms obtain compiled fs1 where r: "resolve fr sha files parsed [] = Inr (compiled, fs1)"
        and c: "compilation_result fr sha source ''.qraft-definition.json'' (Some (pw_id parsed)) fs1
          compiled = Inr c"
        by (auto simp: compile_mapping_def rbind_Inr_iff)
      show ?thesis
      proof (cases compiled)
        case None
        from verdict [OF c [unfolded None] resolve_None [OF r [unfolded None]]]
          compilation_result_Inr(1) [OF c] None show ?thesis by simp
      next
        case (Some w)
        from resolve_Some [OF r [unfolded Some]] have "fs1 = []"
          and "\<exists>v. mk_compiled_workflow v = Inr w" by blast+
        then have "topological (task_graph w) {}" using compiled_topological by blast
        with compilation_result_Inr [OF c] Some \<open>fs1 = []\<close> show ?thesis by simp
      qed
    qed
  qed
  then show ?thesis by (auto simp: compilation_valid_def)
qed

theorem compile_verdict_consistent_witness:
  "case compile_mapping (\<lambda>_. []) (\<lambda>_. replicate 64 CHR ''a'') (\<lambda>_. Inl (OSError [])) ''f''
          sample_document of
     Inr c \<Rightarrow> rep_status (comp_report c) = PASS
   | Inl _ \<Rightarrow> False"
proof -
  let ?r = "compile_mapping (\<lambda>_. []) (\<lambda>_. replicate 64 CHR ''a'') (\<lambda>_. Inl (OSError [])) ''f''
          sample_document"
  have "case ?r of Inr c \<Rightarrow> (case comp_compiled c of None \<Rightarrow> False | Some _ \<Rightarrow> True) | Inl _ \<Rightarrow> False"
    by code_simp
  then obtain c where r: "?r = Inr c" and "comp_compiled c \<noteq> None"
    by (auto split: sum.splits option.splits)
  with compile_verdict_consistent [OF r] show ?thesis by (simp only: r sum.case) simp
qed

section \<open>When compilation raises\<close>

lemma resolve_control_local:
  assumes "local_id tid" "\<forall>i \<in> ids. local_id i"
  shows "\<exists>st'. resolve_control_dependencies ids tid ds st = Inr st'"
proof (induction ds arbitrary: st)
  case (Cons d ds)
  have "d \<in> ids \<Longrightarrow> d \<noteq> tid \<Longrightarrow> \<exists>e. mk_edge (control_edge d tid) = Inr e"
    using assms by (simp add: mk_edge_def control_edge_def require_local_id_id opt_local_id_def)
  with Cons show ?case by auto
qed simp

lemma resolve_tasks_local:
  assumes "\<forall>i \<in> ids. local_id i" "td_id ` set ts \<subseteq> ids"
  shows "\<exists>st'. resolve_tasks fr sha files ids outputs ts st = Inr st'"
  using assms(2)
proof (induction ts arbitrary: st)
  case (Cons t ts)
  from Cons.prems assms(1) have l: "local_id (td_id t)" by auto
  from resolve_control_local [OF l assms(1)] obtain st1
    where "resolve_control_dependencies ids (td_id t) (td_dependencies t) st = Inr st1" by blast
  with Cons show ?case by simp
qed simp

lemma for_each_Inl: "for_each f xs = Inl x \<Longrightarrow> \<exists>y \<in> set xs. f y = Inl x"
  by (induction xs) (auto simp: rbind_Inl_iff)

lemma check_artifact_edge_Inl:
  assumes "check_artifact_edge source target e = Inl x"
  shows "\<exists>t. x = ValueError t"
proof (cases "port_of source (opt_str (e_output e))")
  case None
  with assms show ?thesis by (auto simp: check_artifact_edge_def)
next
  case (Some out)
  with assms show ?thesis
    by (cases "binding_of target (opt_str (e_input e))")
      (auto simp: check_artifact_edge_def split: if_splits)
qed

lemma check_edge_Inl:
  assumes "check_edge ts e = Inl x"
  shows "\<exists>t. x = ValueError t"
proof (cases "by_task ts (e_source e)")
  case None
  with assms show ?thesis by (auto simp: check_edge_def)
next
  case (Some source)
  with assms check_artifact_edge_Inl show ?thesis
    by (cases "by_task ts (e_target e)") (auto simp: check_edge_def split: if_splits)
qed

lemma mk_compiled_workflow_Inl:
  assumes "mk_compiled_workflow w = Inl x" "canonical_primitive (wf_metadata w) = Inr m"
  shows "\<exists>t. x = ValueError t"
proof -
  have e: "\<exists>t. x = ValueError t" if "for_each (check_edge ts) es = Inl x" for ts es
    using for_each_Inl [OF that] check_edge_Inl by blast
  have b: "\<exists>t. x = ValueError t" if "for_each (check_binding ext) bs = Inl x" for ext bs
    using for_each_Inl [OF that] by (auto simp: check_binding_def split: option.splits if_splits)
  have n: "\<exists>t. x = ValueError t" if "for_each (check_node es ext) ns = Inl x" for es ext ns
    using for_each_Inl [OF that] b by (auto simp: check_node_def split: if_splits)
  from assms show ?thesis
    by (auto simp: mk_compiled_workflow_def rbind_Inl_iff Let_def require_local_id_def
        require_sha256_text_def split: if_splits dest: e n)
qed



definition spaced_document :: "pyval list \<Rightarrow> pyval dict" where
  "spaced_document deps =
     [(''schema_version'', PStr ''1.0''), (''workflow_id'', PStr ''w''), (''project_id'', PStr ''p''),
      (''tasks'', PList
        [PDict [(''task_id'', PStr ''a b''), (''kind'', PStr ''calculation''),
           (''capability'', PStr ''siesta.scf'')],
         PDict [(''task_id'', PStr ''c''), (''kind'', PStr ''calculation''),
           (''capability'', PStr ''siesta.scf''), (''depends_on'', PList deps)]])]"

text \<open>
  Without valid ids it does raise. A definition with a task \<open>a b\<close> that another task
  depends on passes the parser without a finding, and the resolver then ends in the \<open>ValueError\<close> of
  the edge's constructor instead of a finding; without the dependency the same id is reported as
  the finding \<open>WORKFLOW_TASK_INVALID\<close>.
\<close>

theorem invalid_task_id_escapes:
  "(case parse_mapping (\<lambda>_. []) (\<lambda>_. replicate 64 CHR ''a'') (spaced_document [PStr ''a b'']) of
      (Some p, []) \<Rightarrow> (case resolve (\<lambda>_. []) (\<lambda>_. replicate 64 CHR ''a'') (\<lambda>_. Inl (OSError [])) p [] of
         Inl (ValueError _) \<Rightarrow> True | _ \<Rightarrow> False)
    | _ \<Rightarrow> False) \<and>
   (case parse_mapping (\<lambda>_. []) (\<lambda>_. replicate 64 CHR ''a'') (spaced_document []) of
      (Some p, []) \<Rightarrow> (case resolve (\<lambda>_. []) (\<lambda>_. replicate 64 CHR ''a'') (\<lambda>_. Inl (OSError [])) p [] of
         Inr (None, [f]) \<Rightarrow> find_code f = ''WORKFLOW_TASK_INVALID'' | _ \<Rightarrow> False)
    | _ \<Rightarrow> False)"
  by code_simp

end
