(* ===== verification/CoreRuntime.thy ===== *)
theory CoreRuntime
  imports Validation
begin

text \<open>
  The engine-neutral value classes of an executable plan: \<open>src/qraft/core/runtime.py\<close>
  (scientific identity, execution specification, DAG node, technical validation, node result,
  attempt), with the constructor checks, the derived quantities, the JSON forms and the
  fingerprints, and \<open>CompiledWorkflowRuntime._attempt_from_dict\<close>, which reads an attempt back.
  SHA-256 (\<open>sha\<close>) and the \<open>repr\<close> of floats (\<open>fr\<close>) are parameters.
\<close>

section \<open>Digests\<close>

definition digest_of :: "(rat \<Rightarrow> string) \<Rightarrow> (string \<Rightarrow> string) \<Rightarrow> pyval dict \<Rightarrow> string" where
  "digest_of fr sha d = sha (json_text fr (sort_keys (PDict d)))"

text \<open>\<open>_sha256\<close>: 64 characters that \<open>int(_, 16)\<close> accepts.\<close>

definition sha256_field :: "string \<Rightarrow> string \<Rightarrow> string res" where
  "sha256_field v name =
     (let normalized = py_lower (py_strip v) in
      if length normalized \<noteq> 64 \<or> \<not> py_int16_ok normalized
      then Inl (ValueError (name @ '' must be a SHA-256 digest''))
      else Inr normalized)"

definition sha_entry :: "(rat \<Rightarrow> string) \<Rightarrow> string \<Rightarrow> string \<times> pyval \<Rightarrow> (string \<times> string) res" where
  "sha_entry fr name p =
     rbind (sha256_field (py_str fr (snd p)) (name @ ''.'' @ fst p)) (\<lambda>h. Inr (fst p, h))"

text \<open>\<open>{str(key): _sha256(str(value)) for key, value in sorted(mapping.items())}\<close>\<close>

definition sha_items :: "(rat \<Rightarrow> string) \<Rightarrow> string \<Rightarrow> pyval dict \<Rightarrow> string dict res" where
  "sha_items fr name d = map_res (sha_entry fr name) (sort_key fst d)"

definition str_dict :: "string dict \<Rightarrow> pyval dict" where
  "str_dict d = map (\<lambda>(k, v). (k, PStr v)) d"

section \<open>Scientific identity\<close>

record scientific_identity =
  si_engine :: string
  si_effective_fdf :: string
  si_geometry :: string
  si_species :: string
  si_pseudopotentials :: "string dict"
  si_components :: "string dict"
  si_files :: "string dict"
  si_schema :: string

definition sha_mapping :: "(rat \<Rightarrow> string) \<Rightarrow> string \<Rightarrow> pyval dict \<Rightarrow> string dict res" where
  "sha_mapping fr name d =
     (if list_ex (\<lambda>p. py_strip (fst p) = []) d
      then Inl (ValueError (name @ '' keys must be non-empty''))
      else sha_items fr name d)"

definition scientific_identity ::
  "(rat \<Rightarrow> string) \<Rightarrow> string \<Rightarrow> string \<Rightarrow> string \<Rightarrow> string \<Rightarrow> pyval dict \<Rightarrow> pyval dict \<Rightarrow> pyval dict \<Rightarrow>
   string \<Rightarrow> scientific_identity res" where
  "scientific_identity fr engine fdf geometry species pseudo comps files schema =
     (if py_strip engine = [] then Inl (ValueError ''scientific identity requires an engine'')
      else rbind (sha256_field fdf ''effective_fdf_sha256'') (\<lambda>fdf'.
        rbind (sha256_field geometry ''geometry_sha256'') (\<lambda>geometry'.
        rbind (sha256_field species ''species_mapping_sha256'') (\<lambda>species'.
        rbind (sha_mapping fr ''pseudopotentials'' pseudo) (\<lambda>pseudo'.
        rbind (sha_mapping fr ''components'' comps) (\<lambda>comps'.
        rbind (sha_mapping fr ''included_scientific_files'' files) (\<lambda>files'.
        Inr \<lparr>si_engine = engine, si_effective_fdf = fdf', si_geometry = geometry',
             si_species = species', si_pseudopotentials = pseudo', si_components = comps',
             si_files = files', si_schema = schema\<rparr>)))))))"

definition identity_payload :: "scientific_identity \<Rightarrow> pyval dict" where
  "identity_payload i =
     [(''engine'', PStr (si_engine i)), (''effective_fdf_sha256'', PStr (si_effective_fdf i)),
      (''geometry_sha256'', PStr (si_geometry i)), (''species_mapping_sha256'', PStr (si_species i)),
      (''pseudopotentials'', PDict (str_dict (si_pseudopotentials i))),
      (''components'', PDict (str_dict (si_components i))),
      (''included_scientific_files'', PDict (str_dict (si_files i))),
      (''schema_version'', PStr (si_schema i))]"

definition identity_fingerprint :: "(rat \<Rightarrow> string) \<Rightarrow> (string \<Rightarrow> string) \<Rightarrow> scientific_identity \<Rightarrow> string" where
  "identity_fingerprint fr sha i = digest_of fr sha (identity_payload i)"

definition identity_to_dict :: "(rat \<Rightarrow> string) \<Rightarrow> (string \<Rightarrow> string) \<Rightarrow> scientific_identity \<Rightarrow> pyval dict" where
  "identity_to_dict fr sha i =
     identity_payload i @ [(''fingerprint'', PStr (identity_fingerprint fr sha i))]"

section \<open>Execution specification\<close>

record execution_spec =
  es_partition :: string
  es_nodes :: int
  es_mpi_ranks :: int
  es_cpus_per_rank :: int
  es_memory_mb :: "int option"
  es_launcher :: string
  es_executable :: string
  es_walltime_seconds :: int
  es_environment :: "string dict"
  es_executable_arguments :: "string list"
  es_launcher_command :: "string list"
  es_launcher_arguments :: "string list"
  es_schema :: string

text \<open>\<open>launcher.replace("-", "").replace("_", "").isalnum()\<close> on the case-folded name.\<close>

definition launcher_ok :: "string \<Rightarrow> bool" where
  "launcher_ok name =
     (let t = filter (\<lambda>c. c \<noteq> CHR ''-'' \<and> c \<noteq> CHR ''_'') name in t \<noteq> [] \<and> list_all is_alnum t)"

definition execution_spec ::
  "string \<Rightarrow> pyval \<Rightarrow> pyval \<Rightarrow> pyval \<Rightarrow> pyval \<Rightarrow> string \<Rightarrow> string \<Rightarrow> pyval \<Rightarrow> string dict \<Rightarrow> string list \<Rightarrow>
   string list \<Rightarrow> string list \<Rightarrow> string \<Rightarrow> execution_spec res" where
  "execution_spec part nodes ranks cpus memory launcher executable walltime env args command
     largs schema =
     (if py_strip part = [] then Inl (ValueError ''execution spec requires partition'')
      else if py_strip launcher = [] then Inl (ValueError ''execution spec requires launcher'')
      else if py_strip executable = [] then Inl (ValueError ''execution spec requires executable'')
      else if \<not> positive_int nodes then Inl (ValueError ''nodes must be a positive integer'')
      else if \<not> positive_int ranks then Inl (ValueError ''mpi_ranks must be a positive integer'')
      else if \<not> positive_int cpus then Inl (ValueError ''cpus_per_rank must be a positive integer'')
      else if \<not> positive_int walltime
        then Inl (ValueError ''walltime_seconds must be a positive integer'')
      else if memory \<noteq> PNone \<and> \<not> positive_int memory
        then Inl (ValueError ''memory_mb must be a positive integer when declared'')
      else if int_of ranks mod int_of nodes \<noteq> 0
        then Inl (ValueError ''mpi_ranks must be divisible by nodes'')
      else if \<not> launcher_ok (py_lower launcher)
        then Inl (ValueError ''launcher must be a portable non-empty identifier'')
      else Inr \<lparr>es_partition = part, es_nodes = int_of nodes, es_mpi_ranks = int_of ranks,
                es_cpus_per_rank = int_of cpus,
                es_memory_mb = (if memory = PNone then None else Some (int_of memory)),
                es_launcher = py_lower launcher, es_executable = executable,
                es_walltime_seconds = int_of walltime, es_environment = sort_key fst env,
                es_executable_arguments = args, es_launcher_command = command,
                es_launcher_arguments = largs, es_schema = schema\<rparr>)"

definition ranks_per_node :: "execution_spec \<Rightarrow> int" where
  "ranks_per_node e = es_mpi_ranks e div es_nodes e"

definition allocated_cpus :: "execution_spec \<Rightarrow> int" where
  "allocated_cpus e = es_mpi_ranks e * es_cpus_per_rank e"

definition spec_payload :: "execution_spec \<Rightarrow> pyval dict" where
  "spec_payload e =
     [(''partition'', PStr (es_partition e)), (''nodes'', PInt (es_nodes e)),
      (''mpi_ranks'', PInt (es_mpi_ranks e)), (''cpus_per_rank'', PInt (es_cpus_per_rank e)),
      (''memory_mb'', case es_memory_mb e of None \<Rightarrow> PNone | Some n \<Rightarrow> PInt n),
      (''launcher'', PStr (es_launcher e)), (''executable'', PStr (es_executable e)),
      (''walltime_seconds'', PInt (es_walltime_seconds e)),
      (''environment'', PDict (str_dict (es_environment e))),
      (''executable_arguments'', PList (map PStr (es_executable_arguments e))),
      (''launcher_command'', PList (map PStr (es_launcher_command e))),
      (''launcher_arguments'', PList (map PStr (es_launcher_arguments e))),
      (''schema_version'', PStr (es_schema e))]"

definition spec_fingerprint :: "(rat \<Rightarrow> string) \<Rightarrow> (string \<Rightarrow> string) \<Rightarrow> execution_spec \<Rightarrow> string" where
  "spec_fingerprint fr sha e = digest_of fr sha (spec_payload e)"

definition spec_to_dict :: "(rat \<Rightarrow> string) \<Rightarrow> (string \<Rightarrow> string) \<Rightarrow> execution_spec \<Rightarrow> pyval dict" where
  "spec_to_dict fr sha e =
     spec_payload e @ [(''ranks_per_node'', PInt (ranks_per_node e)),
                       (''allocated_cpus'', PInt (allocated_cpus e)),
                       (''fingerprint'', PStr (spec_fingerprint fr sha e))]"

lemma execution_spec_ok:
  assumes "execution_spec part nodes ranks cpus memory launcher executable walltime env args
    command largs schema = Inr e"
  shows "0 < es_nodes e" "0 < es_mpi_ranks e" "0 < es_cpus_per_rank e" "0 < es_walltime_seconds e"
    "es_nodes e dvd es_mpi_ranks e"
  using assms
  by (simp_all add: execution_spec_def positive_int_int_of mod_eq_0_iff_dvd split: if_splits)
    (auto simp: positive_int_int_of)

section \<open>DAG nodes\<close>

record dag_node =
  dn_id :: string
  dn_kind :: string
  dn_depends_on :: "string list"

definition dag_node :: "dag_node \<Rightarrow> dag_node res" where
  "dag_node n =
     (if py_strip (dn_id n) = [] \<or> py_strip (dn_kind n) = []
      then Inl (ValueError ''DAG nodes require node_id and kind'')
      else if dn_id n \<in> set (dn_depends_on n)
      then Inl (ValueError ''a DAG node cannot depend on itself'')
      else Inr n)"

section \<open>Technical validation and node results\<close>

definition upper_char :: "char \<Rightarrow> char" where
  "upper_char c = (if is_lower c then char_of ((of_char c :: nat) - 32) else c)"

definition py_upper :: "string \<Rightarrow> string" where
  "py_upper s = map upper_char s"

record technical_validation =
  tv_status :: string
  tv_classification :: string
  tv_reasons :: "pyval list"
  tv_parser_summary :: "pyval dict"

definition technical_validation ::
  "string \<Rightarrow> string \<Rightarrow> pyval list \<Rightarrow> pyval dict \<Rightarrow> technical_validation res" where
  "technical_validation status classification reasons summary =
     (let s = py_upper status in
      if s \<notin> {''PASS'', ''FAIL'', ''REVIEW'', ''BLOCKED''}
      then Inl (ValueError ''invalid technical validation status'')
      else Inr \<lparr>tv_status = s, tv_classification = classification, tv_reasons = reasons,
                tv_parser_summary = summary\<rparr>)"

datatype scientific_decision = NOT_EVALUATED | ACCEPTED | REJECTED

fun scientific_decision_str :: "scientific_decision \<Rightarrow> string" where
  "scientific_decision_str NOT_EVALUATED = ''NOT_EVALUATED''"
| "scientific_decision_str ACCEPTED = ''ACCEPTED''"
| "scientific_decision_str REJECTED = ''REJECTED''"

definition scientific_decision :: "pyval \<Rightarrow> scientific_decision res" where
  "scientific_decision v =
     (case find (\<lambda>d. v = PStr (scientific_decision_str d)) [NOT_EVALUATED, ACCEPTED, REJECTED] of
        Some d \<Rightarrow> Inr d | None \<Rightarrow> Inl (ValueError ''not a valid ScientificDecision''))"

record node_result =
  nr_execution_state :: string
  nr_technical :: technical_validation
  nr_decision :: scientific_decision

definition node_result ::
  "string \<Rightarrow> technical_validation \<Rightarrow> scientific_decision \<Rightarrow> node_result res" where
  "node_result state technical decision =
     (if py_strip state = [] then Inl (ValueError ''node result requires execution_state'')
      else Inr \<lparr>nr_execution_state = state, nr_technical = technical, nr_decision = decision\<rparr>)"

section \<open>Attempts\<close>

record attempt =
  at_node_id :: string
  at_attempt_id :: string
  at_science :: string
  at_execution :: string
  at_started :: string
  at_finished :: string
  at_stdout :: string
  at_stderr :: string
  at_exit_code :: pyval
  at_artifacts :: "string dict"
  at_result :: node_result
  at_schema :: string

definition attempt ::
  "(rat \<Rightarrow> string) \<Rightarrow> string \<Rightarrow> string \<Rightarrow> string \<Rightarrow> string \<Rightarrow> string \<Rightarrow> string \<Rightarrow> string \<Rightarrow> string \<Rightarrow> pyval \<Rightarrow>
   pyval dict \<Rightarrow> node_result \<Rightarrow> attempt res" where
  "attempt fr node aid science execution started finished out err exit_code artifacts result =
     (if py_strip node = [] \<or> py_strip aid = []
      then Inl (ValueError ''attempt requires node_id and attempt_id'')
      else rbind (sha256_field science ''scientific_identity_sha256'') (\<lambda>science'.
        rbind (sha256_field execution ''execution_spec_sha256'') (\<lambda>execution'.
        rbind (sha_items fr ''artifact'' artifacts) (\<lambda>artifacts'.
        Inr \<lparr>at_node_id = node, at_attempt_id = aid, at_science = science',
             at_execution = execution', at_started = started, at_finished = finished,
             at_stdout = out, at_stderr = err, at_exit_code = exit_code,
             at_artifacts = artifacts', at_result = result, at_schema = ''1.0''\<rparr>))))"

text \<open>\<open>Attempt.to_dict\<close>: \<open>asdict\<close> goes into the nested classes.\<close>

definition technical_to_dict :: "technical_validation \<Rightarrow> pyval dict" where
  "technical_to_dict t =
     [(''status'', PStr (tv_status t)), (''classification'', PStr (tv_classification t)),
      (''reasons'', PList (tv_reasons t)), (''parser_summary'', PDict (tv_parser_summary t))]"

definition result_to_dict :: "node_result \<Rightarrow> pyval dict" where
  "result_to_dict r =
     [(''execution_state'', PStr (nr_execution_state r)),
      (''technical_validation'', PDict (technical_to_dict (nr_technical r))),
      (''scientific_decision'', PStr (scientific_decision_str (nr_decision r)))]"

definition attempt_to_dict :: "attempt \<Rightarrow> pyval dict" where
  "attempt_to_dict a =
     [(''node_id'', PStr (at_node_id a)), (''attempt_id'', PStr (at_attempt_id a)),
      (''scientific_identity_sha256'', PStr (at_science a)),
      (''execution_spec_sha256'', PStr (at_execution a)), (''started_at'', PStr (at_started a)),
      (''finished_at'', PStr (at_finished a)), (''stdout'', PStr (at_stdout a)),
      (''stderr'', PStr (at_stderr a)), (''exit_code'', at_exit_code a),
      (''artifacts'', PDict (str_dict (at_artifacts a))),
      (''result'', PDict (result_to_dict (at_result a))), (''schema_version'', PStr (at_schema a))]"

section \<open>Reading an attempt\<close>

text \<open>
  \<open>value[key]\<close> on a JSON value: a mapping may lack the key, nothing else takes a text as index.
  \<open>tuple(v)\<close> iterates over a list, over the characters of a text and over the keys of a mapping.
  \<open>dict(v)\<close> is used on values the runtime wrote as mappings; anything else raises here.
\<close>

definition item_of :: "pyval \<Rightarrow> string \<Rightarrow> pyval res" where
  "item_of v k = (case v of PDict d \<Rightarrow> get_item d k | _ \<Rightarrow> Inl (TypeError ''not subscriptable by text''))"

fun py_tuple :: "pyval \<Rightarrow> pyval list res" where
  "py_tuple (PList xs) = Inr xs"
| "py_tuple (PStr s) = Inr (map (\<lambda>c. PStr [c]) s)"
| "py_tuple (PDict d) = Inr (map (\<lambda>p. PStr (fst p)) d)"
| "py_tuple _ = Inl (TypeError ''not iterable'')"

fun py_dict :: "pyval \<Rightarrow> pyval dict res" where
  "py_dict (PDict d) = Inr d"
| "py_dict _ = Inl (TypeError ''not a mapping'')"

definition str_item :: "(rat \<Rightarrow> string) \<Rightarrow> pyval \<Rightarrow> string \<Rightarrow> string res" where
  "str_item fr v k = rbind (item_of v k) (\<lambda>x. Inr (py_str fr x))"

definition get_or :: "pyval \<Rightarrow> pyval \<Rightarrow> string \<Rightarrow> pyval res" where
  "get_or z v k = (case v of PDict d \<Rightarrow> Inr (field_or z d k) | _ \<Rightarrow> Inl (AttributeError ''no attribute get''))"

definition technical_from_dict :: "(rat \<Rightarrow> string) \<Rightarrow> pyval \<Rightarrow> technical_validation res" where
  "technical_from_dict fr v =
     rbind (str_item fr v ''status'') (\<lambda>status.
     rbind (str_item fr v ''classification'') (\<lambda>classification.
     rbind (get_or (PList []) v ''reasons'') (\<lambda>reasons.
     rbind (py_tuple reasons) (\<lambda>reasons'.
     rbind (get_or (PDict []) v ''parser_summary'') (\<lambda>summary.
     rbind (py_dict summary) (\<lambda>summary'.
     technical_validation status classification reasons' summary'))))))"

definition result_from_dict :: "(rat \<Rightarrow> string) \<Rightarrow> pyval \<Rightarrow> node_result res" where
  "result_from_dict fr v =
     rbind (item_of v ''technical_validation'') (\<lambda>tv.
     rbind (str_item fr v ''execution_state'') (\<lambda>state.
     rbind (technical_from_dict fr tv) (\<lambda>technical.
     rbind (get_or (PStr ''NOT_EVALUATED'') v ''scientific_decision'') (\<lambda>d.
     rbind (scientific_decision d) (\<lambda>decision.
     node_result state technical decision)))))"

definition attempt_from_dict :: "(rat \<Rightarrow> string) \<Rightarrow> pyval \<Rightarrow> attempt res" where
  "attempt_from_dict fr v =
     rbind (item_of v ''result'') (\<lambda>r.
     rbind (result_from_dict fr r) (\<lambda>result.
     rbind (str_item fr v ''node_id'') (\<lambda>node.
     rbind (str_item fr v ''attempt_id'') (\<lambda>aid.
     rbind (str_item fr v ''scientific_identity_sha256'') (\<lambda>science.
     rbind (str_item fr v ''execution_spec_sha256'') (\<lambda>execution.
     rbind (str_item fr v ''started_at'') (\<lambda>started.
     rbind (str_item fr v ''finished_at'') (\<lambda>finished.
     rbind (str_item fr v ''stdout'') (\<lambda>out.
     rbind (str_item fr v ''stderr'') (\<lambda>err.
     rbind (get_or PNone v ''exit_code'') (\<lambda>exit_code.
     rbind (get_or (PDict []) v ''artifacts'') (\<lambda>artifacts.
     rbind (py_dict artifacts) (\<lambda>artifacts'.
     attempt fr node aid science execution started finished out err exit_code artifacts'
       result)))))))))))))"

section \<open>Normal forms\<close>

lemma upper_char_not_lower: "\<not> is_lower (upper_char c)"
proof (cases "is_lower c")
  case True
  then have n: "97 \<le> (of_char c :: nat)" "(of_char c :: nat) \<le> 122"
    by (simp_all add: is_lower_def)
  then have "(of_char (upper_char c) :: nat) = of_char c - 32"
    using True by (simp add: upper_char_def)
  with n show ?thesis by (simp add: is_lower_def)
qed (simp add: upper_char_def)

lemma py_upper_idem [simp]: "py_upper (py_upper s) = py_upper s"
  using upper_char_not_lower by (simp add: py_upper_def upper_char_def [of "upper_char c" for c])

lemma lower_char_space [simp]: "is_py_space (lower_char c) = is_py_space c"
proof (cases "is_upper c")
  case True
  then have "65 \<le> (of_char c :: nat)" "(of_char c :: nat) \<le> 90" by (simp_all add: is_upper_def)
  then show ?thesis using True by (auto simp: lower_char_def is_py_space_def)
qed (simp add: lower_char_def)

lemma py_strip_lower: "py_strip (py_lower s) = py_lower (py_strip s)"
proof -
  have d: "dropWhile is_py_space (map lower_char t) = map lower_char (dropWhile is_py_space t)" for t
    by (simp add: dropWhile_map comp_def)
  show ?thesis by (simp only: py_strip_def py_lower_def d rev_map)
qed

lemma sha256_field_again: "sha256_field v n = Inr h \<Longrightarrow> sha256_field h m = Inr h"
  by (auto simp: sha256_field_def Let_def py_strip_lower split: if_splits)

lemma technical_validation_again:
  "technical_validation s c r p = Inr t \<Longrightarrow>
   technical_validation (tv_status t) (tv_classification t) (tv_reasons t) (tv_parser_summary t) = Inr t"
  unfolding technical_validation_def Let_def
  by (cases "py_upper s \<in> {''PASS'', ''FAIL'', ''REVIEW'', ''BLOCKED''}")
    (simp_all del: insert_iff, clarsimp simp del: insert_iff)

lemma scientific_decision_again [simp]:
  "scientific_decision (PStr (scientific_decision_str d)) = Inr d"
  by (cases d) (simp_all add: scientific_decision_def)

lemma sha_items_sorted:
  assumes "sha_items fr name d = Inr h" "dict_ok d"
  shows "map fst h = map fst (sort_key fst d)" "sorted_wrt (<) (map fst h)"
proof -
  have "list_all2 (\<lambda>x y. sha_entry fr name x = Inr y) (sort_key fst d) h"
    using assms(1) by (simp add: sha_items_def map_res_Inr_iff)
  then have "list_all2 (\<lambda>x y. fst y = fst x) (sort_key fst d) h"
    by (rule list_all2_mono) (auto simp: sha_entry_def rbind_Inr_iff)
  then show k: "map fst h = map fst (sort_key fst d)"
    by (induction rule: list_all2_induct) simp_all
  have "sorted (map fst (sort_key fst d))" by simp
  moreover have "distinct (map fst (sort_key fst d))"
    using assms(2) by (simp add: distinct_map)
  ultimately show "sorted_wrt (<) (map fst h)" unfolding k by (simp add: strict_sorted_iff)
qed

lemma sha_items_again:
  assumes "sha_items fr name d = Inr h" "dict_ok d"
  shows "sha_items fr name' (str_dict h) = Inr h"
proof -
  have keys: "map fst (str_dict h) = map fst h" by (simp add: str_dict_def comp_def case_prod_unfold)
  have "sort_key fst (str_dict h) = str_dict h"
    by (rule sort_key_id_if_sorted) (use sha_items_sorted(2) [OF assms] in \<open>simp add: keys strict_sorted_iff\<close>)
  moreover have "sha_entry fr name' (fst p, PStr (snd p)) = Inr p" if "p \<in> set h" for p
  proof -
    from assms(1) that obtain x where "sha_entry fr name x = Inr p"
      unfolding sha_items_def using map_res_set by fastforce
    then obtain w m where "sha256_field w m = Inr (snd p)" by (auto simp: sha_entry_def rbind_Inr_iff)
    then show ?thesis by (simp add: sha_entry_def sha256_field_again [of w m "snd p"])
  qed
  then have "map_res (sha_entry fr name') (str_dict h) = Inr h"
    unfolding map_res_Inr_iff str_dict_def
    by (simp add: list_all2_conv_all_nth case_prod_unfold)
  ultimately show ?thesis by (simp add: sha_items_def)
qed

section \<open>Properties\<close>

lemma str_item_PStr: "map_of d k = Some (PStr s) \<Longrightarrow> str_item fr (PDict d) k = Inr s"
  by (simp add: str_item_def item_of_def get_item_def)

lemma technical_from_to_dict:
  assumes "technical_validation st c rs summ = Inr t"
  shows "technical_from_dict fr (PDict (technical_to_dict t)) = Inr t"
  unfolding technical_from_dict_def
  by (simp add: technical_to_dict_def str_item_def item_of_def get_item_def get_or_def field_or_def
      technical_validation_again [OF assms])

lemma result_from_to_dict:
  assumes "technical_validation st c rs summ = Inr t" "node_result state t d = Inr r"
  shows "result_from_dict fr (PDict (result_to_dict r)) = Inr r"
proof -
  have r: "py_strip state \<noteq> []" "r = \<lparr>nr_execution_state = state, nr_technical = t, nr_decision = d\<rparr>"
    using assms(2) by (simp_all add: node_result_def split: if_splits)
  show ?thesis
    unfolding result_from_dict_def
    by (simp add: r result_to_dict_def str_item_def item_of_def get_item_def get_or_def field_or_def
        technical_from_to_dict [OF assms(1)] node_result_def)
qed

lemma attempt_again:
  assumes "attempt fr node aid sc ex st fin out err code arts r = Inr a" "dict_ok arts"
  shows "attempt fr (at_node_id a) (at_attempt_id a) (at_science a) (at_execution a) (at_started a)
    (at_finished a) (at_stdout a) (at_stderr a) (at_exit_code a) (str_dict (at_artifacts a))
    (at_result a) = Inr a"
  using assms
  by (auto simp: attempt_def rbind_Inr_iff sha256_field_again sha_items_again [OF _ assms(2)]
      split: if_splits)

lemma attempt_result:
  "attempt fr node aid sc ex st fin out err code arts r = Inr a \<Longrightarrow> at_result a = r"
  by (auto simp: attempt_def rbind_Inr_iff split: if_splits)

text \<open>
  What an attempt writes reads back as the attempt: for every attempt the constructors
  accept, with any technical validation, decision and artifact dictionary,
  \<open>_attempt_from_dict(attempt.to_dict())\<close> is the attempt.
\<close>

theorem attempt_dict_roundtrip:
  assumes "technical_validation st c rs summ = Inr t" "node_result state t d = Inr r"
    and "attempt fr node aid sc ex started finished out err code arts r = Inr a" "dict_ok arts"
  shows "attempt_from_dict fr (PDict (attempt_to_dict a)) = Inr a"
  unfolding attempt_from_dict_def
  using attempt_again [OF assms(3,4)] attempt_result [OF assms(3)] result_from_to_dict [OF assms(1,2)]
  by (simp add: attempt_to_dict_def str_item_def item_of_def get_item_def get_or_def field_or_def)

definition sample_sha :: string where
  "sample_sha = ''00112233445566778899aabbccddeeff00112233445566778899aabbccddeeff''"

definition sample_technical :: technical_validation where
  "sample_technical = \<lparr>tv_status = ''PASS'', tv_classification = ''CONVERGED'',
     tv_reasons = [PStr ''scf converged''], tv_parser_summary = [(''cycles'', PInt 12)]\<rparr>"

definition sample_result :: node_result where
  "sample_result = \<lparr>nr_execution_state = ''COMPLETED'', nr_technical = sample_technical,
     nr_decision = NOT_EVALUATED\<rparr>"

definition sample_attempt :: attempt where
  "sample_attempt = \<lparr>at_node_id = ''relax'', at_attempt_id = ''attempt-0001'', at_science = sample_sha,
     at_execution = sample_sha, at_started = ''t0'', at_finished = ''t1'', at_stdout = ''stdout.txt'',
     at_stderr = ''stderr.txt'', at_exit_code = PInt 0, at_artifacts = [(''out.fdf'', sample_sha)],
     at_result = sample_result, at_schema = ''1.0''\<rparr>"

lemma sample_attempt_made:
  "technical_validation ''pass'' ''CONVERGED'' [PStr ''scf converged''] [(''cycles'', PInt 12)] =
     Inr sample_technical"
  "node_result ''COMPLETED'' sample_technical NOT_EVALUATED = Inr sample_result"
  "attempt (\<lambda>q. []) ''relax'' ''attempt-0001'' ('' '' @ sample_sha) sample_sha ''t0'' ''t1''
     ''stdout.txt'' ''stderr.txt'' (PInt 0) [(''out.fdf'', PStr sample_sha)] sample_result =
     Inr sample_attempt"
  by code_simp+

theorem attempt_dict_roundtrip_witness:
  "attempt_from_dict (\<lambda>q. []) (PDict (attempt_to_dict sample_attempt)) = Inr sample_attempt"
  by (rule attempt_dict_roundtrip [OF sample_attempt_made]) simp

text \<open>
  The digest check of the core contracts accepts texts that are no SHA-256 digest:
  \<open>int(_, 16)\<close> allows a prefix, a sign and underscores, so a text of 64 characters such as \<open>0x\<close>
  followed by 62 digits passes, while the artifact contract's expression refuses it.
\<close>

theorem sha256_field_accepts_prefix:
  "sha256_field (''0x'' @ drop 2 sample_sha) name = Inr (''0x'' @ drop 2 sample_sha) \<and>
   \<not> artifact_sha256 (''0x'' @ drop 2 sample_sha)"
proof -
  let ?v = "''0x'' @ drop 2 sample_sha"
  have "py_lower (py_strip ?v) = ?v \<and> length ?v = 64 \<and> py_int16_ok ?v" by code_simp
  then have "sha256_field ?v name = Inr ?v" by (simp add: sha256_field_def Let_def)
  moreover have "\<not> artifact_sha256 ?v" by code_simp
  ultimately show ?thesis by blast
qed

lemma spec_payload_sorted:
  "sort_keys (PDict (spec_payload e)) =
     PDict [(''cpus_per_rank'', PInt (es_cpus_per_rank e)),
            (''environment'', sort_keys (PDict (str_dict (es_environment e)))),
            (''executable'', PStr (es_executable e)),
            (''executable_arguments'', sort_keys (PList (map PStr (es_executable_arguments e)))),
            (''launcher'', PStr (es_launcher e)),
            (''launcher_arguments'', sort_keys (PList (map PStr (es_launcher_arguments e)))),
            (''launcher_command'', sort_keys (PList (map PStr (es_launcher_command e)))),
            (''memory_mb'', case es_memory_mb e of None \<Rightarrow> PNone | Some n \<Rightarrow> PInt n),
            (''mpi_ranks'', PInt (es_mpi_ranks e)), (''nodes'', PInt (es_nodes e)),
            (''partition'', PStr (es_partition e)), (''schema_version'', PStr (es_schema e)),
            (''walltime_seconds'', PInt (es_walltime_seconds e))]"
  unfolding spec_payload_def by (simp add: sort_key_def split: option.split)

lemma sort_all_strs [simp]: "sort_all (map PStr xs) = map PStr xs"
  by (induction xs) simp_all

lemma sort_items_strs [simp]: "sort_items (str_dict d) = str_dict d"
  by (induction d) (auto simp: str_dict_def)

lemma str_dict_inj: "str_dict d = str_dict e \<Longrightarrow> d = e"
  unfolding str_dict_def by (erule map_injective) (auto simp: inj_def)

lemma PStr_map_inj: "map PStr xs = map PStr ys \<longleftrightarrow> xs = ys"
  by (rule inj_map_eq_map) (simp add: inj_def)

lemma sort_str_dict: "sorted (map fst d) \<Longrightarrow> sort_key fst (str_dict d) = str_dict d"
  by (rule sort_key_id_if_sorted) (simp add: str_dict_def comp_def case_prod_unfold)

lemma floats_strs: "floats_all F (map PStr xs)" "floats_items F (str_dict d)"
  by (induction xs) (simp_all, induction d, auto simp: str_dict_def)

lemma spec_no_floats:
  "sorted (map fst (es_environment e)) \<Longrightarrow> floats_in F (sort_keys (PDict (spec_payload e)))"
  unfolding spec_payload_sorted by (simp add: floats_strs sort_str_dict split: option.split)

text \<open>
  The fingerprint of an execution specification identifies it: two specifications the
  constructor accepts that have the same fingerprint are equal in every field, if SHA-256 has no
  collision between their two canonical texts. So no placement change goes unnoticed in the
  runtime fingerprint, which is built from these.
\<close>

theorem spec_fingerprint_identifies:
  assumes "execution_spec p1 n1 r1 c1 m1 l1 x1 w1 env1 a1 lc1 la1 s1 = Inr e1"
    and "execution_spec p2 n2 r2 c2 m2 l2 x2 w2 env2 a2 lc2 la2 s2 = Inr e2"
    and "spec_fingerprint fr sha e1 = spec_fingerprint fr sha e2"
    and "inj_on sha {json_text fr (sort_keys (PDict (spec_payload e1))),
                     json_text fr (sort_keys (PDict (spec_payload e2)))}"
  shows "e1 = e2"
proof -
  have s: "sorted (map fst (es_environment e1))" "sorted (map fst (es_environment e2))"
    using assms(1,2) by (auto simp: execution_spec_def split: if_splits)
  have j: "json_text fr (sort_keys (PDict (spec_payload e1))) =
      json_text fr (sort_keys (PDict (spec_payload e2)))"
    by (rule inj_onD [OF assms(4)]) (use assms(3) in \<open>simp_all add: spec_fingerprint_def digest_of_def\<close>)
  have "float_repr_ok fr {}" by (simp add: float_repr_ok_def)
  from json_text_inj [OF this spec_no_floats [OF s(1)] spec_no_floats [OF s(2)] j]
  show ?thesis
    unfolding spec_payload_sorted
    by (intro execution_spec.equality)
      (simp_all add: sort_str_dict [OF s(1)] sort_str_dict [OF s(2)] str_dict_inj PStr_map_inj
        split: option.splits)
qed

definition sample_spec :: execution_spec where
  "sample_spec = \<lparr>es_partition = ''q1'', es_nodes = 2, es_mpi_ranks = 8, es_cpus_per_rank = 1,
     es_memory_mb = None, es_launcher = ''srun'', es_executable = ''siesta'',
     es_walltime_seconds = 3600, es_environment = [(''A'', ''1''), (''B'', ''2'')],
     es_executable_arguments = [], es_launcher_command = [], es_launcher_arguments = [],
     es_schema = ''1.0''\<rparr>"

lemma sample_spec_made:
  "execution_spec ''q1'' (PInt 2) (PInt 8) (PInt 1) PNone ''SRUN'' ''siesta'' (PInt 3600)
     [(''B'', ''2''), (''A'', ''1'')] [] [] [] ''1.0'' = Inr sample_spec"
  "execution_spec ''q1'' (PInt 2) (PInt 8) (PInt 1) PNone ''srun'' ''siesta'' (PInt 3600)
     [(''A'', ''1''), (''B'', ''2'')] [] [] [] ''1.0'' = Inr sample_spec"
  by code_simp+

theorem spec_fingerprint_identifies_witness:
  "\<exists>e1 e2. execution_spec ''q1'' (PInt 2) (PInt 8) (PInt 1) PNone ''SRUN'' ''siesta'' (PInt 3600)
     [(''B'', ''2''), (''A'', ''1'')] [] [] [] ''1.0'' = Inr e1 \<and>
   execution_spec ''q1'' (PInt 2) (PInt 8) (PInt 1) PNone ''srun'' ''siesta'' (PInt 3600)
     [(''A'', ''1''), (''B'', ''2'')] [] [] [] ''1.0'' = Inr e2 \<and> e1 = e2"
  using sample_spec_made
    spec_fingerprint_identifies [OF sample_spec_made, of "\<lambda>q. []" "\<lambda>t. t"] by simp

end
