(* ===== verification/Adapters.thy ===== *)
theory Adapters
  imports CoreRuntime
begin

text \<open>
  The registries that keep launcher and scheduler policy outside the core:
  \<open>src/qraft/execution/adapters.py\<close>. An adapter's factory is the class it builds, given by its
  name; the classes themselves start processes and are not part of this component.
\<close>

datatype preview = PreviewSrun | PreviewMpiNp

record launcher_adapter =
  la_name :: string
  la_command :: "string list"
  la_factory :: string
  la_scheduler :: string
  la_requires_allocation :: bool
  la_requires_hosts :: bool
  la_requires_ppn :: bool
  la_max_ranks :: "int option"
  la_controller_siesta :: bool
  la_version_arguments :: "string list"
  la_probe :: bool
  la_preview :: "preview option"

record scheduler_adapter =
  sa_name :: string
  sa_description :: string
  sa_command :: "string list"
  sa_version_arguments :: "string list"
  sa_markers :: "string list"
  sa_probe :: bool

section \<open>Adapters\<close>

definition validate_launcher_resources :: "launcher_adapter \<Rightarrow> int \<Rightarrow> int \<Rightarrow> unit res" where
  "validate_launcher_resources a ranks nodes =
     (case la_max_ranks a of
        None \<Rightarrow> Inr ()
      | Some m \<Rightarrow>
          if m < ranks
          then Inl (ValueError (la_name a @ '' launcher supports at most '' @ int_str m @ '' MPI rank(s)''))
          else Inr ())"

definition resolved_command :: "launcher_adapter \<Rightarrow> string list \<Rightarrow> string list" where
  "resolved_command a command = (if command = [] then la_command a else command)"

definition preview_srun :: "string list \<Rightarrow> string list \<Rightarrow> string \<Rightarrow> string list \<Rightarrow> int \<Rightarrow> int \<Rightarrow> string list" where
  "preview_srun command arguments executable args ranks cpus =
     command @ arguments @ [''--ntasks='' @ int_str ranks, ''--cpus-per-task='' @ int_str cpus,
       executable] @ args"

definition preview_mpi_np :: "string list \<Rightarrow> string list \<Rightarrow> string \<Rightarrow> string list \<Rightarrow> int \<Rightarrow> int \<Rightarrow> string list" where
  "preview_mpi_np command arguments executable args ranks cpus =
     command @ arguments @ [''-np'', int_str ranks, executable] @ args"

definition preview_command ::
  "launcher_adapter \<Rightarrow> string list \<Rightarrow> string list \<Rightarrow> string \<Rightarrow> string list \<Rightarrow> int \<Rightarrow> int \<Rightarrow> string list" where
  "preview_command a command arguments executable args ranks cpus =
     (let resolved = resolved_command a command in
      case la_preview a of
        Some PreviewSrun \<Rightarrow> preview_srun resolved arguments executable args ranks cpus
      | Some PreviewMpiNp \<Rightarrow> preview_mpi_np resolved arguments executable args ranks cpus
      | None \<Rightarrow> resolved @ arguments @ [executable] @ args)"

section \<open>Registries\<close>

text \<open>
  \<open>LauncherRegistry\<close> and \<open>SchedulerRegistry\<close> have the same code over different adapters; \<open>kind\<close>
  is the word in their messages.
\<close>

definition registry_key :: "string \<Rightarrow> string" where
  "registry_key name = py_lower (py_strip name)"

definition register_adapter :: "string \<Rightarrow> string \<Rightarrow> 'a \<Rightarrow> bool \<Rightarrow> 'a dict \<Rightarrow> 'a dict res" where
  "register_adapter kind name adapter replace reg =
     (let key = registry_key name in
      if key = [] then Inl (ValueError (kind @ '' adapter name must be non-empty''))
      else if map_of reg key \<noteq> None \<and> \<not> replace
      then Inl (ValueError (kind @ '' adapter already registered: '' @ key))
      else Inr (AList.update key adapter reg))"

fun join_text :: "string \<Rightarrow> string list \<Rightarrow> string" where
  "join_text sep [] = []"
| "join_text sep [x] = x"
| "join_text sep (x # y # xs) = x @ sep @ join_text sep (y # xs)"

definition registry_names :: "'a dict \<Rightarrow> string list" where
  "registry_names reg = sort (map fst reg)"

definition require_adapter :: "string \<Rightarrow> string \<Rightarrow> 'a dict \<Rightarrow> 'a res" where
  "require_adapter kind name reg =
     (case map_of reg (registry_key name) of
        Some a \<Rightarrow> Inr a
      | None \<Rightarrow>
          Inl (ValueError (''unknown '' @ kind @ '' adapter: '' @ name @ ''; available: '' @
            (let names = join_text '', '' (registry_names reg) in if names = [] then ''none'' else names))))"

definition register_launcher :: "launcher_adapter \<Rightarrow> launcher_adapter dict \<Rightarrow> launcher_adapter dict res" where
  "register_launcher a reg = register_adapter ''launcher'' (la_name a) a False reg"

definition register_scheduler :: "scheduler_adapter \<Rightarrow> scheduler_adapter dict \<Rightarrow> scheduler_adapter dict res" where
  "register_scheduler a reg = register_adapter ''scheduler'' (sa_name a) a False reg"

fun register_all :: "('a \<Rightarrow> 'a dict \<Rightarrow> 'a dict res) \<Rightarrow> 'a list \<Rightarrow> 'a dict \<Rightarrow> 'a dict res" where
  "register_all f [] reg = Inr reg"
| "register_all f (a # as) reg = rbind (f a reg) (register_all f as)"

definition base_launcher :: launcher_adapter where
  "base_launcher = \<lparr>la_name = [], la_command = [], la_factory = [], la_scheduler = ''local'',
     la_requires_allocation = False, la_requires_hosts = False, la_requires_ppn = False,
     la_max_ranks = None, la_controller_siesta = True, la_version_arguments = [''--version''],
     la_probe = True, la_preview = None\<rparr>"

definition builtin_launchers :: "launcher_adapter list" where
  "builtin_launchers =
     [base_launcher\<lparr>la_name := ''direct'', la_factory := ''DirectLauncher'', la_max_ranks := Some 1,
        la_controller_siesta := False, la_version_arguments := [], la_probe := False\<rparr>,
      base_launcher\<lparr>la_name := ''controller'', la_factory := ''ControllerLauncher'',
        la_requires_hosts := True, la_max_ranks := Some 1, la_controller_siesta := False,
        la_version_arguments := [], la_probe := False\<rparr>,
      base_launcher\<lparr>la_name := ''srun'', la_command := [''srun''], la_factory := ''SrunLauncher'',
        la_scheduler := ''slurm'', la_requires_allocation := True, la_preview := Some PreviewSrun\<rparr>,
      base_launcher\<lparr>la_name := ''hydra'', la_command := [''mpiexec.hydra''], la_factory := ''HydraLauncher'',
        la_scheduler := ''slurm'', la_requires_allocation := True, la_requires_hosts := True,
        la_requires_ppn := True, la_preview := Some PreviewMpiNp\<rparr>,
      base_launcher\<lparr>la_name := ''openmpi'', la_command := [''mpirun''], la_factory := ''OpenMpiLauncher'',
        la_preview := Some PreviewMpiNp\<rparr>]"

definition launcher_registry :: "launcher_adapter dict res" where
  "launcher_registry = register_all register_launcher builtin_launchers []"

definition builtin_schedulers :: "scheduler_adapter list" where
  "builtin_schedulers =
     [\<lparr>sa_name = ''local'', sa_description = ''local process environment'', sa_command = [],
       sa_version_arguments = [''--version''], sa_markers = [], sa_probe = False\<rparr>,
      \<lparr>sa_name = ''slurm'', sa_description = ''SLURM allocation and batch scheduler'',
       sa_command = [''sbatch''], sa_version_arguments = [''--version''],
       sa_markers = [''SLURM_JOB_ID'', ''SLURM_JOB_NODELIST''], sa_probe = True\<rparr>]"

definition scheduler_registry :: "scheduler_adapter dict res" where
  "scheduler_registry = register_all register_scheduler builtin_schedulers []"

section \<open>A name keeps its adapter\<close>

text \<open>Registrations without \<open>replace\<close>, failed ones included.\<close>

definition register_event :: "string \<Rightarrow> string \<times> 'a \<Rightarrow> 'a dict \<Rightarrow> 'a dict" where
  "register_event kind e reg =
     (case register_adapter kind (fst e) (snd e) False reg of Inl _ \<Rightarrow> reg | Inr reg' \<Rightarrow> reg')"

interpretation adapters: write_once map_of "register_event kind" for kind
proof
  fix reg :: "'a dict" and k v e
  assume "map_of reg k = Some v"
  then show "map_of (register_event kind e reg) k = Some v"
    by (auto simp: register_event_def register_adapter_def Let_def split: sum.splits if_splits)
qed

lemma required_adapter_kept:
  assumes "require_adapter kind n reg = Inr a"
  shows "require_adapter kind n (fold (register_event kind) es reg) = Inr a"
proof -
  from assms have "map_of reg (registry_key n) = Some a"
    by (auto simp: require_adapter_def Let_def split: option.splits)
  from adapters.keeps_all [OF this] show ?thesis by (simp add: require_adapter_def)
qed

section \<open>Properties\<close>

text \<open>
  The registry is a dictionary under normalised names. After a registration that
  succeeds, every spelling of the name (case, blanks around it) finds the new adapter, every other
  name finds what it found before, and registering a taken name again without \<open>replace\<close> raises.
\<close>

theorem registry_register_require:
  assumes "register_adapter kind name adapter replace reg = Inr reg'"
  shows "(\<forall>n. registry_key n = registry_key name \<longrightarrow> require_adapter kind n reg' = Inr adapter) \<and>
    (\<forall>n a. registry_key n \<noteq> registry_key name \<longrightarrow>
       (require_adapter kind n reg' = Inr a \<longleftrightarrow> require_adapter kind n reg = Inr a)) \<and>
    register_adapter kind name other False reg' =
      Inl (ValueError (kind @ '' adapter already registered: '' @ registry_key name))"
  using assms
  by (auto simp: register_adapter_def require_adapter_def Let_def split: if_splits option.splits)

theorem registry_register_require_witness:
  "\<exists>reg reg'. launcher_registry = Inr reg \<and>
     register_adapter ''launcher'' '' Custom'' (base_launcher\<lparr>la_name := '' Custom''\<rparr>) False reg = Inr reg' \<and>
     require_adapter ''launcher'' ''CUSTOM'' reg' = Inr (base_launcher\<lparr>la_name := '' Custom''\<rparr>)"
proof -
  obtain reg where reg: "launcher_registry = Inr reg"
    "registry_key '' Custom'' \<noteq> []" "map_of reg (registry_key '' Custom'') = None"
    "registry_key ''CUSTOM'' = registry_key '' Custom''"
  proof -
    have "case launcher_registry of Inl e \<Rightarrow> False
        | Inr reg \<Rightarrow> map_of (map (\<lambda>p. (fst p, ())) reg) (registry_key '' Custom'') = None" by code_simp
    then obtain reg where "launcher_registry = Inr reg" "map_of reg (registry_key '' Custom'') = None"
      by (auto simp: map_of_eq_None_iff image_image comp_def split: sum.splits)
    moreover have "registry_key '' Custom'' \<noteq> []" "registry_key ''CUSTOM'' = registry_key '' Custom''"
      by code_simp+
    ultimately show thesis using that by blast
  qed
  then obtain reg' where "register_adapter ''launcher'' '' Custom''
      (base_launcher\<lparr>la_name := '' Custom''\<rparr>) False reg = Inr reg'"
    by (simp add: register_adapter_def Let_def)
  with registry_register_require [OF this] reg show ?thesis by blast
qed

end
