(* ===== verification/Plugins.thy ===== *)
theory Plugins
  imports Adapters
begin

text \<open>
  Plugin descriptors and the capability registry: \<open>src/qraft/contracts/plugins.py\<close> and the
  integration metadata of \<open>src/qraft/contracts/support.py\<close>. What \<open>callable(getattr(x, m, None))\<close>
  says of an implementation is the parameter \<open>has\<close>; metadata is what a JSON reader returns, on
  which \<open>canonical_primitive\<close> always succeeds (\<open>canonical_obj_of\<close>).
\<close>

section \<open>Integration metadata\<close>

datatype capability_target = LOCAL_LINUX | LOCAL_WSL2 | SSH_HOST | SLURM | WEB | KUBERNETES

datatype cancellation = CANCEL_NONE | CANCEL_SCHEDULER | CANCEL_COOPERATIVE

datatype resume = RESUME_NONE | NATIVE_VERIFIED | NATIVE_ASSERTED

fun target_value :: "capability_target \<Rightarrow> string" where
  "target_value LOCAL_LINUX = ''LOCAL_LINUX''"
| "target_value LOCAL_WSL2 = ''LOCAL_WSL2''"
| "target_value SSH_HOST = ''SSH_HOST''"
| "target_value SLURM = ''SLURM''"
| "target_value WEB = ''WEB''"
| "target_value KUBERNETES = ''KUBERNETES''"

fun cancellation_value :: "cancellation \<Rightarrow> string" where
  "cancellation_value CANCEL_NONE = ''NONE''"
| "cancellation_value CANCEL_SCHEDULER = ''SCHEDULER''"
| "cancellation_value CANCEL_COOPERATIVE = ''COOPERATIVE''"

fun resume_value :: "resume \<Rightarrow> string" where
  "resume_value RESUME_NONE = ''NONE''"
| "resume_value NATIVE_VERIFIED = ''NATIVE_VERIFIED''"
| "resume_value NATIVE_ASSERTED = ''NATIVE_ASSERTED''"

text \<open>The call of an enumeration class on a value: the first member with that value.\<close>

definition enum_member :: "(rat \<Rightarrow> string) \<Rightarrow> string \<Rightarrow> ('e \<Rightarrow> string) \<Rightarrow> 'e list \<Rightarrow> pyval \<Rightarrow> 'e res" where
  "enum_member fr cls value members v =
     (case find (\<lambda>e. v = PStr (value e)) members of
        Some e \<Rightarrow> Inr e
      | None \<Rightarrow> Inl (ValueError (py_repr fr v @ '' is not a valid '' @ cls)))"

definition capability_target :: "(rat \<Rightarrow> string) \<Rightarrow> pyval \<Rightarrow> capability_target res" where
  "capability_target fr = enum_member fr ''CapabilityTarget'' target_value
     [LOCAL_LINUX, LOCAL_WSL2, SSH_HOST, SLURM, WEB, KUBERNETES]"

definition cancellation_support :: "(rat \<Rightarrow> string) \<Rightarrow> pyval \<Rightarrow> cancellation res" where
  "cancellation_support fr = enum_member fr ''CancellationSupport'' cancellation_value
     [CANCEL_NONE, CANCEL_SCHEDULER, CANCEL_COOPERATIVE]"

definition resume_support :: "(rat \<Rightarrow> string) \<Rightarrow> pyval \<Rightarrow> resume res" where
  "resume_support fr = enum_member fr ''ResumeSupport'' resume_value
     [RESUME_NONE, NATIVE_VERIFIED, NATIVE_ASSERTED]"

text \<open>\<open>[A-Z][A-Z0-9_-]*\<close>\<close>

definition mode_code :: "string \<Rightarrow> bool" where
  "mode_code s \<longleftrightarrow> s \<noteq> [] \<and> is_upper (hd s) \<and>
     list_all (\<lambda>c. is_upper c \<or> is_digit c \<or> c = CHR ''_'' \<or> c = CHR ''-'') (tl s)"

record capability_support =
  cs_modes :: "string list"
  cs_targets :: "capability_target list"
  cs_cancel :: cancellation
  cs_resume :: resume
  cs_test_refs :: "string list"
  cs_schema :: string

fun text_of :: "pyval \<Rightarrow> string" where
  "text_of (PStr s) = s"
| "text_of _ = []"

fun is_text :: "pyval \<Rightarrow> bool" where
  "is_text (PStr s) = True"
| "is_text _ = False"

definition capability_support ::
  "pyval list \<Rightarrow> capability_target list \<Rightarrow> cancellation \<Rightarrow> resume \<Rightarrow> pyval list \<Rightarrow> pyval \<Rightarrow> capability_support res" where
  "capability_support modes targets cancel resume refs schema =
     (if schema \<noteq> PStr ''1.0'' then Inl (ValueError ''unsupported integration metadata version'')
      else if list_ex (\<lambda>m. \<not> is_text m \<or> \<not> mode_code (text_of m)) modes
        then Inl (ValueError ''capability modes must be explicit uppercase code strings'')
      else if list_ex (\<lambda>r. \<not> is_text r \<or> py_strip (text_of r) = []) refs
        then Inl (ValueError ''test references must be non-empty strings'')
      else if \<not> distinct modes \<or> \<not> distinct targets \<or> \<not> distinct refs
        then Inl (ValueError ''capability support lists must not contain duplicates'')
      else Inr \<lparr>cs_modes = map text_of modes, cs_targets = targets, cs_cancel = cancel,
                cs_resume = resume, cs_test_refs = map text_of refs, cs_schema = text_of schema\<rparr>)"

definition support_to_mapping :: "capability_support \<Rightarrow> pyval dict" where
  "support_to_mapping s =
     [(''schema_version'', PStr (cs_schema s)), (''modes'', PList (map PStr (cs_modes s))),
      (''targets'', PList (map (PStr \<circ> target_value) (cs_targets s))),
      (''supports'', PDict [(''cancel'', PStr (cancellation_value (cs_cancel s))),
                            (''resume'', PStr (resume_value (cs_resume s)))]),
      (''test_refs'', PList (map PStr (cs_test_refs s)))]"

definition support_from_mapping :: "(rat \<Rightarrow> string) \<Rightarrow> pyval \<Rightarrow> capability_support res" where
  "support_from_mapping fr value =
     (case value of
        PDict d \<Rightarrow>
          if set (map fst d) \<noteq> {''schema_version'', ''modes'', ''targets'', ''supports'', ''test_refs''}
          then Inl (ValueError ''integration metadata fields are missing or unknown'')
          else (case field_or PNone d ''supports'' of
             PDict flags \<Rightarrow>
               if set (map fst flags) \<noteq> {''cancel'', ''resume''}
               then Inl (ValueError ''integration supports fields are missing or unknown'')
               else (case (field_or PNone d ''modes'', field_or PNone d ''targets'', field_or PNone d ''test_refs'') of
                  (PList modes, PList targets, PList refs) \<Rightarrow>
                    rbind (map_res (capability_target fr) targets) (\<lambda>ts.
                    rbind (cancellation_support fr (field_or PNone flags ''cancel'')) (\<lambda>c.
                    rbind (resume_support fr (field_or PNone flags ''resume'')) (\<lambda>r.
                    capability_support modes ts c r refs (field_or PNone d ''schema_version''))))
                | _ \<Rightarrow> Inl (TypeError ''integration modes/targets/test_refs must be JSON arrays''))
           | _ \<Rightarrow> Inl (ValueError ''integration supports fields are missing or unknown''))
      | _ \<Rightarrow> Inl (ValueError ''integration metadata fields are missing or unknown''))"

definition declared_support :: "(rat \<Rightarrow> string) \<Rightarrow> pyval dict \<Rightarrow> capability_support option res" where
  "declared_support fr metadata =
     (case map_of metadata ''qraft.integration'' of
        None \<Rightarrow> Inr None
      | Some v \<Rightarrow> rbind (support_from_mapping fr v) (\<lambda>s. Inr (Some s)))"

section \<open>Descriptors\<close>

datatype capability_kind =
    ENGINE | EXECUTABLE | VALIDATION_RULE | RULE_PROVIDER | LAUNCHER | ARTIFACT_PROCESSOR
  | POSTPROCESSOR | SCHEDULER | WORKFLOW_BUILDER | RECIPE

definition executable_methods :: "string list" where
  "executable_methods = [''inspect_input'', ''validate_input'', ''prepare_task'', ''build_command'',
     ''parse_output'', ''discover_artifacts'', ''classify_result'']"

fun required_methods :: "capability_kind \<Rightarrow> string list" where
  "required_methods ENGINE = executable_methods"
| "required_methods EXECUTABLE = executable_methods"
| "required_methods VALIDATION_RULE = [''evaluate'']"
| "required_methods RULE_PROVIDER = [''rules'']"
| "required_methods LAUNCHER = [''launch'', ''terminate_all'']"
| "required_methods ARTIFACT_PROCESSOR = [''process'']"
| "required_methods POSTPROCESSOR = [''process'']"
| "required_methods SCHEDULER = [''submit'', ''status'']"
| "required_methods WORKFLOW_BUILDER = [''build_task'']"
| "required_methods RECIPE = [''build_workflow'']"

record capability_descriptor =
  cd_id :: string
  cd_kind :: capability_kind
  cd_version :: string
  cd_inputs :: "contract_ref list"
  cd_outputs :: "contract_ref list"
  cd_engine :: "string option"
  cd_metadata :: "pyval dict"

text \<open>
  The constructor checks the identifier with \<open>require_namespaced_identifier\<close> and keeps the text it
  was given, not the stripped one.
\<close>

definition capability_descriptor ::
  "(rat \<Rightarrow> string) \<Rightarrow> string \<Rightarrow> capability_kind \<Rightarrow> string \<Rightarrow> contract_ref list \<Rightarrow> contract_ref list \<Rightarrow> string option \<Rightarrow>
   pyval dict \<Rightarrow> capability_descriptor res" where
  "capability_descriptor fr cid kind version inputs outputs engine metadata =
     rbind (require_namespaced_identifier cid ''capability_id'') (\<lambda>_.
     if py_strip version = [] then Inl (ValueError ''implementation_version must be non-empty'')
     else if inputs = [] \<and> outputs = []
       then Inl (ValueError ''capabilities must declare at least one contract'')
     else rbind (canonical_primitive (obj_of (PDict metadata))) (\<lambda>_.
       rbind (declared_support fr metadata) (\<lambda>_.
       Inr \<lparr>cd_id = cid, cd_kind = kind, cd_version = version, cd_inputs = inputs,
            cd_outputs = outputs, cd_engine = engine, cd_metadata = metadata\<rparr>)))"

record plugin_descriptor =
  pd_id :: string
  pd_version :: string
  pd_core :: contract_version
  pd_capabilities :: "capability_descriptor list"
  pd_provider :: string
  pd_metadata :: "pyval dict"

definition plugin_descriptor ::
  "string \<Rightarrow> string \<Rightarrow> contract_version \<Rightarrow> capability_descriptor list \<Rightarrow> string \<Rightarrow> pyval dict \<Rightarrow>
   plugin_descriptor res" where
  "plugin_descriptor pid version core caps provider metadata =
     rbind (require_namespaced_identifier pid ''plugin_id'') (\<lambda>_.
     if py_strip version = [] \<or> py_strip provider = []
       then Inl (ValueError ''plugins require version and provider'')
     else let identifiers = map cd_id caps in
       if identifiers = [] \<or> length (remdups identifiers) \<noteq> length identifiers
       then Inl (ValueError ''plugin capability identifiers must be non-empty and unique'')
       else rbind (canonical_primitive (obj_of (PDict metadata))) (\<lambda>_.
         Inr \<lparr>pd_id = pid, pd_version = version, pd_core = core, pd_capabilities = caps,
              pd_provider = provider, pd_metadata = metadata\<rparr>))"

section \<open>The registry\<close>

record 'i registered_capability =
  rc_plugin :: plugin_descriptor
  rc_descriptor :: capability_descriptor
  rc_implementation :: 'i

record 'i registry =
  rg_core :: contract_version
  rg_capabilities :: "'i registered_capability dict"
  rg_plugins :: "plugin_descriptor dict"
  rg_frozen :: bool

definition new_registry :: "contract_version \<Rightarrow> 'i registry" where
  "new_registry core = \<lparr>rg_core = core, rg_capabilities = [], rg_plugins = [], rg_frozen = False\<rparr>"

text \<open>\<open>str\<close> of a list of strings.\<close>

definition repr_strs :: "string list \<Rightarrow> string" where
  "repr_strs xs = ''['' @ join_text '', '' (map repr_str xs) @ '']''"

definition missing_methods :: "('i \<Rightarrow> string \<Rightarrow> bool) \<Rightarrow> 'i \<Rightarrow> string list \<Rightarrow> string list" where
  "missing_methods has i methods = filter (\<lambda>m. \<not> has i m) methods"

fun check_capabilities ::
  "('i \<Rightarrow> string \<Rightarrow> bool) \<Rightarrow> 'i registered_capability dict \<Rightarrow> 'i dict \<Rightarrow> capability_descriptor list \<Rightarrow> unit res" where
  "check_capabilities has caps impls [] = Inr ()"
| "check_capabilities has caps impls (d # ds) =
     (if map_of caps (cd_id d) \<noteq> None
      then Inl (ValueError (''capability already registered: '' @ cd_id d))
      else (case map_of impls (cd_id d) of
         None \<Rightarrow> Inl (KeyError (cd_id d))
       | Some i \<Rightarrow>
           let missing = missing_methods has i (required_methods (cd_kind d)) in
           if missing \<noteq> []
           then Inl (TypeError (cd_id d @ '' lacks required methods: '' @ repr_strs missing))
           else check_capabilities has caps impls ds))"

definition check_plugin ::
  "('i \<Rightarrow> string \<Rightarrow> bool) \<Rightarrow> 'i registry \<Rightarrow> plugin_descriptor \<Rightarrow> 'i dict \<Rightarrow> unit res" where
  "check_plugin has reg p impls =
     (if rg_frozen reg then Inl (RuntimeError ''capability registry is frozen'')
      else rbind (require_supports (rg_core reg) (pd_core p)) (\<lambda>_.
        if map_of (rg_plugins reg) (pd_id p) \<noteq> None
        then Inl (ValueError (''plugin already registered: '' @ pd_id p))
        else let expected = map cd_id (pd_capabilities p) in
          if set (map fst impls) \<noteq> set expected
          then Inl (ValueError (''plugin implementation mismatch: '' @ repr_strs
                 (sort (filter (\<lambda>k. k \<notin> set expected) (map fst impls) @
                        filter (\<lambda>k. k \<notin> set (map fst impls)) (remdups expected)))))
          else check_capabilities has (rg_capabilities reg) impls (pd_capabilities p)))"

definition store_capability ::
  "plugin_descriptor \<Rightarrow> 'i dict \<Rightarrow> capability_descriptor \<Rightarrow> 'i registered_capability dict \<Rightarrow>
   'i registered_capability dict" where
  "store_capability p impls d caps =
     AList.update (cd_id d)
       \<lparr>rc_plugin = p, rc_descriptor = d, rc_implementation = the (map_of impls (cd_id d))\<rparr> caps"

text \<open>A raise leaves the registry as the code leaves it: the result carries both.\<close>

definition register_plugin ::
  "('i \<Rightarrow> string \<Rightarrow> bool) \<Rightarrow> plugin_descriptor \<Rightarrow> 'i dict \<Rightarrow> 'i registry \<Rightarrow> exn option \<times> 'i registry" where
  "register_plugin has p impls reg =
     (case check_plugin has reg p impls of
        Inl e \<Rightarrow> (Some e, reg)
      | Inr _ \<Rightarrow>
          (let reg1 = reg\<lparr>rg_plugins := AList.update (pd_id p) p (rg_plugins reg)\<rparr> in
           (None, reg1\<lparr>rg_capabilities :=
              fold (store_capability p impls) (pd_capabilities p) (rg_capabilities reg1)\<rparr>)))"

fun require_contracts :: "contract_ref list \<Rightarrow> contract_ref list \<Rightarrow> string \<Rightarrow> unit res" where
  "require_contracts provided [] label = Inr ()"
| "require_contracts provided (r # rs) label =
     (if \<not> list_ex (\<lambda>item. satisfies item r) provided
      then Inl (ValueError (''capability does not provide required '' @ label @ '' contract '' @ ref_str r))
      else require_contracts provided rs label)"

definition resolve_capability ::
  "'i registry \<Rightarrow> string \<Rightarrow> contract_ref list \<Rightarrow> contract_ref list \<Rightarrow> 'i registered_capability res" where
  "resolve_capability reg cid inputs outputs =
     (case map_of (rg_capabilities reg) cid of
        None \<Rightarrow> Inl (KeyError (''unknown capability: '' @ cid))
      | Some c \<Rightarrow>
          rbind (require_contracts (cd_inputs (rc_descriptor c)) inputs ''input'') (\<lambda>_.
          rbind (require_contracts (cd_outputs (rc_descriptor c)) outputs ''output'') (\<lambda>_. Inr c)))"

definition freeze :: "'i registry \<Rightarrow> 'i registry" where
  "freeze reg = reg\<lparr>rg_frozen := True\<rparr>"

definition plugin_ids :: "'i registry \<Rightarrow> string list" where
  "plugin_ids reg = sort (map fst (rg_plugins reg))"

definition descriptors :: "'i registry \<Rightarrow> capability_kind option \<Rightarrow> capability_descriptor list" where
  "descriptors reg kind =
     sort_key cd_id (filter (\<lambda>d. kind = None \<or> kind = Some (cd_kind d))
       (map (rc_descriptor \<circ> snd) (rg_capabilities reg)))"

section \<open>Integration metadata: round trip\<close>

lemma enum_member_value:
  assumes e: "e \<in> set members" and inj: "inj_on value (set members)"
  shows "enum_member fr cls value members (PStr (value e)) = Inr e"
proof -
  have "find (\<lambda>x. PStr (value e) = PStr (value x)) xs = Some e"
    if "e \<in> set xs" "\<And>x. x \<in> set xs \<Longrightarrow> value x = value e \<Longrightarrow> x = e" for xs
    using that by (induction xs) auto
  with inj e have "find (\<lambda>x. PStr (value e) = PStr (value x)) members = Some e"
    by (metis inj_onD)
  then show ?thesis by (simp add: enum_member_def)
qed

lemma capability_target_value [simp]: "capability_target fr (PStr (target_value t)) = Inr t"
  unfolding capability_target_def
  by (rule enum_member_value, cases t) (simp_all add: inj_on_def)

lemma cancellation_support_value [simp]: "cancellation_support fr (PStr (cancellation_value c)) = Inr c"
  unfolding cancellation_support_def
  by (rule enum_member_value, cases c) (simp_all add: inj_on_def)

lemma resume_support_value [simp]: "resume_support fr (PStr (resume_value r)) = Inr r"
  unfolding resume_support_def
  by (rule enum_member_value, cases r) (simp_all add: inj_on_def)

lemma map_res_targets [simp]: "map_res (capability_target fr) (map (PStr \<circ> target_value) ts) = Inr ts"
  by (induction ts) simp_all

lemma texts_of: "list_all is_text vs \<Longrightarrow> map PStr (map text_of vs) = vs"
  by (induction vs) (auto elim: is_text.elims)

lemma capability_support_again:
  assumes "capability_support modes ts c r refs v = Inr s"
  shows "capability_support (map PStr (cs_modes s)) (cs_targets s) (cs_cancel s) (cs_resume s)
    (map PStr (cs_test_refs s)) (PStr (cs_schema s)) = Inr s"
proof -
  have t: "list_all is_text modes" "list_all is_text refs" "is_text v"
    using assms by (auto simp: capability_support_def list_all_iff list_ex_iff split: if_splits)
  from t(3) have v: "PStr (text_of v) = v" by (cases v) simp_all
  from assms have s: "cs_modes s = map text_of modes" "cs_targets s = ts" "cs_cancel s = c"
    "cs_resume s = r" "cs_test_refs s = map text_of refs" "cs_schema s = text_of v"
    by (auto simp: capability_support_def split: if_splits)
  show ?thesis
    unfolding s texts_of [OF t(1)] texts_of [OF t(2)] v by (rule assms)
qed

text \<open>
  The integration metadata of a capability survives its JSON form: every support value
  the constructor accepts is read back unchanged from the mapping \<open>to_mapping\<close> writes, so nothing a
  capability declares about targets, cancellation or resumption is lost or gained on the way.
\<close>

theorem support_mapping_roundtrip:
  assumes "capability_support modes ts c r refs v = Inr s"
  shows "support_from_mapping fr (PDict (support_to_mapping s)) = Inr s"
proof -
  have k: "set (map fst (support_to_mapping s)) =
      {''schema_version'', ''modes'', ''targets'', ''supports'', ''test_refs''}"
    by (auto simp: support_to_mapping_def)
  have f: "field_or PNone (support_to_mapping s) ''supports'' =
      PDict [(''cancel'', PStr (cancellation_value (cs_cancel s))), (''resume'', PStr (resume_value (cs_resume s)))]"
    "field_or PNone (support_to_mapping s) ''modes'' = PList (map PStr (cs_modes s))"
    "field_or PNone (support_to_mapping s) ''targets'' = PList (map (PStr \<circ> target_value) (cs_targets s))"
    "field_or PNone (support_to_mapping s) ''test_refs'' = PList (map PStr (cs_test_refs s))"
    "field_or PNone (support_to_mapping s) ''schema_version'' = PStr (cs_schema s)"
    by (simp_all add: support_to_mapping_def field_or_def)
  have g: "field_or PNone [(''cancel'', a), (''resume'', b)] ''cancel'' = a"
    "field_or PNone [(''cancel'', a), (''resume'', b)] ''resume'' = b" for a b
    by (simp_all add: field_or_def)
  show ?thesis
    unfolding support_from_mapping_def k f pyval.case prod.case
    by (simp add: g capability_support_again [OF assms])
qed

section \<open>The registry while it is composed\<close>

text \<open>The operations of the composition phase as events.\<close>

datatype 'i registry_event =
    Register plugin_descriptor "'i dict"
  | Freeze

fun registry_step :: "('i \<Rightarrow> string \<Rightarrow> bool) \<Rightarrow> 'i registry_event \<Rightarrow> 'i registry \<Rightarrow> 'i registry" where
  "registry_step has (Register p impls) reg = snd (register_plugin has p impls reg)"
| "registry_step has Freeze reg = freeze reg"

lemma store_capabilities_other:
  "k \<notin> cd_id ` set ds \<Longrightarrow> map_of (fold (store_capability p impls) ds caps) k = map_of caps k"
  by (induction ds arbitrary: caps) (auto simp: store_capability_def)

lemma store_capabilities_new:
  assumes "distinct (map cd_id ds)" "d \<in> set ds"
  shows "map_of (fold (store_capability p impls) ds caps) (cd_id d) =
    Some \<lparr>rc_plugin = p, rc_descriptor = d, rc_implementation = the (map_of impls (cd_id d))\<rparr>"
  using assms
proof (induction ds arbitrary: caps)
  case (Cons c ds)
  show ?case
  proof (cases "d = c")
    case True
    with Cons.prems(1) have "cd_id d \<notin> cd_id ` set ds" by auto
    with True show ?thesis by (simp add: store_capabilities_other) (simp add: store_capability_def)
  next
    case False
    with Cons show ?thesis by simp
  qed
qed simp

lemma store_capabilities_dict_ok:
  "dict_ok caps \<Longrightarrow> dict_ok (fold (store_capability p impls) ds caps)"
  by (induction ds arbitrary: caps) (auto simp: store_capability_def)

lemma check_capabilities_Inr:
  "check_capabilities has caps impls ds = Inr () \<longleftrightarrow>
     (\<forall>d \<in> set ds. map_of caps (cd_id d) = None \<and>
        (\<exists>i. map_of impls (cd_id d) = Some i \<and> (\<forall>m \<in> set (required_methods (cd_kind d)). has i m)))"
  by (induction ds) (auto simp: Let_def missing_methods_def filter_empty_conv split: option.splits)

lemma register_plugin_Some: "register_plugin has p impls reg = (Some e, reg') \<Longrightarrow> reg' = reg"
  by (auto simp: register_plugin_def Let_def split: sum.splits)

lemma register_plugin_None:
  assumes "register_plugin has p impls reg = (None, reg')"
  shows "\<not> rg_frozen reg" "supports (rg_core reg) (pd_core p)" "map_of (rg_plugins reg) (pd_id p) = None"
    "\<forall>d \<in> set (pd_capabilities p). map_of (rg_capabilities reg) (cd_id d) = None \<and>
        (\<exists>i. map_of impls (cd_id d) = Some i \<and> (\<forall>m \<in> set (required_methods (cd_kind d)). has i m))"
    "reg' = reg\<lparr>rg_plugins := AList.update (pd_id p) p (rg_plugins reg),
       rg_capabilities := fold (store_capability p impls) (pd_capabilities p) (rg_capabilities reg)\<rparr>"
  using assms
  by (auto simp: register_plugin_def check_plugin_def Let_def rbind_Inr_iff require_supports_def
      check_capabilities_Inr split: sum.splits if_splits)

lemma registry_step_cases:
  obtains "registry_step has e reg = reg"
  | "registry_step has e reg = freeze reg"
  | p impls where "e = Register p impls" "register_plugin has p impls reg = (None, registry_step has e reg)"
proof (cases e)
  case (Register p impls)
  obtain x reg' where "register_plugin has p impls reg = (x, reg')" by (cases "register_plugin has p impls reg")
  with Register that(1,3) register_plugin_Some [of has p impls reg] show thesis
    by (cases x) auto
qed (use that(2) in simp)

interpretation caps: write_once "\<lambda>reg :: 'i registry. map_of (rg_capabilities reg)" "registry_step has"
  for has :: "'i \<Rightarrow> string \<Rightarrow> bool"
proof
  fix reg :: "'i registry" and k v e
  assume l: "map_of (rg_capabilities reg) k = Some v"
  show "map_of (rg_capabilities (registry_step has e reg)) k = Some v"
  proof (cases rule: registry_step_cases [of has e reg])
    case (3 p impls)
    note r = register_plugin_None [OF 3(2)]
    have "k \<notin> cd_id ` set (pd_capabilities p)" using r(4) l by auto
    then show ?thesis using l by (simp add: r(5) store_capabilities_other)
  qed (simp_all add: l freeze_def)
qed

interpretation plugs: write_once "\<lambda>reg :: 'i registry. map_of (rg_plugins reg)" "registry_step has"
  for has :: "'i \<Rightarrow> string \<Rightarrow> bool"
proof
  fix reg :: "'i registry" and k v e
  assume l: "map_of (rg_plugins reg) k = Some v"
  show "map_of (rg_plugins (registry_step has e reg)) k = Some v"
  proof (cases rule: registry_step_cases [of has e reg])
    case (3 p impls)
    from register_plugin_None(3,5) [OF 3(2)] l show ?thesis by auto
  qed (simp_all add: l freeze_def)
qed

section \<open>The invariant of the registry\<close>

definition plugin_ok :: "plugin_descriptor \<Rightarrow> bool" where
  "plugin_ok p \<longleftrightarrow> contract_name (py_strip (pd_id p)) \<and> pd_capabilities p \<noteq> [] \<and>
     distinct (map cd_id (pd_capabilities p))"

lemma plugin_descriptor_ok:
  assumes "plugin_descriptor pid version core cs provider metadata = Inr p"
  shows "plugin_ok p"
  using assms
  by (auto simp: plugin_descriptor_def plugin_ok_def Let_def rbind_Inr_iff length_remdups_card_conv
      card_distinct require_namespaced_identifier_Inr split: if_splits)

definition entry_ok :: "('i \<Rightarrow> string \<Rightarrow> bool) \<Rightarrow> 'i registry \<Rightarrow> string \<Rightarrow> 'i registered_capability \<Rightarrow> bool" where
  "entry_ok has reg k c \<longleftrightarrow>
     k = cd_id (rc_descriptor c) \<and> rc_descriptor c \<in> set (pd_capabilities (rc_plugin c)) \<and>
     map_of (rg_plugins reg) (pd_id (rc_plugin c)) = Some (rc_plugin c) \<and>
     (\<forall>m \<in> set (required_methods (cd_kind (rc_descriptor c))). has (rc_implementation c) m)"

definition plugin_entry_ok :: "'i registry \<Rightarrow> string \<Rightarrow> plugin_descriptor \<Rightarrow> bool" where
  "plugin_entry_ok reg k p \<longleftrightarrow>
     k = pd_id p \<and> supports (rg_core reg) (pd_core p) \<and>
     (\<forall>d \<in> set (pd_capabilities p).
        \<exists>c. map_of (rg_capabilities reg) (cd_id d) = Some c \<and> rc_plugin c = p \<and> rc_descriptor c = d)"

definition registry_ok :: "('i \<Rightarrow> string \<Rightarrow> bool) \<Rightarrow> 'i registry \<Rightarrow> bool" where
  "registry_ok has reg \<longleftrightarrow>
     (\<forall>k c. map_of (rg_capabilities reg) k = Some c \<longrightarrow> entry_ok has reg k c) \<and>
     (\<forall>k p. map_of (rg_plugins reg) k = Some p \<longrightarrow> plugin_entry_ok reg k p)"

fun event_ok :: "'i registry_event \<Rightarrow> bool" where
  "event_ok (Register p impls) = plugin_ok p"
| "event_ok Freeze = True"

lemma registry_ok_new: "registry_ok has (new_registry core)"
  by (simp add: registry_ok_def new_registry_def)

lemma fold_store_lookup:
  assumes "distinct (map cd_id ds)"
  shows "map_of (fold (store_capability p impls) ds cs) k =
    (case find (\<lambda>d. cd_id d = k) ds of
       None \<Rightarrow> map_of cs k
     | Some d \<Rightarrow> Some \<lparr>rc_plugin = p, rc_descriptor = d, rc_implementation = the (map_of impls k)\<rparr>)"
proof (cases "find (\<lambda>d. cd_id d = k) ds")
  case None
  then have "k \<notin> cd_id ` set ds" by (auto simp: find_None_iff)
  with None show ?thesis by (simp add: store_capabilities_other)
next
  case (Some d)
  then have "d \<in> set ds" "cd_id d = k" by (auto simp: find_Some_iff)
  with store_capabilities_new [OF assms this(1)] Some show ?thesis by auto
qed

lemma registry_ok_register:
  assumes ok: "registry_ok has reg" and p: "plugin_ok p"
    and r: "register_plugin has p impls reg = (None, reg')"
  shows "registry_ok has reg'"
proof -
  note n = register_plugin_None [OF r]
  have d: "distinct (map cd_id (pd_capabilities p))" using p by (simp add: plugin_ok_def)
  have caps: "map_of (rg_capabilities reg') k =
    (case find (\<lambda>d. cd_id d = k) (pd_capabilities p) of
       None \<Rightarrow> map_of (rg_capabilities reg) k
     | Some d \<Rightarrow> Some \<lparr>rc_plugin = p, rc_descriptor = d, rc_implementation = the (map_of impls k)\<rparr>)" for k
    by (simp add: n(5) fold_store_lookup [OF d])
  have plugs: "map_of (rg_plugins reg') k = (if k = pd_id p then Some p else map_of (rg_plugins reg) k)" for k
    by (simp add: n(5))
  have core: "rg_core reg' = rg_core reg" by (simp add: n(5))
  have entry: "entry_ok has reg' k c" if c: "map_of (rg_capabilities reg') k = Some c" for k c
  proof (cases "find (\<lambda>d. cd_id d = k) (pd_capabilities p)")
    case None
    with c caps have "map_of (rg_capabilities reg) k = Some c" by simp
    with ok have e: "entry_ok has reg k c" by (simp add: registry_ok_def)
    with n(3) have "pd_id (rc_plugin c) \<noteq> pd_id p" by (auto simp: entry_ok_def)
    with e show ?thesis by (simp add: entry_ok_def plugs)
  next
    case (Some d)
    then have d: "d \<in> set (pd_capabilities p)" "cd_id d = k" by (auto simp: find_Some_iff)
    from n(4) d obtain i where "map_of impls k = Some i" "\<forall>m \<in> set (required_methods (cd_kind d)). has i m"
      by blast
    with Some c caps [of k] d show ?thesis by (auto simp: entry_ok_def plugs)
  qed
  have plugin: "plugin_entry_ok reg' k q" if q: "map_of (rg_plugins reg') k = Some q" for k q
  proof (cases "k = pd_id p")
    case True
    with q plugs have q: "q = p" by simp
    have "\<exists>c. map_of (rg_capabilities reg') (cd_id d) = Some c \<and> rc_plugin c = p \<and> rc_descriptor c = d"
      if "d \<in> set (pd_capabilities p)" for d
      using store_capabilities_new [OF d that, of p impls "rg_capabilities reg"] by (simp add: n(5))
    with True q n(2) show ?thesis by (simp add: plugin_entry_ok_def core)
  next
    case False
    with q plugs have "map_of (rg_plugins reg) k = Some q" by simp
    with ok have e: "plugin_entry_ok reg k q" by (simp add: registry_ok_def)
    have "map_of (rg_capabilities reg') j = Some c" if "map_of (rg_capabilities reg) j = Some c" for j c
      using caps.keeps [of reg j c has "Register p impls"] that r by simp
    with e show ?thesis by (fastforce simp: plugin_entry_ok_def core)
  qed
  from entry plugin show ?thesis by (simp add: registry_ok_def)
qed

lemma registry_ok_step:
  assumes "registry_ok has reg" "event_ok e"
  shows "registry_ok has (registry_step has e reg)"
proof (cases rule: registry_step_cases [of has e reg])
  case (3 p impls)
  from assms(2) 3(1) have "plugin_ok p" by simp
  from registry_ok_register [OF assms(1) this 3(2)] show ?thesis .
qed (use assms in \<open>simp_all add: registry_ok_def entry_ok_def plugin_entry_ok_def freeze_def\<close>)

lemma registry_ok_run:
  "registry_ok has reg \<Longrightarrow> list_all event_ok es \<Longrightarrow> registry_ok has (fold (registry_step has) es reg)"
  by (induction es arbitrary: reg) (simp_all add: registry_ok_step)

lemma require_contracts_Inr:
  "require_contracts provided rs label = Inr () \<longleftrightarrow> (\<forall>r \<in> set rs. \<exists>item \<in> set provided. satisfies item r)"
  by (induction rs) (auto simp: list_ex_iff)

lemma resolve_capability_Inr:
  "resolve_capability reg cid ins outs = Inr c \<longleftrightarrow>
     map_of (rg_capabilities reg) cid = Some c \<and>
     (\<forall>r \<in> set ins. \<exists>item \<in> set (cd_inputs (rc_descriptor c)). satisfies item r) \<and>
     (\<forall>r \<in> set outs. \<exists>item \<in> set (cd_outputs (rc_descriptor c)). satisfies item r)"
  by (auto simp: resolve_capability_def rbind_Inr_iff require_contracts_Inr split: option.splits)

text \<open>
  Property C17. What the registry hands out can be used and does not change. Whatever plugins were
  offered to it, accepted or not, a capability that resolves under an identifier is the one a
  registered plugin declares under it, that plugin's core contract is supported, the implementation
  has every method its kind requires, and it offers contracts that satisfy all required ones; after
  any further registrations and a freeze the same call still returns the same capability.
\<close>

theorem resolved_capability_sound_and_stable:
  assumes "list_all event_ok es"
    and "resolve_capability (fold (registry_step has) es (new_registry core)) cid ins outs = Inr c"
  shows "cd_id (rc_descriptor c) = cid \<and> rc_descriptor c \<in> set (pd_capabilities (rc_plugin c)) \<and>
    supports core (pd_core (rc_plugin c)) \<and>
    (\<forall>m \<in> set (required_methods (cd_kind (rc_descriptor c))). has (rc_implementation c) m) \<and>
    (\<forall>r \<in> set ins. \<exists>item \<in> set (cd_inputs (rc_descriptor c)). satisfies item r) \<and>
    (\<forall>r \<in> set outs. \<exists>item \<in> set (cd_outputs (rc_descriptor c)). satisfies item r) \<and>
    (\<forall>fs. resolve_capability (fold (registry_step has) (es @ fs) (new_registry core)) cid ins outs = Inr c)"
proof -
  let ?reg = "fold (registry_step has) es (new_registry core)"
  have ok: "registry_ok has ?reg" by (rule registry_ok_run [OF registry_ok_new assms(1)])
  have "rg_core (registry_step has e r) = rg_core r" for e r
  proof (cases rule: registry_step_cases [of has e r])
    case (3 p impls)
    from register_plugin_None(5) [OF 3(2)] show ?thesis by (simp del: registry_step.simps)
  qed (simp_all add: freeze_def)
  then have core: "rg_core (fold (registry_step has) es r) = rg_core r" for r
    by (induction es arbitrary: r) simp_all
  from assms(2) have c: "map_of (rg_capabilities ?reg) cid = Some c" by (simp add: resolve_capability_Inr)
  with ok have e: "entry_ok has ?reg cid c" by (simp add: registry_ok_def)
  then have "map_of (rg_plugins ?reg) (pd_id (rc_plugin c)) = Some (rc_plugin c)" by (simp add: entry_ok_def)
  with ok have "plugin_entry_ok ?reg (pd_id (rc_plugin c)) (rc_plugin c)" by (simp add: registry_ok_def)
  then have s: "supports core (pd_core (rc_plugin c))"
    by (simp add: plugin_entry_ok_def core) (simp add: new_registry_def)
  have "map_of (rg_capabilities (fold (registry_step has) (es @ fs) (new_registry core))) cid = Some c" for fs
    using caps.keeps_all [OF c, of has fs] by simp
  with e s assms(2) show ?thesis unfolding resolve_capability_Inr entry_ok_def by auto
qed


end
