(* ===== verification/WorkflowLock.thy ===== *)
theory WorkflowLock
  imports WorkflowResolver Plugins
begin

text \<open>
  The locks a preparation writes and an execution reads: \<open>CompiledWorkflow.payload\<close> and
  \<open>envelope\<close> of \<open>src/qraft/contracts/workflow.py\<close>, \<open>PreparedRun\<close> of \<open>contracts/run.py\<close>, the
  catalogue of \<open>contracts/catalog.py\<close> and the strict loader \<open>src/qraft/workflows/lock_loader.py\<close>.
  What reading and parsing the file gives is the parameter \<open>read\<close>; SHA-256 is \<open>sha\<close>, the \<open>repr\<close> of
  floats \<open>fr\<close>.
\<close>

section \<open>The catalogue\<close>

definition core_contract_version :: contract_version where
  "core_contract_version = ContractVersion 1 0"

definition workflow_lock :: contract_ref where
  "workflow_lock = ContractRef ''siestaflow.workflow-lock'' core_contract_version"

definition run_lock :: contract_ref where
  "run_lock = ContractRef ''siestaflow.run-lock'' core_contract_version"

definition execution_request_ref :: contract_ref where
  "execution_request_ref = ContractRef ''siestaflow.execution-request'' core_contract_version"

definition execution_evidence_ref :: contract_ref where
  "execution_evidence_ref = ContractRef ''siestaflow.execution-evidence'' core_contract_version"

section \<open>Equality of JSON values\<close>

text \<open>
  Python's \<open>==\<close> on parsed JSON: numbers compare by value (\<open>1 == 1.0 == True\<close>), dictionaries
  without regard to order.
\<close>

fun number_value :: "pyval \<Rightarrow> rat option" where
  "number_value (PBool b) = Some (if b then 1 else 0)"
| "number_value (PInt n) = Some (of_int n)"
| "number_value (PFloat q) = Some q"
| "number_value _ = None"

lemma size_item: "size_prod (\<lambda>x. 0) size = (\<lambda>p. Suc (size (snd p)))"
  by (rule ext) (simp add: size_prod_simp split: prod.splits)

function (sequential) py_eq :: "pyval \<Rightarrow> pyval \<Rightarrow> bool"
and py_eq_list :: "pyval list \<Rightarrow> pyval list \<Rightarrow> bool"
and py_eq_items :: "pyval dict \<Rightarrow> pyval dict \<Rightarrow> bool" where
  "py_eq PNone w = (w = PNone)"
| "py_eq (PStr s) w = (w = PStr s)"
| "py_eq (PList xs) w = (case w of PList ys \<Rightarrow> py_eq_list xs ys | _ \<Rightarrow> False)"
| "py_eq (PDict d) w = (case w of PDict e \<Rightarrow> length d = length e \<and> py_eq_items d e | _ \<Rightarrow> False)"
| "py_eq v w = (number_value w = number_value v)"
| "py_eq_list [] ys = (ys = [])"
| "py_eq_list (x # xs) ys = (case ys of [] \<Rightarrow> False | y # ys' \<Rightarrow> py_eq x y \<and> py_eq_list xs ys')"
| "py_eq_items [] e = True"
| "py_eq_items ((k, v) # d) e =
     (case map_of e k of None \<Rightarrow> False | Some w \<Rightarrow> py_eq v w \<and> py_eq_items d e)"
  by pat_completeness auto
termination
  by (relation "measure (\<lambda>s. case s of Inl (v, w) \<Rightarrow> size v
       | Inr (Inl (xs, ys)) \<Rightarrow> size_list size xs
       | Inr (Inr (d, e)) \<Rightarrow> size_list (\<lambda>p. Suc (size (snd p))) d)")
    (auto simp: size_list_conv_sum_list size_item)

section \<open>Payloads\<close>

fun task_kind_value :: "workflow_task_kind \<Rightarrow> string" where
  "task_kind_value CALCULATION = ''calculation''"
| "task_kind_value TRANSFORMATION = ''transformation''"
| "task_kind_value VALIDATION = ''validation''"
| "task_kind_value SWEEP = ''sweep''"
| "task_kind_value SELECTION = ''selection''"
| "task_kind_value CHECKPOINT = ''checkpoint''"
| "task_kind_value POSTPROCESS = ''postprocess''"
| "task_kind_value COMPARISON = ''comparison''"
| "task_kind_value EXPORT = ''export''"
| "task_kind_value EXTERNAL = ''external''"


fun role_value :: "artifact_role \<Rightarrow> string" where
  "role_value INPUT = ''INPUT''"
| "role_value OUTPUT = ''OUTPUT''"
| "role_value RESTART = ''RESTART''"
| "role_value GEOMETRY = ''GEOMETRY''"
| "role_value DENSITY = ''DENSITY''"
| "role_value PSEUDOPOTENTIAL = ''PSEUDOPOTENTIAL''"
| "role_value EVIDENCE = ''EVIDENCE''"
| "role_value REPORT = ''REPORT''"
| "role_value OTHER = ''OTHER''"

definition opt_obj :: "string option \<Rightarrow> pyobj" where
  "opt_obj s = (case s of None \<Rightarrow> ONone | Some t \<Rightarrow> OStr t)"

definition binding_obj :: "input_binding \<Rightarrow> pyobj" where
  "binding_obj b = OData
     [(''name'', OStr (in_name b)), (''destination'', OStr (in_destination b)),
      (''media_type'', OStr (in_media_type b)), (''external_artifact_id'', opt_obj (in_external b)),
      (''source_task_id'', opt_obj (in_source_task b)),
      (''source_output_name'', opt_obj (in_source_output b))]"

definition port_obj :: "output_port \<Rightarrow> pyobj" where
  "port_obj p = OData
     [(''name'', OStr (out_name p)), (''relative_path'', OStr (out_path p)),
      (''artifact_type'', OStr (out_artifact_type p)), (''media_type'', OStr (out_media_type p)),
      (''required'', OBool (out_required p))]"

definition edge_obj :: "workflow_edge \<Rightarrow> pyobj" where
  "edge_obj e = OData
     [(''source_task_id'', OStr (e_source e)), (''target_task_id'', OStr (e_target e)),
      (''kind'', OEnum (OStr (kind_str (e_kind e)))), (''source_output_name'', opt_obj (e_output e)),
      (''target_input_name'', opt_obj (e_input e))]"

definition node_obj :: "task_node \<Rightarrow> pyobj" where
  "node_obj n = OData
     [(''task_id'', OStr (node_id n)), (''kind'', OEnum (OStr (task_kind_value (node_kind n)))),
      (''capability_id'', OStr (node_capability n)),
      (''dependencies'', OSeq (map OStr (node_dependencies n))),
      (''inputs'', OSeq (map binding_obj (node_inputs n))),
      (''outputs'', OSeq (map port_obj (node_outputs n))),
      (''resources'', node_resources n), (''settings'', node_settings n)]"

definition artifact_obj :: "artifact_reference \<Rightarrow> pyobj" where
  "artifact_obj a = OData
     [(''artifact_id'', OStr (art_id a)), (''role'', OEnum (OStr (role_value (art_role a)))),
      (''relative_path'', OStr (art_path a)), (''sha256'', OStr (art_sha256 a)),
      (''size_bytes'', OInt (art_size a)), (''media_type'', OStr (art_media_type a)),
      (''producer_task_id'', opt_obj (art_producer_task a)),
      (''producer_attempt_id'', opt_obj (art_producer_attempt a)), (''metadata'', art_metadata a)]"

definition workflow_payload :: "compiled_workflow \<Rightarrow> pyval res" where
  "workflow_payload w = canonical_primitive (OMap
     [(OStr ''schema_version'', OStr ''1.0''), (OStr ''workflow_id'', OStr (wf_id w)),
      (OStr ''project_id'', OStr (wf_project w)),
      (OStr ''definition_sha256'', OStr (wf_definition_sha256 w)),
      (OStr ''tasks'', OSeq (map node_obj (wf_tasks w))),
      (OStr ''edges'', OSeq (map edge_obj (wf_edges w))),
      (OStr ''external_artifacts'', OSeq (map artifact_obj (wf_externals w))),
      (OStr ''metadata'', wf_metadata w)])"

definition workflow_envelope ::
  "(rat \<Rightarrow> string) \<Rightarrow> (string \<Rightarrow> string) \<Rightarrow> string \<Rightarrow> compiled_workflow \<Rightarrow> envelope res" where
  "workflow_envelope fr sha producer w =
     rbind (workflow_payload w) (\<lambda>p. create_envelope fr sha workflow_lock producer (obj_of p) [])"

section \<open>The prepared run\<close>

record prepared_run =
  pr_run_id :: string
  pr_workflow_id :: string
  pr_project_id :: string
  pr_workflow_lock :: string
  pr_profile_id :: string
  pr_profile_sha256 :: string
  pr_campaign_sha256 :: string
  pr_task_ids :: "string list"
  pr_target :: string
  pr_metadata :: pyobj
  pr_authorized :: bool
  pr_submitted :: bool

definition require_run_sha256 :: "string \<Rightarrow> string \<Rightarrow> string res" where
  "require_run_sha256 v field_name =
     (let normalized = py_lower (py_strip v) in
      if length normalized \<noteq> 64 \<or> \<not> py_int16_ok normalized
      then Inl (ValueError (field_name @ '' must contain 64 hexadecimal characters''))
      else Inr normalized)"

definition check_run :: "prepared_run \<Rightarrow> unit res" where
  "check_run r =
     (if pr_task_ids r = [] \<or> \<not> distinct (pr_task_ids r)
      then Inl (ValueError ''prepared runs require unique task ids'')
      else rbind (for_each (\<lambda>t. rbind (require_local_id t ''run task id'') (\<lambda>_. Inr ())) (pr_task_ids r)) (\<lambda>_.
        if pr_target r \<noteq> ''slurm''
        then Inl (ValueError (''unsupported prepared-run target: '' @ pr_target r))
        else if pr_authorized r \<or> pr_submitted r
        then Inl (ValueError ''run preparation cannot authorize or submit execution'')
        else rbind (canonical_primitive (pr_metadata r)) (\<lambda>_. Inr ())))"

definition mk_prepared_run :: "prepared_run \<Rightarrow> prepared_run res" where
  "mk_prepared_run r =
     rbind (require_local_id (pr_run_id r) ''run_id'') (\<lambda>i.
     rbind (require_local_id (pr_workflow_id r) ''workflow_id'') (\<lambda>w.
     rbind (require_local_id (pr_project_id r) ''project_id'') (\<lambda>p.
     if py_strip (pr_profile_id r) = [] then Inl (ValueError ''execution_profile_id must be non-empty'')
     else
     rbind (require_run_sha256 (pr_workflow_lock r) ''workflow_lock_sha256'') (\<lambda>lock.
     rbind (require_run_sha256 (pr_profile_sha256 r) ''execution_profile_sha256'') (\<lambda>profile.
     rbind (require_run_sha256 (pr_campaign_sha256 r) ''controller_campaign_sha256'') (\<lambda>campaign.
     rbind (check_run r) (\<lambda>_.
       Inr (r\<lparr>pr_run_id := i, pr_workflow_id := w, pr_project_id := p, pr_workflow_lock := lock,
              pr_profile_sha256 := profile, pr_campaign_sha256 := campaign\<rparr>))))))))"

definition run_payload :: "prepared_run \<Rightarrow> pyval res" where
  "run_payload r = canonical_primitive (OMap
     [(OStr ''schema_version'', OStr ''1.0''), (OStr ''run_id'', OStr (pr_run_id r)),
      (OStr ''workflow_id'', OStr (pr_workflow_id r)), (OStr ''project_id'', OStr (pr_project_id r)),
      (OStr ''workflow_lock_sha256'', OStr (pr_workflow_lock r)),
      (OStr ''execution_profile_id'', OStr (pr_profile_id r)),
      (OStr ''execution_profile_sha256'', OStr (pr_profile_sha256 r)),
      (OStr ''controller_campaign_sha256'', OStr (pr_campaign_sha256 r)),
      (OStr ''task_ids'', OSeq (map OStr (pr_task_ids r))), (OStr ''target'', OStr (pr_target r)),
      (OStr ''metadata'', pr_metadata r), (OStr ''execution_authorized'', OBool (pr_authorized r)),
      (OStr ''submission_performed'', OBool (pr_submitted r))])"

definition run_envelope ::
  "(rat \<Rightarrow> string) \<Rightarrow> (string \<Rightarrow> string) \<Rightarrow> string \<Rightarrow> prepared_run \<Rightarrow> envelope res" where
  "run_envelope fr sha producer r =
     rbind (run_payload r) (\<lambda>p. create_envelope fr sha run_lock producer (obj_of p) [])"

section \<open>The strict loader\<close>

definition lock_mapping :: "pyval \<Rightarrow> string \<Rightarrow> pyval dict res" where
  "lock_mapping v location =
     (case v of PDict d \<Rightarrow> Inr d | _ \<Rightarrow> Inl (ValueError (location @ '' must be a mapping'')))"

definition lock_list :: "pyval \<Rightarrow> string \<Rightarrow> pyval list res" where
  "lock_list v location =
     (case v of PList xs \<Rightarrow> Inr xs | _ \<Rightarrow> Inl (ValueError (location @ '' must be a list'')))"

definition lock_boolean :: "pyval \<Rightarrow> string \<Rightarrow> bool res" where
  "lock_boolean v location =
     (case v of PBool b \<Rightarrow> Inr b | _ \<Rightarrow> Inl (ValueError (location @ '' must be boolean'')))"

definition exact_fields :: "pyval dict \<Rightarrow> string list \<Rightarrow> string \<Rightarrow> unit res" where
  "exact_fields raw expected location =
     (if set (map fst raw) \<noteq> set expected
      then Inl (ValueError (location @ '' fields mismatch: '' @ repr_strs
             (sort (filter (\<lambda>k. k \<notin> set expected) (map fst raw) @
                    filter (\<lambda>k. k \<notin> set (map fst raw)) expected))))
      else Inr ())"

definition optional_text :: "(rat \<Rightarrow> string) \<Rightarrow> pyval \<Rightarrow> string option" where
  "optional_text fr v = (if v = PNone then None else Some (py_str fr v))"

definition fields_at :: "pyval \<Rightarrow> string list \<Rightarrow> string \<Rightarrow> pyval dict res" where
  "fields_at v expected location =
     rbind (lock_mapping v location) (\<lambda>raw. rbind (exact_fields raw expected location) (\<lambda>_. Inr raw))"

definition at_index :: "string \<Rightarrow> nat \<Rightarrow> string" where
  "at_index name i = name @ ''['' @ nat_str i @ '']''"

definition input_fields :: "string list" where
  "input_fields = [''name'', ''destination'', ''media_type'', ''external_artifact_id'', ''source_task_id'',
     ''source_output_name'']"

definition output_fields :: "string list" where
  "output_fields = [''name'', ''relative_path'', ''artifact_type'', ''media_type'', ''required'']"

definition edge_fields :: "string list" where
  "edge_fields = [''source_task_id'', ''target_task_id'', ''kind'', ''source_output_name'',
     ''target_input_name'']"

definition artifact_fields :: "string list" where
  "artifact_fields = [''artifact_id'', ''role'', ''relative_path'', ''sha256'', ''size_bytes'',
     ''media_type'', ''producer_task_id'', ''producer_attempt_id'', ''metadata'']"

definition task_fields :: "string list" where
  "task_fields = [''task_id'', ''kind'', ''capability_id'', ''dependencies'', ''inputs'', ''outputs'',
     ''resources'', ''settings'']"

definition workflow_fields :: "string list" where
  "workflow_fields = [''schema_version'', ''workflow_id'', ''project_id'', ''definition_sha256'', ''tasks'',
     ''edges'', ''external_artifacts'', ''metadata'']"

definition run_fields :: "string list" where
  "run_fields = [''schema_version'', ''run_id'', ''workflow_id'', ''project_id'', ''workflow_lock_sha256'',
     ''execution_profile_id'', ''execution_profile_sha256'', ''controller_campaign_sha256'', ''task_ids'',
     ''target'', ''metadata'', ''execution_authorized'', ''submission_performed'']"

text \<open>The fields are present once \<open>exact_fields\<close> has passed.\<close>

abbreviation fld :: "pyval dict \<Rightarrow> string \<Rightarrow> pyval" where
  "fld raw k \<equiv> field_or PNone raw k"

abbreviation str_fld :: "(rat \<Rightarrow> string) \<Rightarrow> pyval dict \<Rightarrow> string \<Rightarrow> string" where
  "str_fld fr raw k \<equiv> py_str fr (field_or PNone raw k)"

definition lock_input :: "(rat \<Rightarrow> string) \<Rightarrow> string \<Rightarrow> nat \<times> pyval \<Rightarrow> input_binding res" where
  "lock_input fr task p =
     (let location = at_index (task @ ''.inputs'') (fst p) in
      rbind (fields_at (snd p) input_fields location) (\<lambda>raw.
        mk_input_binding
          \<lparr>in_name = str_fld fr raw ''name'', in_destination = str_fld fr raw ''destination'',
           in_media_type = str_fld fr raw ''media_type'',
           in_external = optional_text fr (fld raw ''external_artifact_id''),
           in_source_task = optional_text fr (fld raw ''source_task_id''),
           in_source_output = optional_text fr (fld raw ''source_output_name'')\<rparr>))"

definition lock_output :: "(rat \<Rightarrow> string) \<Rightarrow> string \<Rightarrow> nat \<times> pyval \<Rightarrow> output_port res" where
  "lock_output fr task p =
     (let location = at_index (task @ ''.outputs'') (fst p) in
      rbind (fields_at (snd p) output_fields location) (\<lambda>raw.
      rbind (lock_boolean (fld raw ''required'') (location @ ''.required'')) (\<lambda>b.
        mk_output_port
          \<lparr>out_name = str_fld fr raw ''name'', out_path = str_fld fr raw ''relative_path'',
           out_artifact_type = str_fld fr raw ''artifact_type'', out_media_type = str_fld fr raw ''media_type'',
           out_required = b\<rparr>)))"

definition lock_task :: "(rat \<Rightarrow> string) \<Rightarrow> nat \<times> pyval \<Rightarrow> task_node res" where
  "lock_task fr p =
     (let location = at_index ''tasks'' (fst p) in
      rbind (fields_at (snd p) task_fields location) (\<lambda>raw.
      rbind (enum_member fr ''WorkflowTaskKind'' task_kind_value
        [CALCULATION, TRANSFORMATION, VALIDATION, SWEEP, SELECTION, CHECKPOINT, POSTPROCESS, COMPARISON,
         EXPORT, EXTERNAL] (PStr (str_fld fr raw ''kind''))) (\<lambda>kind.
      rbind (lock_list (fld raw ''dependencies'') (location @ ''.dependencies'')) (\<lambda>dependencies.
      rbind (lock_list (fld raw ''inputs'') (location @ ''.inputs'')) (\<lambda>inputs.
      rbind (map_res (lock_input fr location) (enumerate 0 inputs)) (\<lambda>bs.
      rbind (lock_list (fld raw ''outputs'') (location @ ''.outputs'')) (\<lambda>outputs.
      rbind (map_res (lock_output fr location) (enumerate 0 outputs)) (\<lambda>ps.
      rbind (lock_mapping (fld raw ''resources'') (location @ ''.resources'')) (\<lambda>resources.
      rbind (lock_mapping (fld raw ''settings'') (location @ ''.settings'')) (\<lambda>settings.
        mk_task_node
          \<lparr>node_id = str_fld fr raw ''task_id'', node_kind = kind, node_capability = str_fld fr raw ''capability_id'',
           node_dependencies = map (py_str fr) dependencies, node_inputs = bs, node_outputs = ps,
           node_resources = obj_of (PDict resources), node_settings = obj_of (PDict settings)\<rparr>))))))))))"

definition lock_edge :: "(rat \<Rightarrow> string) \<Rightarrow> nat \<times> pyval \<Rightarrow> workflow_edge res" where
  "lock_edge fr p =
     rbind (fields_at (snd p) edge_fields (at_index ''edges'' (fst p))) (\<lambda>raw.
     rbind (enum_member fr ''WorkflowEdgeKind'' kind_str [CONTROL, ARTIFACT] (PStr (str_fld fr raw ''kind''))) (\<lambda>kind.
       mk_edge
         \<lparr>e_source = str_fld fr raw ''source_task_id'', e_target = str_fld fr raw ''target_task_id'', e_kind = kind,
          e_output = optional_text fr (fld raw ''source_output_name''),
          e_input = optional_text fr (fld raw ''target_input_name'')\<rparr>))"

definition lock_artifact :: "(rat \<Rightarrow> string) \<Rightarrow> nat \<times> pyval \<Rightarrow> artifact_reference res" where
  "lock_artifact fr p =
     (let location = at_index ''external_artifacts'' (fst p) in
      rbind (fields_at (snd p) artifact_fields location) (\<lambda>raw.
        (case fld raw ''size_bytes'' of
           PInt n \<Rightarrow>
             rbind (enum_member fr ''ArtifactRole'' role_value
               [INPUT, OUTPUT, RESTART, GEOMETRY, DENSITY, PSEUDOPOTENTIAL, EVIDENCE, REPORT, OTHER]
               (PStr (str_fld fr raw ''role''))) (\<lambda>role.
             rbind (lock_mapping (fld raw ''metadata'') (location @ ''.metadata'')) (\<lambda>metadata.
               artifact_reference
                 \<lparr>art_id = str_fld fr raw ''artifact_id'', art_role = role,
                  art_path = str_fld fr raw ''relative_path'', art_sha256 = str_fld fr raw ''sha256'',
                  art_size = n, art_media_type = str_fld fr raw ''media_type'',
                  art_producer_task = optional_text fr (fld raw ''producer_task_id''),
                  art_producer_attempt = optional_text fr (fld raw ''producer_attempt_id''),
                  art_metadata = obj_of (PDict metadata)\<rparr>))
         | _ \<Rightarrow> Inl (ValueError (location @ ''.size_bytes must be an integer'')))))"

definition load_envelope ::
  "(rat \<Rightarrow> string) \<Rightarrow> (string \<Rightarrow> string) \<Rightarrow> (string \<Rightarrow> pyval res) \<Rightarrow> contract_ref \<Rightarrow> string \<Rightarrow> envelope res" where
  "load_envelope fr sha read contract path =
     (case read path of
        Inl (OSError m) \<Rightarrow> Inl (ValueError (''cannot load contract envelope '' @ path @ '': '' @ m))
      | Inl (ValueError m) \<Rightarrow> Inl (ValueError (''cannot load contract envelope '' @ path @ '': '' @ m))
      | Inl e \<Rightarrow> Inl e
      | Inr (PDict d) \<Rightarrow> envelope_from_dict fr sha d (Some contract)
      | Inr _ \<Rightarrow> Inl (ValueError (''contract envelope must be a mapping: '' @ path)))"

definition lock_workflow :: "(rat \<Rightarrow> string) \<Rightarrow> pyval dict \<Rightarrow> compiled_workflow res" where
  "lock_workflow fr payload =
     rbind (exact_fields payload workflow_fields ''workflow lock'') (\<lambda>_.
     if \<not> py_eq (fld payload ''schema_version'') (PStr ''1.0'')
     then Inl (ValueError ''unsupported workflow lock payload schema'')
     else
     rbind (lock_list (fld payload ''tasks'') ''tasks'') (\<lambda>tasks.
     rbind (map_res (lock_task fr) (enumerate 0 tasks)) (\<lambda>ts.
     rbind (lock_list (fld payload ''edges'') ''edges'') (\<lambda>edges.
     rbind (map_res (lock_edge fr) (enumerate 0 edges)) (\<lambda>es.
     rbind (lock_list (fld payload ''external_artifacts'') ''external_artifacts'') (\<lambda>artifacts.
     rbind (map_res (lock_artifact fr) (enumerate 0 artifacts)) (\<lambda>as.
     rbind (lock_mapping (fld payload ''metadata'') ''metadata'') (\<lambda>metadata.
       mk_compiled_workflow
         \<lparr>wf_id = str_fld fr payload ''workflow_id'', wf_project = str_fld fr payload ''project_id'',
          wf_definition_sha256 = str_fld fr payload ''definition_sha256'', wf_tasks = ts, wf_edges = es,
          wf_externals = as, wf_metadata = obj_of (PDict metadata)\<rparr>))))))))"

definition load_workflow_lock ::
  "(rat \<Rightarrow> string) \<Rightarrow> (string \<Rightarrow> string) \<Rightarrow> (string \<Rightarrow> pyval res) \<Rightarrow> string \<Rightarrow>
   (envelope \<times> compiled_workflow) res" where
  "load_workflow_lock fr sha read path =
     rbind (load_envelope fr sha read workflow_lock path) (\<lambda>e.
       case env_payload e of
         PDict payload \<Rightarrow>
           rbind (lock_workflow fr payload) (\<lambda>w.
           rbind (workflow_payload w) (\<lambda>again.
             if \<not> py_eq again (PDict payload)
             then Inl (ValueError ''workflow lock payload is not canonical for Core Contracts 1.0'')
             else Inr (e, w)))
       | _ \<Rightarrow> Inl (ValueError ''workflow lock payload must be a mapping''))"

definition lock_run :: "(rat \<Rightarrow> string) \<Rightarrow> pyval dict \<Rightarrow> prepared_run res" where
  "lock_run fr payload =
     rbind (exact_fields payload run_fields ''run lock'') (\<lambda>_.
     if \<not> py_eq (fld payload ''schema_version'') (PStr ''1.0'')
     then Inl (ValueError ''unsupported run lock payload schema'')
     else
     rbind (lock_list (fld payload ''task_ids'') ''task_ids'') (\<lambda>task_ids.
     rbind (lock_mapping (fld payload ''metadata'') ''metadata'') (\<lambda>metadata.
     rbind (lock_boolean (fld payload ''execution_authorized'') ''execution_authorized'') (\<lambda>authorized.
     rbind (lock_boolean (fld payload ''submission_performed'') ''submission_performed'') (\<lambda>submitted.
       mk_prepared_run
         \<lparr>pr_run_id = str_fld fr payload ''run_id'', pr_workflow_id = str_fld fr payload ''workflow_id'',
          pr_project_id = str_fld fr payload ''project_id'',
          pr_workflow_lock = str_fld fr payload ''workflow_lock_sha256'',
          pr_profile_id = str_fld fr payload ''execution_profile_id'',
          pr_profile_sha256 = str_fld fr payload ''execution_profile_sha256'',
          pr_campaign_sha256 = str_fld fr payload ''controller_campaign_sha256'',
          pr_task_ids = map (py_str fr) task_ids, pr_target = str_fld fr payload ''target'',
          pr_metadata = obj_of (PDict metadata), pr_authorized = authorized,
          pr_submitted = submitted\<rparr>)))))"

definition load_run_lock ::
  "(rat \<Rightarrow> string) \<Rightarrow> (string \<Rightarrow> string) \<Rightarrow> (string \<Rightarrow> pyval res) \<Rightarrow> string \<Rightarrow> (envelope \<times> prepared_run) res" where
  "load_run_lock fr sha read path =
     rbind (load_envelope fr sha read run_lock path) (\<lambda>e.
       case env_payload e of
         PDict payload \<Rightarrow>
           rbind (lock_run fr payload) (\<lambda>r.
           rbind (run_payload r) (\<lambda>again.
             if \<not> py_eq again (PDict payload)
             then Inl (ValueError ''run lock payload is not canonical for Core Contracts 1.0'')
             else Inr (e, r)))
       | _ \<Rightarrow> Inl (ValueError ''run lock payload must be a mapping''))"

section \<open>Values the loader can rebuild\<close>

text \<open>
  A workflow whose parts have been through their constructors, with mappings as resources,
  settings and metadata: what the resolver returns and what the loader returns.
\<close>

definition mapping_obj :: "pyobj \<Rightarrow> bool" where
  "mapping_obj x \<longleftrightarrow> (\<exists>d. canonical_primitive x = Inr (PDict d))"

definition node_built :: "task_node \<Rightarrow> bool" where
  "node_built n \<longleftrightarrow> mk_task_node n = Inr n \<and>
     (\<forall>b \<in> set (node_inputs n). mk_input_binding b = Inr b) \<and>
     (\<forall>p \<in> set (node_outputs n). mk_output_port p = Inr p) \<and>
     mapping_obj (node_resources n) \<and> mapping_obj (node_settings n)"

definition artifact_built :: "artifact_reference \<Rightarrow> bool" where
  "artifact_built a \<longleftrightarrow> artifact_reference a = Inr a \<and> mapping_obj (art_metadata a)"

definition workflow_built :: "compiled_workflow \<Rightarrow> bool" where
  "workflow_built w \<longleftrightarrow> mk_compiled_workflow w = Inr w \<and> (\<forall>n \<in> set (wf_tasks w). node_built n) \<and>
     (\<forall>e \<in> set (wf_edges w). mk_edge e = Inr e) \<and> (\<forall>a \<in> set (wf_externals w). artifact_built a) \<and>
     mapping_obj (wf_metadata w)"

text \<open>The same workflow with its open mappings in normal form.\<close>

definition canon_obj :: "pyobj \<Rightarrow> pyobj" where
  "canon_obj x = (case canonical_primitive x of Inr v \<Rightarrow> obj_of v | Inl e \<Rightarrow> x)"

definition canon_node :: "task_node \<Rightarrow> task_node" where
  "canon_node n = n\<lparr>node_resources := canon_obj (node_resources n), node_settings := canon_obj (node_settings n)\<rparr>"

definition canon_artifact :: "artifact_reference \<Rightarrow> artifact_reference" where
  "canon_artifact a = a\<lparr>art_metadata := canon_obj (art_metadata a)\<rparr>"

definition canon_workflow :: "compiled_workflow \<Rightarrow> compiled_workflow" where
  "canon_workflow w = w\<lparr>wf_tasks := map canon_node (wf_tasks w),
     wf_externals := map canon_artifact (wf_externals w), wf_metadata := canon_obj (wf_metadata w)\<rparr>"

lemma canon_obj_canonical [simp]: "canonical_primitive (canon_obj x) = canonical_primitive x"
  by (cases "canonical_primitive x") (simp_all add: canon_obj_def)

lemma canon_obj_obj_of [simp]: "canon_obj (obj_of v) = obj_of v"
  by (simp add: canon_obj_def)

lemma canon_node_simps [simp]:
  "node_id (canon_node n) = node_id n" "node_inputs (canon_node n) = node_inputs n"
  "node_outputs (canon_node n) = node_outputs n" "node_dependencies (canon_node n) = node_dependencies n"
  "node_kind (canon_node n) = node_kind n" "node_capability (canon_node n) = node_capability n"
  "node_resources (canon_node n) = canon_obj (node_resources n)"
  "node_settings (canon_node n) = canon_obj (node_settings n)"
  by (simp_all add: canon_node_def)

lemma canon_artifact_simps [simp]:
  "art_id (canon_artifact a) = art_id a" "art_metadata (canon_artifact a) = canon_obj (art_metadata a)"
  by (simp_all add: canon_artifact_def)

lemma mk_task_node_again:
  assumes "mk_task_node n = Inr n"
  shows "mk_task_node (canon_node n) = Inr (canon_node n)"
  using assms unfolding mk_task_node_def
  by (cases n) (auto simp: rbind_Inr_iff canon_node_def split: if_splits)

lemma find_map: "find P (map f xs) = map_option f (find (P \<circ> f) xs)"
  by (induction xs) auto

lemma canon_lookups [simp]:
  "by_task (map canon_node ts) i = map_option canon_node (by_task ts i)"
  "position (map canon_node ts) i = position ts i"
  "check_artifact_edge (canon_node s) (canon_node t) e = check_artifact_edge s t e"
  by (simp_all add: by_task_def rev_map find_map comp_def position_def takeWhile_map
      check_artifact_edge_def port_of_def binding_of_def)

lemma canon_check_edge [simp]: "check_edge (map canon_node ts) e = check_edge ts e"
  by (simp add: check_edge_def split: option.splits)

lemma canon_check_node [simp]: "check_node es ext (canon_node n) = check_node es ext n"
  by (simp add: check_node_def)

lemma canon_used [simp]: "used_external_ids (map canon_node ts) = used_external_ids ts"
  by (simp add: used_external_ids_def comp_def)

lemma for_each_map: "for_each f (map g xs) = for_each (f \<circ> g) xs"
  by (induction xs) auto

lemma mk_compiled_workflow_canon:
  assumes "mk_compiled_workflow w = Inr w"
  shows "mk_compiled_workflow (canon_workflow w) = Inr (canon_workflow w)"
proof -
  have ts: "for_each (check_node es ext) (map canon_node ts) = for_each (check_node es ext) ts" for es ext ts
    by (simp add: for_each_map comp_def)
  have es: "check_edge (map canon_node ts) = check_edge ts" for ts by (rule ext) simp
  show ?thesis
    using assms unfolding mk_compiled_workflow_def canon_workflow_def Let_def
    by (cases w) (auto simp: rbind_Inr_iff ts es comp_def split: if_splits)
qed

lemma artifact_built_canon:
  assumes "artifact_reference a = Inr a"
  shows "artifact_reference (canon_artifact a) = Inr (canon_artifact a)"
  using assms unfolding artifact_reference_def
  by (cases a) (auto simp: rbind_Inr_iff canon_artifact_def Let_def split: if_splits)

section \<open>The loader inverts the payload\<close>

definition opt_val :: "string option \<Rightarrow> pyval" where
  "opt_val s = (case s of None \<Rightarrow> PNone | Some t \<Rightarrow> PStr t)"

lemma opt_val_simps [simp]:
  "canonical_primitive (opt_obj s) = Inr (opt_val s)" "optional_text fr (opt_val s) = s"
  by (cases s; simp add: opt_obj_def opt_val_def optional_text_def)+

lemma canonical_list_map:
  "(\<And>x. x \<in> set xs \<Longrightarrow> canonical_primitive (f x) = Inr (g x)) \<Longrightarrow>
     canonical_list (map f xs) = Inr (map g xs)"
  by (induction xs) simp_all

lemma canonical_strs [simp]: "canonical_list (map OStr xs) = Inr (map PStr xs)"
  by (rule canonical_list_map) simp

lemma map_res_enumerate:
  "(\<And>i x. x \<in> set xs \<Longrightarrow> f (i, g x) = Inr (h x)) \<Longrightarrow>
     map_res f (enumerate k (map g xs)) = Inr (map h xs)"
  by (induction xs arbitrary: k) simp_all

lemma py_str_strs [simp]: "map (py_str fr) (map PStr xs) = xs"
  by (simp add: comp_def)

lemma fields_at_Inr:
  assumes "set (map fst d) = set ks"
  shows "fields_at (PDict d) ks location = Inr d"
  using assms by (simp add: fields_at_def lock_mapping_def exact_fields_def)

definition binding_val :: "input_binding \<Rightarrow> pyval dict" where
  "binding_val b =
     [(''name'', PStr (in_name b)), (''destination'', PStr (in_destination b)),
      (''media_type'', PStr (in_media_type b)), (''external_artifact_id'', opt_val (in_external b)),
      (''source_task_id'', opt_val (in_source_task b)),
      (''source_output_name'', opt_val (in_source_output b))]"

definition port_val :: "output_port \<Rightarrow> pyval dict" where
  "port_val p =
     [(''name'', PStr (out_name p)), (''relative_path'', PStr (out_path p)),
      (''artifact_type'', PStr (out_artifact_type p)), (''media_type'', PStr (out_media_type p)),
      (''required'', PBool (out_required p))]"

definition edge_val :: "workflow_edge \<Rightarrow> pyval dict" where
  "edge_val e =
     [(''source_task_id'', PStr (e_source e)), (''target_task_id'', PStr (e_target e)),
      (''kind'', PStr (kind_str (e_kind e))), (''source_output_name'', opt_val (e_output e)),
      (''target_input_name'', opt_val (e_input e))]"

definition mapping_val :: "pyobj \<Rightarrow> pyval dict" where
  "mapping_val x = (case canonical_primitive x of Inr (PDict d) \<Rightarrow> d | _ \<Rightarrow> [])"

lemma mapping_val_simps:
  assumes "mapping_obj x"
  shows "canonical_primitive x = Inr (PDict (mapping_val x))" "canon_obj x = obj_of (PDict (mapping_val x))"
  using assms by (auto simp: mapping_obj_def mapping_val_def canon_obj_def)

definition node_val :: "task_node \<Rightarrow> pyval dict" where
  "node_val n =
     [(''task_id'', PStr (node_id n)), (''kind'', PStr (task_kind_value (node_kind n))),
      (''capability_id'', PStr (node_capability n)),
      (''dependencies'', PList (map PStr (node_dependencies n))),
      (''inputs'', PList (map (PDict \<circ> binding_val) (node_inputs n))),
      (''outputs'', PList (map (PDict \<circ> port_val) (node_outputs n))),
      (''resources'', PDict (mapping_val (node_resources n))),
      (''settings'', PDict (mapping_val (node_settings n)))]"

definition artifact_val :: "artifact_reference \<Rightarrow> pyval dict" where
  "artifact_val a =
     [(''artifact_id'', PStr (art_id a)), (''role'', PStr (role_value (art_role a))),
      (''relative_path'', PStr (art_path a)), (''sha256'', PStr (art_sha256 a)),
      (''size_bytes'', PInt (art_size a)), (''media_type'', PStr (art_media_type a)),
      (''producer_task_id'', opt_val (art_producer_task a)),
      (''producer_attempt_id'', opt_val (art_producer_attempt a)),
      (''metadata'', PDict (mapping_val (art_metadata a)))]"

lemma canonical_binding: "canonical_primitive (binding_obj b) = Inr (PDict (binding_val b))"
  by (simp add: binding_obj_def binding_val_def)

lemma canonical_port: "canonical_primitive (port_obj p) = Inr (PDict (port_val p))"
  by (simp add: port_obj_def port_val_def)

lemma canonical_edge: "canonical_primitive (edge_obj e) = Inr (PDict (edge_val e))"
  by (simp add: edge_obj_def edge_val_def)

lemma canonical_node: "node_built n \<Longrightarrow> canonical_primitive (node_obj n) = Inr (PDict (node_val n))"
  by (simp add: node_obj_def node_val_def node_built_def mapping_val_simps canonical_list_map comp_def
      canonical_binding canonical_port)

lemma canonical_artifact: "artifact_built a \<Longrightarrow> canonical_primitive (artifact_obj a) = Inr (PDict (artifact_val a))"
  by (simp add: artifact_obj_def artifact_val_def artifact_built_def mapping_val_simps)

lemma lock_input_val:
  assumes "mk_input_binding b = Inr b"
  shows "lock_input fr task (i, PDict (binding_val b)) = Inr b"
proof -
  have k: "fields_at (PDict (binding_val b)) input_fields l = Inr (binding_val b)" for l
    by (rule fields_at_Inr) (auto simp: binding_val_def input_fields_def)
  have f: "str_fld fr (binding_val b) ''name'' = in_name b"
    "str_fld fr (binding_val b) ''destination'' = in_destination b"
    "str_fld fr (binding_val b) ''media_type'' = in_media_type b"
    "fld (binding_val b) ''external_artifact_id'' = opt_val (in_external b)"
    "fld (binding_val b) ''source_task_id'' = opt_val (in_source_task b)"
    "fld (binding_val b) ''source_output_name'' = opt_val (in_source_output b)"
    by (simp_all add: binding_val_def field_or_def)
  show ?thesis
    unfolding lock_input_def Let_def fst_conv snd_conv k rbind_simps f opt_val_simps 
    using assms by (cases b) simp
qed

lemma lock_output_val:
  assumes "mk_output_port p = Inr p"
  shows "lock_output fr task (i, PDict (port_val p)) = Inr p"
proof -
  have k: "fields_at (PDict (port_val p)) output_fields l = Inr (port_val p)" for l
    by (rule fields_at_Inr) (auto simp: port_val_def output_fields_def)
  have f: "str_fld fr (port_val p) ''name'' = out_name p"
    "str_fld fr (port_val p) ''relative_path'' = out_path p"
    "str_fld fr (port_val p) ''artifact_type'' = out_artifact_type p"
    "str_fld fr (port_val p) ''media_type'' = out_media_type p"
    "fld (port_val p) ''required'' = PBool (out_required p)"
    by (simp_all add: port_val_def field_or_def)
  show ?thesis
    unfolding lock_output_def Let_def fst_conv snd_conv k rbind_simps f opt_val_simps lock_boolean_def pyval.case
    using assms by (cases p) simp
qed

lemma edge_kind_member [simp]:
  "enum_member fr c kind_str [CONTROL, ARTIFACT] (PStr (kind_str k)) = Inr k"
  by (rule enum_member_value, cases k) (simp_all add: inj_on_def)

lemma task_kind_member [simp]:
  "enum_member fr c task_kind_value [CALCULATION, TRANSFORMATION, VALIDATION, SWEEP, SELECTION, CHECKPOINT,
     POSTPROCESS, COMPARISON, EXPORT, EXTERNAL] (PStr (task_kind_value k)) = Inr k"
  by (rule enum_member_value, cases k) (simp_all add: inj_on_def)

lemma role_member [simp]:
  "enum_member fr c role_value [INPUT, OUTPUT, RESTART, GEOMETRY, DENSITY, PSEUDOPOTENTIAL, EVIDENCE, REPORT,
     OTHER] (PStr (role_value r)) = Inr r"
  by (rule enum_member_value, cases r) (simp_all add: inj_on_def)

lemma lock_edge_val:
  assumes "mk_edge e = Inr e"
  shows "lock_edge fr (i, PDict (edge_val e)) = Inr e"
proof -
  have k: "fields_at (PDict (edge_val e)) edge_fields l = Inr (edge_val e)" for l
    by (rule fields_at_Inr) (auto simp: edge_val_def edge_fields_def)
  have f: "str_fld fr (edge_val e) ''source_task_id'' = e_source e"
    "str_fld fr (edge_val e) ''target_task_id'' = e_target e"
    "str_fld fr (edge_val e) ''kind'' = kind_str (e_kind e)"
    "fld (edge_val e) ''source_output_name'' = opt_val (e_output e)"
    "fld (edge_val e) ''target_input_name'' = opt_val (e_input e)"
    by (simp_all add: edge_val_def field_or_def)
  show ?thesis
    unfolding lock_edge_def Let_def fst_conv snd_conv k rbind_simps f opt_val_simps edge_kind_member
    using assms by (cases e) simp
qed

lemma lock_artifact_val:
  assumes "artifact_built a"
  shows "lock_artifact fr (i, PDict (artifact_val a)) = Inr (canon_artifact a)"
proof -
  have k: "fields_at (PDict (artifact_val a)) artifact_fields l = Inr (artifact_val a)" for l
    by (rule fields_at_Inr) (auto simp: artifact_val_def artifact_fields_def)
  have f: "str_fld fr (artifact_val a) ''artifact_id'' = art_id a"
    "str_fld fr (artifact_val a) ''role'' = role_value (art_role a)"
    "str_fld fr (artifact_val a) ''relative_path'' = art_path a"
    "str_fld fr (artifact_val a) ''sha256'' = art_sha256 a"
    "fld (artifact_val a) ''size_bytes'' = PInt (art_size a)"
    "str_fld fr (artifact_val a) ''media_type'' = art_media_type a"
    "fld (artifact_val a) ''producer_task_id'' = opt_val (art_producer_task a)"
    "fld (artifact_val a) ''producer_attempt_id'' = opt_val (art_producer_attempt a)"
    "fld (artifact_val a) ''metadata'' = PDict (mapping_val (art_metadata a))"
    by (simp_all add: artifact_val_def field_or_def)
  have c: "artifact_reference (canon_artifact a) = Inr (canon_artifact a)"
    "canon_obj (art_metadata a) = obj_of (PDict (mapping_val (art_metadata a)))"
    using assms by (simp_all add: artifact_built_def artifact_built_canon mapping_val_simps)
  show ?thesis
    unfolding lock_artifact_def Let_def fst_conv snd_conv k rbind_simps f opt_val_simps role_member
      lock_mapping_def pyval.case
    using c by (cases a) (simp add: canon_artifact_def)
qed

lemma lock_task_val:
  assumes "node_built n"
  shows "lock_task fr (i, PDict (node_val n)) = Inr (canon_node n)"
proof -
  have k: "fields_at (PDict (node_val n)) task_fields l = Inr (node_val n)" for l
    by (rule fields_at_Inr) (auto simp: node_val_def task_fields_def)
  have f: "str_fld fr (node_val n) ''task_id'' = node_id n"
    "str_fld fr (node_val n) ''kind'' = task_kind_value (node_kind n)"
    "str_fld fr (node_val n) ''capability_id'' = node_capability n"
    "fld (node_val n) ''dependencies'' = PList (map PStr (node_dependencies n))"
    "fld (node_val n) ''inputs'' = PList (map (PDict \<circ> binding_val) (node_inputs n))"
    "fld (node_val n) ''outputs'' = PList (map (PDict \<circ> port_val) (node_outputs n))"
    "fld (node_val n) ''resources'' = PDict (mapping_val (node_resources n))"
    "fld (node_val n) ''settings'' = PDict (mapping_val (node_settings n))"
    by (simp_all add: node_val_def field_or_def)
  have ins: "map_res (lock_input fr l) (enumerate 0 (map (PDict \<circ> binding_val) (node_inputs n))) =
      Inr (map id (node_inputs n))" for l
    by (rule map_res_enumerate) (use assms in \<open>simp add: node_built_def lock_input_val\<close>)
  have outs: "map_res (lock_output fr l) (enumerate 0 (map (PDict \<circ> port_val) (node_outputs n))) =
      Inr (map id (node_outputs n))" for l
    by (rule map_res_enumerate) (use assms in \<open>simp add: node_built_def lock_output_val\<close>)
  have c: "mk_task_node (canon_node n) = Inr (canon_node n)"
    "canon_obj (node_resources n) = obj_of (PDict (mapping_val (node_resources n)))"
    "canon_obj (node_settings n) = obj_of (PDict (mapping_val (node_settings n)))"
    using assms by (simp_all add: node_built_def mk_task_node_again mapping_val_simps)
  show ?thesis
    unfolding lock_task_def Let_def fst_conv snd_conv k f rbind_simps task_kind_member lock_list_def pyval.case
      ins outs lock_mapping_def
    using c by (cases n) (simp add: canon_node_def comp_def)
qed

definition workflow_val :: "compiled_workflow \<Rightarrow> pyval dict" where
  "workflow_val w =
     [(''schema_version'', PStr ''1.0''), (''workflow_id'', PStr (wf_id w)),
      (''project_id'', PStr (wf_project w)), (''definition_sha256'', PStr (wf_definition_sha256 w)),
      (''tasks'', PList (map (PDict \<circ> node_val) (wf_tasks w))),
      (''edges'', PList (map (PDict \<circ> edge_val) (wf_edges w))),
      (''external_artifacts'', PList (map (PDict \<circ> artifact_val) (wf_externals w))),
      (''metadata'', PDict (mapping_val (wf_metadata w)))]"

lemma workflow_payload_val: "workflow_built w \<Longrightarrow> workflow_payload w = Inr (PDict (workflow_val w))"
  by (simp add: workflow_payload_def workflow_val_def workflow_built_def mapping_val_simps
      canonical_list_map comp_def canonical_node canonical_edge canonical_artifact)

lemma workflow_payload_canon:
  assumes "workflow_built w"
  shows "workflow_payload (canon_workflow w) = workflow_payload w"
proof -
  have n: "canonical_list (map (node_obj \<circ> canon_node) ts) = canonical_list (map node_obj ts)" for ts
    by (induction ts) (simp_all add: node_obj_def)
  have a: "canonical_list (map (artifact_obj \<circ> canon_artifact) as) = canonical_list (map artifact_obj as)" for as
    by (induction as) (simp_all add: artifact_obj_def canon_artifact_def)
  show ?thesis by (simp add: workflow_payload_def canon_workflow_def n a)
qed

lemma lock_workflow_val:
  assumes "workflow_built w"
  shows "lock_workflow fr (workflow_val w) = Inr (canon_workflow w)"
proof -
  have k: "exact_fields (workflow_val w) workflow_fields l = Inr ()" for l
    by (auto simp: exact_fields_def workflow_val_def workflow_fields_def)
  have f: "fld (workflow_val w) ''schema_version'' = PStr ''1.0''"
    "str_fld fr (workflow_val w) ''workflow_id'' = wf_id w"
    "str_fld fr (workflow_val w) ''project_id'' = wf_project w"
    "str_fld fr (workflow_val w) ''definition_sha256'' = wf_definition_sha256 w"
    "fld (workflow_val w) ''tasks'' = PList (map (PDict \<circ> node_val) (wf_tasks w))"
    "fld (workflow_val w) ''edges'' = PList (map (PDict \<circ> edge_val) (wf_edges w))"
    "fld (workflow_val w) ''external_artifacts'' = PList (map (PDict \<circ> artifact_val) (wf_externals w))"
    "fld (workflow_val w) ''metadata'' = PDict (mapping_val (wf_metadata w))"
    by (simp_all add: workflow_val_def field_or_def)
  have ts: "map_res (lock_task fr) (enumerate 0 (map (PDict \<circ> node_val) (wf_tasks w))) =
      Inr (map canon_node (wf_tasks w))"
    by (rule map_res_enumerate) (use assms in \<open>simp add: workflow_built_def lock_task_val\<close>)
  have es: "map_res (lock_edge fr) (enumerate 0 (map (PDict \<circ> edge_val) (wf_edges w))) = Inr (map id (wf_edges w))"
    by (rule map_res_enumerate) (use assms in \<open>simp add: workflow_built_def lock_edge_val\<close>)
  have as: "map_res (lock_artifact fr) (enumerate 0 (map (PDict \<circ> artifact_val) (wf_externals w))) =
      Inr (map canon_artifact (wf_externals w))"
    by (rule map_res_enumerate) (use assms in \<open>simp add: workflow_built_def lock_artifact_val\<close>)
  have c: "mk_compiled_workflow (canon_workflow w) = Inr (canon_workflow w)"
    "canon_obj (wf_metadata w) = obj_of (PDict (mapping_val (wf_metadata w)))"
    using assms by (simp_all add: workflow_built_def mk_compiled_workflow_canon mapping_val_simps)
  have eq: "py_eq (PStr ''1.0'') (PStr ''1.0'')" by simp
  show ?thesis
    unfolding lock_workflow_def k rbind_simps f eq not_True_eq_False if_False lock_list_def pyval.case ts es as
      lock_mapping_def
    using c by (cases w) (simp add: canon_workflow_def)
qed

text \<open>Comparing a value with itself succeeds when no dictionary repeats a key, as none does in Python.\<close>

lemma py_eq_refl:
  "dicts_ok v \<Longrightarrow> py_eq v v"
  "dicts_ok_list xs \<Longrightarrow> py_eq_list xs xs"
  "dicts_ok_items d \<Longrightarrow> (\<And>k v. (k, v) \<in> set d \<Longrightarrow> map_of e k = Some v) \<Longrightarrow> py_eq_items d e"
proof (induction v and xs and d arbitrary: and and e rule: dicts_ok_dicts_ok_list_dicts_ok_items.induct)
  case (2 d)
  then have "dict_ok d" "dicts_ok_items d" by simp_all
  with 2(1) [OF this(2), of d] show ?case by simp
next
  case (11 k v d)
  have e: "map_of e k = Some v" by (rule 11(4)) simp
  have "py_eq_items d e" by (rule 11(2)) (use 11(3,4) in simp_all)
  with e 11(1,3) show ?case by simp
qed auto

section \<open>Round trips\<close>

lemma load_workflow_lock_Inr:
  assumes "load_workflow_lock fr sha read path = Inr (e, w)"
  obtains payload v where "load_envelope fr sha read workflow_lock path = Inr e" "env_payload e = PDict payload"
    "lock_workflow fr payload = Inr w" "workflow_payload w = Inr v" "py_eq v (PDict payload)"
proof -
  from assms obtain x where x: "load_envelope fr sha read workflow_lock path = Inr x"
    by (cases "load_envelope fr sha read workflow_lock path") (simp_all add: load_workflow_lock_def)
  with assms that show thesis
    by (cases "env_payload x") (auto simp: load_workflow_lock_def rbind_Inr_iff split: if_split_asm)
qed

lemma load_run_lock_Inr:
  assumes "load_run_lock fr sha read path = Inr (e, w)"
  obtains payload v where "load_envelope fr sha read run_lock path = Inr e" "env_payload e = PDict payload"
    "lock_run fr payload = Inr w" "run_payload w = Inr v" "py_eq v (PDict payload)"
proof -
  from assms obtain x where x: "load_envelope fr sha read run_lock path = Inr x"
    by (cases "load_envelope fr sha read run_lock path") (simp_all add: load_run_lock_def)
  with assms that show thesis
    by (cases "env_payload x") (auto simp: load_run_lock_def rbind_Inr_iff split: if_split_asm)
qed

lemma workflow_lock_ok: "ref_ok workflow_lock" "ref_ok run_lock"
  by code_simp+

lemma satisfies_self: "satisfies r r"
  by (simp add: satisfies_def supports_def)

lemma load_created_envelope:
  assumes "create_envelope fr sha contract producer (obj_of (PDict d)) [] = Inr e"
    and "ref_ok contract" "\<And>t. py_lower (sha t) = sha t" "read path = Inr (PDict (envelope_to_dict e))"
  shows "load_envelope fr sha read contract path = Inr e" "env_payload e = PDict d"
proof -
  from create_envelope_Inr [OF assms(1)] obtain h
    where "make_envelope fr sha contract producer (obj_of (PDict d)) [] h = Inr e" by blast
  from make_envelope_Inr(5) [OF this] show p: "env_payload e = PDict d" by (simp del: obj_of.simps)
  have "envelope_from_dict fr sha (envelope_to_dict e) (Some contract) = Inr e"
    by (rule created_envelope_read [OF assms(1-3) p]) (simp add: satisfies_self)
  then show "load_envelope fr sha read contract path = Inr e" by (simp add: load_envelope_def assms(4))
qed

lemma workflow_lock_read:
  assumes "workflow_built w" "workflow_envelope fr sha producer w = Inr e"
    and "\<And>t. py_lower (sha t) = sha t" "dicts_ok (env_payload e)"
    and "read path = Inr (PDict (envelope_to_dict e))"
  shows "load_workflow_lock fr sha read path = Inr (e, canon_workflow w)"
proof -
  have p: "workflow_payload w = Inr (PDict (workflow_val w))" by (rule workflow_payload_val [OF assms(1)])
  with assms(2) have c: "create_envelope fr sha workflow_lock producer (obj_of (PDict (workflow_val w))) [] = Inr e"
    by (simp add: workflow_envelope_def)
  note l = load_created_envelope [where read = read and path = path, OF c workflow_lock_ok(1) assms(3,5)]
  have "py_eq (PDict (workflow_val w)) (PDict (workflow_val w))"
    by (rule py_eq_refl(1)) (use assms(4) l(2) in simp)
  then show ?thesis
    using assms(1) p
    by (simp add: load_workflow_lock_def l lock_workflow_val workflow_payload_canon del: py_eq.simps)
qed

definition run_val :: "prepared_run \<Rightarrow> pyval dict" where
  "run_val r =
     [(''schema_version'', PStr ''1.0''), (''run_id'', PStr (pr_run_id r)),
      (''workflow_id'', PStr (pr_workflow_id r)), (''project_id'', PStr (pr_project_id r)),
      (''workflow_lock_sha256'', PStr (pr_workflow_lock r)),
      (''execution_profile_id'', PStr (pr_profile_id r)),
      (''execution_profile_sha256'', PStr (pr_profile_sha256 r)),
      (''controller_campaign_sha256'', PStr (pr_campaign_sha256 r)),
      (''task_ids'', PList (map PStr (pr_task_ids r))), (''target'', PStr (pr_target r)),
      (''metadata'', PDict (mapping_val (pr_metadata r))),
      (''execution_authorized'', PBool (pr_authorized r)),
      (''submission_performed'', PBool (pr_submitted r))]"

definition canon_run :: "prepared_run \<Rightarrow> prepared_run" where
  "canon_run r = r\<lparr>pr_metadata := canon_obj (pr_metadata r)\<rparr>"

lemma require_run_sha256_Inr: "require_run_sha256 v f = Inr h \<Longrightarrow> require_run_sha256 h f = Inr h"
proof -
  assume a: "require_run_sha256 v f = Inr h"
  then have h: "h = py_lower (py_strip v)" "length h = 64" "py_int16_ok h"
    by (auto simp: require_run_sha256_def Let_def split: if_splits)
  have "py_strip h = h"
  proof (cases "py_strip v = []")
    case False
    have sp: "is_py_space (lower_char c) = is_py_space c" for c
      by (auto simp: lower_char_def is_upper_def is_py_space_def)
    show ?thesis
      unfolding h(1)
      by (rule py_strip_id) (use False py_strip_ends [OF False] in \<open>simp_all add: py_lower_def hd_map last_map sp\<close>)
  qed (use h in simp)
  with h show ?thesis by (simp add: require_run_sha256_def)
qed

lemma mk_prepared_run_Inr:
  assumes "mk_prepared_run r = Inr q"
  shows "local_id (pr_run_id q)" "pr_task_ids q \<noteq> []" "distinct (pr_task_ids q)" "pr_target q = ''slurm''"
    "\<not> pr_authorized q" "\<not> pr_submitted q" "mk_prepared_run q = Inr q"
proof -
  from assms obtain i w p a b c where
    i: "require_local_id (pr_run_id r) ''run_id'' = Inr i"
       "require_local_id (pr_workflow_id r) ''workflow_id'' = Inr w"
       "require_local_id (pr_project_id r) ''project_id'' = Inr p"
    and s: "py_strip (pr_profile_id r) \<noteq> []"
    and h: "require_run_sha256 (pr_workflow_lock r) ''workflow_lock_sha256'' = Inr a"
       "require_run_sha256 (pr_profile_sha256 r) ''execution_profile_sha256'' = Inr b"
       "require_run_sha256 (pr_campaign_sha256 r) ''controller_campaign_sha256'' = Inr c"
    and k: "check_run r = Inr ()"
    and q: "q = r\<lparr>pr_run_id := i, pr_workflow_id := w, pr_project_id := p, pr_workflow_lock := a,
        pr_profile_sha256 := b, pr_campaign_sha256 := c\<rparr>"
    by (clarsimp simp: mk_prepared_run_def rbind_Inr_iff split: if_split_asm)
  have "check_run q = check_run r" by (simp add: check_run_def q)
  with k have k': "check_run q = Inr ()" by simp
  have l: "local_id i" "local_id w" "local_id p" using i unfolding require_local_id_Inr by blast+
  then show "local_id (pr_run_id q)" by (simp add: q)
  show "pr_task_ids q \<noteq> []" "distinct (pr_task_ids q)" "pr_target q = ''slurm''"
    "\<not> pr_authorized q" "\<not> pr_submitted q"
    using k' by (auto simp: check_run_def rbind_Inr_iff split: if_split_asm)
  show "mk_prepared_run q = Inr q"
    using l s h [THEN require_run_sha256_Inr]
    by (simp add: mk_prepared_run_def q require_local_id_id k' [unfolded q])
qed

lemma run_payload_val: "mapping_obj (pr_metadata r) \<Longrightarrow> run_payload r = Inr (PDict (run_val r))"
  by (simp add: run_payload_def run_val_def mapping_val_simps)

lemma lock_run_val:
  assumes "mk_prepared_run r = Inr r" "mapping_obj (pr_metadata r)"
  shows "lock_run fr (run_val r) = Inr (canon_run r)"
proof -
  have k: "exact_fields (run_val r) run_fields l = Inr ()" for l
    by (auto simp: exact_fields_def run_val_def run_fields_def)
  have f: "fld (run_val r) ''schema_version'' = PStr ''1.0''"
    "str_fld fr (run_val r) ''run_id'' = pr_run_id r" "str_fld fr (run_val r) ''workflow_id'' = pr_workflow_id r"
    "str_fld fr (run_val r) ''project_id'' = pr_project_id r"
    "str_fld fr (run_val r) ''workflow_lock_sha256'' = pr_workflow_lock r"
    "str_fld fr (run_val r) ''execution_profile_id'' = pr_profile_id r"
    "str_fld fr (run_val r) ''execution_profile_sha256'' = pr_profile_sha256 r"
    "str_fld fr (run_val r) ''controller_campaign_sha256'' = pr_campaign_sha256 r"
    "fld (run_val r) ''task_ids'' = PList (map PStr (pr_task_ids r))"
    "str_fld fr (run_val r) ''target'' = pr_target r"
    "fld (run_val r) ''metadata'' = PDict (mapping_val (pr_metadata r))"
    "fld (run_val r) ''execution_authorized'' = PBool (pr_authorized r)"
    "fld (run_val r) ''submission_performed'' = PBool (pr_submitted r)"
    by (simp_all add: run_val_def field_or_def)
  have c: "mk_prepared_run (canon_run r) = Inr (canon_run r)"
  proof -
    have "check_run (canon_run r) = check_run r" by (simp add: check_run_def canon_run_def)
    with assms(1) show ?thesis
      unfolding mk_prepared_run_def
      by (cases r) (auto simp: rbind_Inr_iff canon_run_def split: if_split_asm)
  qed
  have eq: "py_eq (PStr ''1.0'') (PStr ''1.0'')" by simp
  show ?thesis
    unfolding lock_run_def k rbind_simps f eq not_True_eq_False if_False lock_list_def pyval.case
      lock_mapping_def lock_boolean_def
    using c unfolding canon_run_def mapping_val_simps(2) [OF assms(2)] by (cases r) (simp add: comp_def del: obj_of.simps)
qed


lemma mapping_obj_of [simp]: "mapping_obj (obj_of (PDict d))" "mapping_obj (OMap (obj_items d))"
  by (auto simp: mapping_obj_def)

section \<open>What the loader accepts\<close>

lemma lock_input_built: "lock_input fr task p = Inr b \<Longrightarrow> mk_input_binding b = Inr b"
  by (auto simp: lock_input_def Let_def rbind_Inr_iff intro: mk_input_binding_again)

lemma lock_output_built: "lock_output fr task p = Inr q \<Longrightarrow> mk_output_port q = Inr q"
  by (auto simp: lock_output_def Let_def rbind_Inr_iff intro: mk_output_port_again)

lemma lock_edge_built: "lock_edge fr p = Inr e \<Longrightarrow> mk_edge e = Inr e"
  by (auto simp: lock_edge_def rbind_Inr_iff intro: mk_edge_again)

lemma lock_artifact_built:
  assumes "lock_artifact fr p = Inr a"
  shows "artifact_built a"
proof -
  from assms obtain raw where r: "fields_at (snd p) artifact_fields (at_index ''external_artifacts'' (fst p)) = Inr raw"
    by (auto simp: lock_artifact_def Let_def rbind_Inr_iff)
  with assms obtain x d where x: "artifact_reference x = Inr a" "art_metadata x = obj_of (PDict d)"
    by (cases "fld raw ''size_bytes''") (auto simp: lock_artifact_def Let_def rbind_Inr_iff simp del: obj_of.simps)
  from artifact_reference_Inr(5) [OF x(1)] have "art_metadata a = art_metadata x"
    by (metis artifact_reference.select_convs(9) artifact_reference.surjective
        artifact_reference.update_convs(3,4))
  with x show ?thesis by (simp add: artifact_built_def artifact_reference_again)
qed

lemma lock_task_built:
  assumes "lock_task fr p = Inr n"
  shows "node_built n"
proof -
  from assms obtain m l ins outs r s where m: "mk_task_node m = Inr n"
    and i: "map_res (lock_input fr l) ins = Inr (node_inputs m)"
    and o: "map_res (lock_output fr l) outs = Inr (node_outputs m)"
    and r: "node_resources m = obj_of (PDict r)" "node_settings m = obj_of (PDict s)"
    unfolding lock_task_def Let_def rbind_Inr_iff
    by (elim exE conjE) (rule that, assumption, simp_all)
  note b = mk_task_node_built [OF m]
  have "\<forall>x \<in> set (node_inputs n). mk_input_binding x = Inr x"
    using map_res_set [OF i] lock_input_built unfolding b(2) by blast
  moreover have "\<forall>x \<in> set (node_outputs n). mk_output_port x = Inr x"
    using map_res_set [OF o] lock_output_built unfolding b(3) by blast
  ultimately show ?thesis using b(1) r by (simp add: node_built_def b(4,5) del: obj_of.simps)
qed

lemma lock_workflow_built:
  assumes "lock_workflow fr payload = Inr w"
  shows "workflow_built w"
proof -
  from assms obtain v ts es as d tasks edges artifacts where v: "mk_compiled_workflow v = Inr w"
    and t: "map_res (lock_task fr) tasks = Inr ts" and e: "map_res (lock_edge fr) edges = Inr es"
    and a: "map_res (lock_artifact fr) artifacts = Inr as"
    and p: "wf_tasks v = ts" "wf_edges v = es" "wf_externals v = as" "wf_metadata v = obj_of (PDict d)"
    unfolding lock_workflow_def
    by (auto simp: rbind_Inr_iff simp del: obj_of.simps split: if_split_asm)
  from mk_compiled_workflow_Inr(10) [OF v] have w: "wf_tasks w = ts" "wf_edges w = es" "wf_externals w = as"
    "wf_metadata w = obj_of (PDict d)" using p by simp_all
  have "\<forall>n \<in> set ts. node_built n" using map_res_set [OF t] lock_task_built by blast
  moreover have "\<forall>x \<in> set es. mk_edge x = Inr x" using map_res_set [OF e] lock_edge_built by blast
  moreover have "\<forall>x \<in> set as. artifact_built x" using map_res_set [OF a] lock_artifact_built by blast
  ultimately show ?thesis
    using mk_compiled_workflow_again [OF v] by (simp add: workflow_built_def w del: obj_of.simps)
qed

lemma load_envelope_Inr:
  assumes "load_envelope fr sha read contract path = Inr e"
  shows "env_sha e = sha (env_text fr e)" "satisfies (env_contract e) contract"
proof -
  from assms obtain v where r: "read path = Inr v"
    by (cases "read path") (simp_all add: load_envelope_def split: exn.split_asm)
  with assms obtain d where "envelope_from_dict fr sha d (Some contract) = Inr e"
    by (cases v) (simp_all add: load_envelope_def)
  from from_dict_verified [OF this] show "env_sha e = sha (env_text fr e)"
    "satisfies (env_contract e) contract" by simp_all
qed

text \<open>
  Property C15. A lock that loads is a plan that can be trusted. Whatever file
  \<open>load_workflow_lock\<close> accepts, the envelope's checksum is the SHA-256 of its canonical text and its
  contract satisfies \<open>workflow-lock@1.0\<close>; the workflow it returns is a topologically ordered DAG built
  of normalised parts; and serialising that workflow again gives the payload of the file, so the
  loader neither drops nor invents anything.
\<close>

theorem loaded_lock_faithful:
  assumes "load_workflow_lock fr sha read path = Inr (e, w)"
  shows "env_sha e = sha (env_text fr e) \<and> satisfies (env_contract e) workflow_lock \<and>
    workflow_built w \<and> topological (task_graph w) {} \<and>
    (\<exists>v. workflow_payload w = Inr v \<and> py_eq v (env_payload e))"
proof -
  from assms obtain payload v where l: "load_envelope fr sha read workflow_lock path = Inr e"
    "env_payload e = PDict payload" "lock_workflow fr payload = Inr w" "workflow_payload w = Inr v"
    "py_eq v (PDict payload)"
    by (rule load_workflow_lock_Inr)
  have b: "workflow_built w" by (rule lock_workflow_built [OF l(3)])
  then have "mk_compiled_workflow w = Inr w" by (simp add: workflow_built_def)
  from compiled_topological [OF this] b load_envelope_Inr [OF l(1)] l(2,4,5) show ?thesis by auto
qed

lemma create_envelope_exists:
  assumes "canonical_primitive payload = Inr p" "py_strip producer \<noteq> []" "\<And>t. py_lower (sha t) = sha t"
  shows "\<exists>e. create_envelope fr sha c producer payload [] = Inr e"
proof -
  define e where "e = \<lparr>env_contract = c, env_producer = py_strip producer, env_payload = p, env_extensions = [],
    env_sha = sha (json_text fr (sort_keys (PDict [(''contract'', ref_to_dict c),
      (''producer'', PStr (py_strip producer)), (''payload'', p), (''extensions'', PDict [])])))\<rparr>"
  have "verify_envelope fr sha e = Inr e"
    by (simp add: verify_envelope_Inr e_def env_text_def env_body_def)
  moreover have "canonical_fields [] = Inr []" by simp
  ultimately have "create_envelope fr sha c producer payload [] = Inr e"
    using assms by (simp add: create_envelope_def contract_sha256_def canonical_json_def make_envelope_def
        validate_extensions_def e_def)
  then show ?thesis by blast
qed

lemma workflow_envelope_exists:
  assumes "workflow_built w" "py_strip producer \<noteq> []" "\<And>t. py_lower (sha t) = sha t"
  shows "\<exists>e. workflow_envelope fr sha producer w = Inr e \<and> env_payload e = PDict (workflow_val w)"
proof -
  have "canonical_primitive (obj_of (PDict (workflow_val w))) = Inr (PDict (workflow_val w))"
    by (simp only: canonical_obj_of)
  from create_envelope_exists [where sha = sha and fr = fr and c = workflow_lock, OF this assms(2,3)]
  obtain e where e: "create_envelope fr sha workflow_lock producer (obj_of (PDict (workflow_val w))) [] = Inr e"
    by blast
  have "env_payload e = PDict (workflow_val w)"
    by (rule load_created_envelope(2) [where read = "\<lambda>_. Inr (PDict (envelope_to_dict e))" and path = "[]",
          OF e workflow_lock_ok(1) assms(3) refl])
  with e show ?thesis by (auto simp: workflow_envelope_def workflow_payload_val [OF assms(1)])
qed

section \<open>Concrete locks\<close>

lemma sample_workflow_built: "workflow_built sample_workflow"
proof -
  have ns: "require_namespaced_identifier ''siesta.scf'' f = Inr ''siesta.scf''"
    "require_namespaced_identifier ''siesta.density'' f = Inr ''siesta.density''" for f
    unfolding require_namespaced_identifier_Inr by code_simp+
  have s: "require_local_id t f = Inr t" if "t \<in> {''relax'', ''bands'', ''dm'', ''restart''}" for t f
  proof -
    have "\<forall>t \<in> {''relax'', ''bands'', ''dm'', ''restart''}. local_id t" by code_simp
    with that have "local_id t" by blast
    then show "require_local_id t f = Inr t" by (rule require_local_id_id)
  qed
  have p: "require_relative_artifact_path ''out/run.DM'' f = Inr ''out/run.DM''"
    "require_relative_artifact_path ''run.DM'' f = Inr ''run.DM''" for f
    by (rule require_relative_safe(2) [of "''out/run.DM''" "[]"], code_simp)
      (rule require_relative_safe(2) [of "''run.DM''" "[]"], code_simp)
  have strip: "py_strip ''application/octet-stream'' \<noteq> []" by code_simp
  have b: "mk_input_binding sample_binding = Inr sample_binding"
    by (simp add: mk_input_binding_def sample_binding_def s p strip opt_str_def)
  have o: "mk_output_port sample_port = Inr sample_port"
    by (simp add: mk_output_port_def sample_port_def s ns p strip)
  have e: "mk_edge \<lparr>e_source = ''relax'', e_target = ''bands'', e_kind = ARTIFACT,
      e_output = Some ''dm'', e_input = Some ''restart''\<rparr> = Inr \<lparr>e_source = ''relax'', e_target = ''bands'',
      e_kind = ARTIFACT, e_output = Some ''dm'', e_input = Some ''restart''\<rparr>"
    by (simp add: mk_edge_def s opt_local_id_def)
  have m: "mapping_obj (OMap [])" by (simp add: mapping_obj_def)
  have n: "node_built (sample_node ''relax'' [] [] [sample_port])"
    "node_built (sample_node ''bands'' [''relax''] [sample_binding] [])"
    using b o m by (simp_all add: node_built_def sample_node_def mk_task_node_def s ns)
  show ?thesis
    using n e m sample_workflow_ok by (simp add: workflow_built_def) (simp add: sample_workflow_def)
qed

lemma sample_lock_read:
  obtains e where "workflow_envelope sample_repr py_lower ''qraft'' sample_workflow = Inr e"
    "load_workflow_lock sample_repr py_lower (\<lambda>_. Inr (PDict (envelope_to_dict e))) [] =
       Inr (e, canon_workflow sample_workflow)"
proof -
  have "py_strip ''qraft'' \<noteq> []" by code_simp
  from workflow_envelope_exists [where sha = py_lower and fr = sample_repr, OF sample_workflow_built this]
  obtain e where e: "workflow_envelope sample_repr py_lower ''qraft'' sample_workflow = Inr e"
    "env_payload e = PDict (workflow_val sample_workflow)" by auto
  have "dicts_ok (PDict (workflow_val sample_workflow))" by code_simp
  with workflow_lock_read [where read = "\<lambda>_. Inr (PDict (envelope_to_dict e))" and path = "[]",
      OF sample_workflow_built e(1)] e(2) that [OF e(1)] show thesis by simp
qed

theorem loaded_lock_faithful_witness:
  "\<exists>e w. load_workflow_lock sample_repr py_lower (\<lambda>_. Inr (PDict (envelope_to_dict e))) [] = Inr (e, w) \<and>
     workflow_built w \<and> topological (task_graph w) {}"
proof -
  obtain e where l: "load_workflow_lock sample_repr py_lower (\<lambda>_. Inr (PDict (envelope_to_dict e))) [] =
       Inr (e, canon_workflow sample_workflow)" by (rule sample_lock_read)
  from loaded_lock_faithful [OF l] l show ?thesis by blast
qed

definition sample_run :: prepared_run where
  "sample_run = \<lparr>pr_run_id = '' r1 '', pr_workflow_id = ''w'', pr_project_id = ''p'',
     pr_workflow_lock = replicate 64 CHR ''A'', pr_profile_id = ''lab'', pr_profile_sha256 = replicate 64 CHR ''b'',
     pr_campaign_sha256 = replicate 64 CHR ''c'', pr_task_ids = [''relax'', ''bands''], pr_target = ''slurm'',
     pr_metadata = OMap [], pr_authorized = False, pr_submitted = False\<rparr>"


end
