(* ===== verification/WorkflowPipeline.thy ===== *)
theory WorkflowPipeline
  imports WorkflowParser WorkflowLock
begin

text \<open>
  From the definition to the lock and back: the parser, the resolver, the envelope and the strict
  loader composed as \<open>src/qraft/workflows/compiler.py\<close> and the run preparation compose them.
\<close>

section \<open>Everything the resolver collects has been through a constructor\<close>

definition built_state :: "resolve_state \<Rightarrow> bool" where
  "built_state st \<longleftrightarrow>
     (\<forall>k bs. (k, bs) \<in> set (rs_bindings st) \<longrightarrow> (\<forall>b \<in> set bs. mk_input_binding b = Inr b)) \<and>
     (\<forall>e \<in> set (rs_edges st). mk_edge e = Inr e) \<and>
     (\<forall>k a. (k, a) \<in> set (rs_external st) \<longrightarrow> artifact_built a)"

lemma built_state_finding [simp]: "built_state (add_finding f st) = built_state st"
  by (simp add: built_state_def add_finding_def)

lemma built_state_dependency [simp]: "built_state (add_dependency t d st) = built_state st"
  by (simp add: built_state_def add_dependency_def)

lemma built_state_edge: "built_state st \<Longrightarrow> mk_edge e = Inr d \<Longrightarrow> built_state (st\<lparr>rs_edges := rs_edges st @ [d]\<rparr>)"
  by (auto simp: built_state_def intro: mk_edge_again)

lemma built_control:
  "built_state st \<Longrightarrow> resolve_control_dependencies ids t ds st = Inr st' \<Longrightarrow> built_state st'"
proof (induction ds arbitrary: st)
  case (Cons d ds)
  from Cons.prems(2) obtain st1 where r: "resolve_control_dependencies ids t ds st1 = Inr st'"
    and s: "(\<exists>f. st1 = add_finding f st) \<or>
      (\<exists>e. mk_edge (control_edge d t) = Inr e \<and> st1 = st\<lparr>rs_edges := rs_edges st @ [e]\<rparr>)"
    unfolding resolve_control_dependencies.simps by (auto simp: rbind_Inr_iff split: if_split_asm)
  have "built_state st1"
    using s Cons.prems(1) built_state_edge by auto
  from Cons.IH [OF this r] show ?case .
qed simp

lemma external_reference_built:
  assumes "external_reference fr sha files item = Inr a"
  shows "artifact_built a"
proof -
  from assms obtain x where x: "artifact_reference x = Inr a" "art_metadata x = OMap []"
    by (auto simp: external_reference_def rbind_Inr_iff split: if_split_asm)
  from artifact_reference_Inr(5) [OF x(1)] have "art_metadata a = art_metadata x"
    by (metis artifact_reference.select_convs(9) artifact_reference.surjective
        artifact_reference.update_convs(3,4))
  with x show ?thesis by (simp add: artifact_built_def artifact_reference_again mapping_obj_def)
qed

lemma built_external:
  assumes "built_state st"
  shows "built_state (snd (resolve_external_input fr sha files item st))"
    and "fst (resolve_external_input fr sha files item st) = Some b \<Longrightarrow> mk_input_binding b = Inr b"
proof -
  have st1: "built_state (st\<lparr>rs_external := AList.update (art_id a) a (rs_external st)\<rparr>)"
    if "external_reference fr sha files item = Inr a" for a
    using assms external_reference_built [OF that] in_set_update
    unfolding built_state_def by fastforce
  show "built_state (snd (resolve_external_input fr sha files item st))"
    using assms st1 by (auto simp: resolve_external_input_def external_failed_def Let_def split: sum.splits)
  show "fst (resolve_external_input fr sha files item st) = Some b \<Longrightarrow> mk_input_binding b = Inr b"
    by (auto simp: resolve_external_input_def external_binding_def Let_def intro: mk_input_binding_again
        split: sum.splits if_splits)
qed

lemma built_produced:
  assumes "built_state st"
  shows "built_state (snd (resolve_produced_input ids outputs t item st))"
    and "fst (resolve_produced_input ids outputs t item st) = Some b \<Longrightarrow> mk_input_binding b = Inr b"
proof -
  show "built_state (snd (resolve_produced_input ids outputs t item st))"
    using assms
    by (auto simp: resolve_produced_input_def Let_def rbind_Inr_iff built_state_edge
        split: option.splits sum.splits)
  show "fst (resolve_produced_input ids outputs t item st) = Some b \<Longrightarrow> mk_input_binding b = Inr b"
    by (auto simp: resolve_produced_input_def Let_def rbind_Inr_iff intro: mk_input_binding_again
        split: option.splits sum.splits if_splits)
qed

lemma in_set_map_entry:
  "(j, w) \<in> set (AList.map_entry k f d) \<Longrightarrow> (j, w) \<in> set d \<or> (j = k \<and> (\<exists>v. (k, v) \<in> set d \<and> w = f v))"
  by (induction d) (auto split: if_splits)

lemma built_inputs:
  "built_state st \<Longrightarrow> built_state (resolve_inputs fr sha files ids outputs t items st)"
proof (induction items arbitrary: st)
  case (Cons item items)
  define r where "r = (if d_source_path item \<noteq> None then resolve_external_input fr sha files item st
    else resolve_produced_input ids outputs t item st)"
  obtain b st1 where r1: "r = (b, st1)" by (cases r)
  have s: "built_state st1" and b: "\<And>x. b = Some x \<Longrightarrow> mk_input_binding x = Inr x"
    using built_external [OF Cons.prems, of fr sha files item]
      built_produced [OF Cons.prems, of ids outputs t item] r1
    unfolding r_def by (auto split: if_splits)
  define st2 where "st2 = (case b of None \<Rightarrow> st1
      | Some x \<Rightarrow> st1\<lparr>rs_bindings := AList.map_entry t (\<lambda>bs. bs @ [x]) (rs_bindings st1)\<rparr>)"
  have "built_state st2"
  proof (cases b)
    case (Some x)
    with s b [OF Some] show ?thesis
      by (auto simp: st2_def built_state_def dest!: in_set_map_entry)
  qed (use s in \<open>simp add: st2_def\<close>)
  moreover have "resolve_inputs fr sha files ids outputs t (item # items) st =
      resolve_inputs fr sha files ids outputs t items st2"
    using r1 by (simp add: r_def st2_def)
  ultimately show ?case using Cons.IH by simp
qed simp

lemma built_tasks:
  "built_state st \<Longrightarrow> resolve_tasks fr sha files ids outputs ts st = Inr st' \<Longrightarrow> built_state st'"
proof (induction ts arbitrary: st)
  case (Cons t ts)
  then obtain st1 where c: "resolve_control_dependencies ids (td_id t) (td_dependencies t) st = Inr st1"
    and r: "resolve_tasks fr sha files ids outputs ts
      (resolve_inputs fr sha files ids outputs (td_id t) (td_inputs t) st1) = Inr st'"
    by (auto simp: rbind_Inr_iff)
  from Cons.IH [OF built_inputs [OF built_control [OF Cons.prems(1) c]] r] show ?case .
qed simp

lemma built_start: "built_state (resolve_start ts fs)"
proof -
  have "\<forall>k bs. (k, bs) \<in> set (fold (\<lambda>t d. AList.update (td_id t) [] d) ts d) \<longrightarrow> bs = []"
    if "\<forall>k bs. (k, bs) \<in> set d \<longrightarrow> bs = []" for d :: "input_binding list dict"
    using that
  proof (induction ts arbitrary: d)
    case (Cons t ts)
    show ?case unfolding fold.simps comp_apply
      by (rule Cons.IH) (use Cons.prems in_set_update in fastforce)
  qed simp
  from this [of "[]"] show ?thesis by (fastforce simp: built_state_def resolve_start_def)
qed

lemma canonical_data_mapping: "canonical_primitive (OData fs) = Inr v \<Longrightarrow> mapping_obj (OData fs)"
  by (auto simp: mapping_obj_def rbind_Inr_iff)

lemma make_node_built:
  assumes "make_node st t = Inr n" "built_state st" "\<forall>p \<in> set (td_outputs t). mk_output_port p = Inr p"
  shows "node_built n"
proof -
  from assms(1) have m: "mk_task_node
       \<lparr>node_id = td_id t, node_kind = td_kind t, node_capability = td_capability t,
        node_dependencies =
          sorted_list_of_set (case map_of (rs_dependencies st) (td_id t) of None \<Rightarrow> {} | Some v \<Rightarrow> v),
        node_inputs =
          sort_key in_name (case map_of (rs_bindings st) (td_id t) of None \<Rightarrow> [] | Some v \<Rightarrow> v),
        node_outputs = sort_key out_name (td_outputs t),
        node_resources = OData (td_resources t), node_settings = OData (td_settings t)\<rparr> = Inr n"
    by (simp add: make_node_def)
  note b = mk_task_node_built [OF m]
  have "mk_input_binding x = Inr x" if "x \<in> set (node_inputs n)" for x
  proof -
    from that obtain bs where "map_of (rs_bindings st) (td_id t) = Some bs" "x \<in> set bs"
      unfolding b(2) by (cases "map_of (rs_bindings st) (td_id t)") auto
    with assms(2) show ?thesis unfolding built_state_def by (blast dest: map_of_SomeD)
  qed
  moreover from m obtain u v where "canonical_primitive (OData (td_resources t)) = Inr u"
    "canonical_primitive (OData (td_settings t)) = Inr v"
    by (auto simp: mk_task_node_def rbind_Inr_iff simp del: canonical_primitive.simps split: if_split_asm)
  ultimately show ?thesis
    using assms(3) b by (simp add: node_built_def canonical_data_mapping del: canonical_primitive.simps)
qed

lemma resolve_built:
  assumes "resolve fr sha files parsed fs = Inr (Some w, fs')"
    and "\<forall>t \<in> set (pw_tasks parsed). \<forall>p \<in> set (td_outputs t). mk_output_port p = Inr p"
  shows "workflow_built w"
proof -
  let ?ts = "pw_tasks parsed"
  from assms(1) obtain st where st: "resolve_tasks fr sha files (td_id ` set ?ts) (draft_output ?ts) ?ts
      (resolve_start ?ts fs) = Inr st"
    and rest: "(let (order, findings1) = topological_order (rs_dependencies st) (rs_findings st) in
        if findings1 \<noteq> [] \<or> order = None then Inr (None, findings1)
        else let (nodes, findings2) = make_nodes st (draft_by_id ?ts) (the order) [] findings1 in
          if findings2 \<noteq> [] then Inr (None, findings2)
          else (case mk_compiled_workflow (compiled_of parsed st nodes) of
                  Inr w \<Rightarrow> Inr (Some w, findings2)
                | Inl (ValueError m) \<Rightarrow>
                    Inr (None, findings2 @ [wf_finding ''WORKFLOW_CONTRACT_INVALID'' m ''workflow''
                                              None STRUCTURE])
                | Inl x \<Rightarrow> Inl x)) = Inr (Some w, fs')"
    by (auto simp: resolve_def Let_def rbind_Inr_iff)
  have b: "built_state st" by (rule built_tasks [OF built_start st])
  obtain o' fs1 where o: "topological_order (rs_dependencies st) (rs_findings st) = (o', fs1)" by fastforce
  obtain nodes fs2 where n: "make_nodes st (draft_by_id ?ts) (the o') [] fs1 = (nodes, fs2)" by fastforce
  from rest o n have w: "mk_compiled_workflow (compiled_of parsed st nodes) = Inr w"
    by (auto split: if_splits sum.splits exn.splits)
  have nodes: "\<forall>n \<in> set ms. node_built n"
    if "make_nodes st (draft_by_id ?ts) is ns gs = (ms, hs)" "\<forall>n \<in> set ns. node_built n" for "is" ns gs ms hs
    using that
  proof (induction "is" arbitrary: ns gs)
    case (Cons i "is")
    show ?case
    proof (cases "draft_by_id ?ts i")
      case None
      with Cons show ?thesis by simp
    next
      case (Some t)
      then have "t \<in> set ?ts" unfolding draft_by_id_def using find_some by fastforce
      then have built: "make_node st t = Inr n \<Longrightarrow> node_built n" for n
        using make_node_built [OF _ b] assms(2) by blast
      show ?thesis
      proof (cases "make_node st t")
        case (Inl x)
        with Some Cons.prems(1) have "make_nodes st (draft_by_id ?ts) is ns (gs @ [wf_finding ''WORKFLOW_TASK_INVALID''
            (exn_str x) (''tasks.'' @ i) None STRUCTURE]) = (ms, hs)" by simp
        from Cons.IH [OF this Cons.prems(2)] show ?thesis .
      next
        case (Inr n)
        with Some Cons.prems(1) have m: "make_nodes st (draft_by_id ?ts) is (ns @ [n]) gs = (ms, hs)" by simp
        have "\<forall>m \<in> set (ns @ [n]). node_built m" using built [OF Inr] Cons.prems(2) by simp
        from Cons.IH [OF m this] show ?thesis .
      qed
    qed
  qed simp
  from nodes [OF n] have nb: "\<forall>n \<in> set nodes. node_built n" by simp
  note v = mk_compiled_workflow_Inr(10) [OF w]
  from w obtain u where u: "canonical_primitive (wf_metadata (compiled_of parsed st nodes)) = Inr u"
    by (auto simp: mk_compiled_workflow_def Let_def rbind_Inr_iff split: if_split_asm)
  have m: "mapping_obj (wf_metadata w)"
    using u canonical_data_mapping unfolding v by (simp add: compiled_of_def del: canonical_primitive.simps split: if_splits)
  have t: "wf_tasks w = nodes" "set (wf_edges w) = set (rs_edges st)"
    "set (wf_externals w) = snd ` set (rs_external st)"
    unfolding v by (simp_all add: compiled_of_def)
  show ?thesis
    using mk_compiled_workflow_again [OF w] nb b m
    by (auto simp: workflow_built_def t built_state_def)
qed

section \<open>The lock carries what the definition says\<close>



end
