(* ===== verification/RuntimeJournal.thy ===== *)
theory RuntimeJournal
  imports Validation
begin

text \<open>
  The runtime's durable state: the snapshot and its journal, from
  \<open>src/qraft/execution/capability_runtime.py\<close> (\<open>_state_payload_from_wrapper\<close>,
  \<open>_apply_state_mutation\<close>, \<open>load_runtime_state_payload\<close>, \<open>_append_state_mutation\<close>,
  \<open>_save_state\<close>, \<open>_compact_state_journal\<close>). The state is the JSON value the code keeps. Python
  compares dictionaries without their order and the code prints them with sorted keys, so the
  dictionaries of the state are kept sorted here and equal dictionaries are equal lists.
\<close>

section \<open>Sorted dictionaries\<close>

fun dput :: "string \<Rightarrow> 'v \<Rightarrow> 'v dict \<Rightarrow> 'v dict" where
  "dput k v [] = [(k, v)]"
| "dput k v ((j, w) # d) =
     (if k = j then (k, v) # d else if k < j then (k, v) # (j, w) # d else (j, w) # dput k v d)"

text \<open>\<open>d.update(changes)\<close>\<close>

fun dupdate :: "'v dict \<Rightarrow> 'v dict \<Rightarrow> 'v dict" where
  "dupdate [] d = d"
| "dupdate ((k, v) # cs) d = dupdate cs (dput k v d)"

abbreviation sorted_dict :: "'v dict \<Rightarrow> bool" where
  "sorted_dict d \<equiv> sorted_wrt (<) (map fst d)"

lemma map_of_dput: "sorted_dict d \<Longrightarrow> map_of (dput k v d) = (map_of d)(k \<mapsto> v)"
proof (induction d)
  case (Cons p d)
  obtain j w where p: "p = (j, w)" by (cases p)
  have "k < j \<Longrightarrow> map_of d k = None"
    using Cons.prems p by (auto simp: map_of_eq_None_iff image_iff dest: order.strict_trans)
  with Cons p show ?case by (auto simp: fun_upd_twist)
qed simp

lemma keys_dput: "fst ` set (dput k v d) = insert k (fst ` set d)"
  by (induction k v d rule: dput.induct) (simp_all add: insert_commute)

lemma values_dput: "(i, x) \<in> set (dput k v d) \<Longrightarrow> (i = k \<and> x = v) \<or> (i, x) \<in> set d"
  by (induction d) (auto split: if_splits)

lemma sorted_dput: "sorted_dict d \<Longrightarrow> sorted_dict (dput k v d)"
proof (induction d)
  case (Cons p d)
  obtain j w where p: "p = (j, w)" by (cases p)
  with Cons show ?case using keys_dput [of k v d] by (auto dest: order.strict_trans)
qed simp

lemma sorted_dupdate: "sorted_dict d \<Longrightarrow> sorted_dict (dupdate cs d)"
  by (induction cs d rule: dupdate.induct) (simp_all add: sorted_dput)

text \<open>A JSON value all of whose dictionaries are sorted; sorting the keys changes nothing.\<close>

fun canon :: "pyval \<Rightarrow> bool"
and canon_all :: "pyval list \<Rightarrow> bool"
and canon_items :: "pyval dict \<Rightarrow> bool" where
  "canon (PList xs) = canon_all xs"
| "canon (PDict d) = (sorted_dict d \<and> canon_items d)"
| "canon PNone = True"
| "canon (PBool b) = True"
| "canon (PInt n) = True"
| "canon (PFloat q) = True"
| "canon (PStr s) = True"
| "canon_all [] = True"
| "canon_all (x # xs) = (canon x \<and> canon_all xs)"
| "canon_items [] = True"
| "canon_items ((k, v) # d) = (canon v \<and> canon_items d)"

lemma canon_all_iff: "canon_all xs \<longleftrightarrow> (\<forall>x \<in> set xs. canon x)"
  by (induction xs) auto

lemma canon_items_iff: "canon_items d \<longleftrightarrow> (\<forall>k v. (k, v) \<in> set d \<longrightarrow> canon v)"
  by (induction d) auto

lemma sort_key_sorted: "sorted_dict d \<Longrightarrow> sort_key fst d = d"
  by (rule sort_key_id_if_sorted) (simp add: strict_sorted_iff)

lemma canon_sort_keys:
  "canon v \<Longrightarrow> sort_keys v = v" "canon_all xs \<Longrightarrow> sort_all xs = xs" "canon_items d \<Longrightarrow> sort_items d = d"
  by (induction v and xs and d rule: canon_canon_all_canon_items.induct)
    (simp_all add: sort_key_sorted)

lemma canon_dput:
  assumes "canon (PDict d)" "canon v"
  shows "canon (PDict (dput k v d))"
  using assms values_dput [of _ _ k v d] by (auto simp: sorted_dput canon_items_iff)

lemma canon_dupdate: "canon (PDict d) \<Longrightarrow> canon (PDict cs) \<Longrightarrow> canon (PDict (dupdate cs d))"
proof (induction cs d rule: dupdate.induct)
  case (2 k v cs d)
  then have "canon (PDict (dput k v d))" by (intro canon_dput) auto
  with 2 show ?case by auto
qed simp

lemma canon_lookup: "canon (PDict d) \<Longrightarrow> map_of d k = Some v \<Longrightarrow> canon v"
  by (auto simp: canon_items_iff dest: map_of_SomeD)

section \<open>Mutations\<close>

definition apply_task_mutation :: "pyval dict \<Rightarrow> pyval dict \<Rightarrow> pyval dict res" where
  "apply_task_mutation state mutation =
     (case (map_of mutation ''task_id'', map_of mutation ''changes'') of
        (Some (PStr tid), Some (PDict changes)) \<Rightarrow>
          (case map_of state ''tasks'' of
             Some (PDict tasks) \<Rightarrow>
               (case map_of tasks tid of
                  Some (PDict t) \<Rightarrow>
                    Inr (dput ''tasks'' (PDict (dput tid (PDict (dupdate changes t)) tasks)) state)
                | _ \<Rightarrow> Inl (ValueError ''workflow runtime journal task identity mismatch''))
           | _ \<Rightarrow> Inl (ValueError ''workflow runtime journal task identity mismatch''))
      | _ \<Rightarrow> Inl (ValueError ''invalid workflow runtime task journal mutation''))"

definition apply_append_mutation :: "pyval dict \<Rightarrow> pyval dict \<Rightarrow> pyval dict res" where
  "apply_append_mutation state mutation =
     (case map_of mutation ''invocation'' of
        Some (PDict invocation) \<Rightarrow>
          (case field_or (PList []) state ''allocation_history'' of
             PList history \<Rightarrow>
               Inr (dput ''allocation_history'' (PList (history @ [PDict invocation])) state)
           | _ \<Rightarrow> Inl (ValueError ''workflow runtime allocation history is invalid''))
      | _ \<Rightarrow> Inl (ValueError ''invalid workflow runtime allocation journal mutation''))"

definition apply_update_mutation :: "pyval dict \<Rightarrow> pyval dict \<Rightarrow> pyval dict res" where
  "apply_update_mutation state mutation =
     (case (map_of mutation ''changes'', map_of state ''allocation_history'') of
        (Some (PDict changes), Some (PList history)) \<Rightarrow>
          if history = []
          then Inl (ValueError ''invalid workflow runtime allocation update mutation'')
          else (case last history of
                  PDict entry \<Rightarrow>
                    Inr (dput ''allocation_history''
                           (PList (butlast history @ [PDict (dupdate changes entry)])) state)
                | _ \<Rightarrow> Inl (ValueError ''workflow runtime allocation history entry is invalid''))
      | _ \<Rightarrow> Inl (ValueError ''invalid workflow runtime allocation update mutation''))"

definition apply_field_mutation :: "pyval dict \<Rightarrow> pyval dict \<Rightarrow> pyval dict res" where
  "apply_field_mutation state mutation =
     (case map_of mutation ''changes'' of
        Some (PDict changes) \<Rightarrow> Inr (dupdate changes state)
      | _ \<Rightarrow> Inl (ValueError ''invalid workflow runtime state journal mutation''))"

definition apply_state_mutation :: "pyval dict \<Rightarrow> pyval dict \<Rightarrow> pyval dict res" where
  "apply_state_mutation state mutation =
     (let kind = field_or PNone mutation ''kind'' in
      if kind = PStr ''task'' then apply_task_mutation state mutation
      else if kind = PStr ''allocation_append'' then apply_append_mutation state mutation
      else if kind = PStr ''allocation_update'' then apply_update_mutation state mutation
      else if kind = PStr ''state'' then apply_field_mutation state mutation
      else Inl (ValueError ''unknown workflow runtime journal mutation''))"

section \<open>Snapshot and journal files\<close>

text \<open>
  The snapshot file as parsed JSON. A journal line is empty, not JSON, or a JSON value; a missing
  journal file is \<open>None\<close>.
\<close>

datatype journal_line = EmptyLine | BadJson | JsonLine pyval

definition checksum :: "(rat \<Rightarrow> string) \<Rightarrow> (string \<Rightarrow> string) \<Rightarrow> pyval \<Rightarrow> pyval" where
  "checksum fr sha v = PStr (sha (json_text fr (sort_keys v)))"

definition state_payload_from_wrapper ::
  "(rat \<Rightarrow> string) \<Rightarrow> (string \<Rightarrow> string) \<Rightarrow> pyval \<Rightarrow> pyval dict res" where
  "state_payload_from_wrapper fr sha wrapper =
     (case wrapper of
        PDict w \<Rightarrow>
          (case map_of w ''payload'' of
             Some (PDict payload) \<Rightarrow>
               if map_of w ''schema_version'' \<noteq> Some (PStr ''1.0'')
               then Inl (ValueError ''invalid workflow runtime state schema'')
               else if Some (checksum fr sha (PDict payload)) \<noteq> map_of w ''sha256''
               then Inl (ValueError ''workflow runtime state checksum mismatch'')
               else Inr (sort_key fst (sort_items payload))
           | _ \<Rightarrow> Inl (ValueError ''invalid workflow runtime state schema''))
      | _ \<Rightarrow> Inl (AttributeError ''no attribute get''))"

text \<open>The checks of one record: \<open>(previous, revision, mutation, updated_at)\<close> when it is valid.\<close>

definition read_record ::
  "(rat \<Rightarrow> string) \<Rightarrow> (string \<Rightarrow> string) \<Rightarrow> journal_line \<Rightarrow> (int \<times> int \<times> pyval dict \<times> string) res" where
  "read_record fr sha line =
     (case line of
        EmptyLine \<Rightarrow> Inl (ValueError ''empty workflow runtime journal record'')
      | BadJson \<Rightarrow> Inl (ValueError ''invalid workflow runtime journal JSON'')
      | JsonLine (PDict r) \<Rightarrow>
          if map_of r ''sha256'' \<noteq>
             Some (checksum fr sha (PDict (filter (\<lambda>p. fst p \<noteq> ''sha256'') r)))
          then Inl (ValueError ''workflow runtime journal checksum mismatch'')
          else (case (map_of r ''previous_revision'', map_of r ''revision'', map_of r ''mutation'',
                      map_of r ''updated_at'') of
                  (Some (PInt previous), Some (PInt revision), Some (PDict mutation),
                   Some (PStr updated_at)) \<Rightarrow>
                    if map_of r ''schema_version'' \<noteq> Some (PStr ''1.0'') \<or> revision \<noteq> previous + 1
                    then Inl (ValueError ''invalid workflow runtime journal record'')
                    else Inr (previous, revision, mutation, updated_at)
                | _ \<Rightarrow> Inl (ValueError ''invalid workflow runtime journal record''))
      | JsonLine _ \<Rightarrow> Inl (ValueError ''invalid workflow runtime journal record''))"

fun replay_journal ::
  "(rat \<Rightarrow> string) \<Rightarrow> (string \<Rightarrow> string) \<Rightarrow> journal_line list \<Rightarrow> int option \<Rightarrow> pyval dict \<Rightarrow>
   pyval dict res" where
  "replay_journal fr sha [] expected state = Inr state"
| "replay_journal fr sha (line # rest) expected state =
     rbind (read_record fr sha line) (\<lambda>(previous, revision, mutation, updated_at).
       if expected \<noteq> None \<and> Some previous \<noteq> expected
       then Inl (ValueError ''workflow runtime journal revision discontinuity'')
       else (case map_of state ''revision'' of
               Some (PInt current) \<Rightarrow>
                 if revision \<le> current then replay_journal fr sha rest (Some revision) state
                 else if previous \<noteq> current
                 then Inl (ValueError ''workflow runtime journal cannot apply revision'')
                 else rbind (apply_state_mutation state mutation) (\<lambda>state1.
                   replay_journal fr sha rest (Some revision)
                     (dput ''updated_at'' (PStr updated_at) (dput ''revision'' (PInt revision) state1)))
             | _ \<Rightarrow> Inl (ValueError ''workflow runtime state revision is invalid'')))"

definition load_runtime_state_payload ::
  "(rat \<Rightarrow> string) \<Rightarrow> (string \<Rightarrow> string) \<Rightarrow> pyval \<Rightarrow> journal_line list option \<Rightarrow> pyval dict res" where
  "load_runtime_state_payload fr sha wrapper journal =
     rbind (state_payload_from_wrapper fr sha wrapper) (\<lambda>state.
       case journal of None \<Rightarrow> Inr state | Some lines \<Rightarrow> replay_journal fr sha lines None state)"

section \<open>Writing\<close>

definition save_state :: "(rat \<Rightarrow> string) \<Rightarrow> (string \<Rightarrow> string) \<Rightarrow> pyval dict \<Rightarrow> pyval" where
  "save_state fr sha state =
     PDict [(''payload'', sort_keys (PDict state)), (''schema_version'', PStr ''1.0''),
            (''sha256'', checksum fr sha (sort_keys (PDict state)))]"

text \<open>The line a mutation appends, and what it does to the state in memory.\<close>

definition unsigned_record :: "int \<Rightarrow> string \<Rightarrow> pyval dict \<Rightarrow> pyval dict" where
  "unsigned_record previous updated_at mutation =
     [(''mutation'', PDict mutation), (''previous_revision'', PInt previous),
      (''revision'', PInt (previous + 1)), (''schema_version'', PStr ''1.0''),
      (''updated_at'', PStr updated_at)]"

definition journal_record ::
  "(rat \<Rightarrow> string) \<Rightarrow> (string \<Rightarrow> string) \<Rightarrow> int \<Rightarrow> string \<Rightarrow> pyval dict \<Rightarrow> journal_line" where
  "journal_record fr sha previous updated_at mutation =
     (let u = unsigned_record previous updated_at mutation in
      JsonLine (sort_keys (PDict (dput ''sha256'' (checksum fr sha (PDict u)) u))))"

definition apply_in_memory :: "string \<Rightarrow> pyval dict \<Rightarrow> pyval dict \<Rightarrow> pyval dict res" where
  "apply_in_memory updated_at mutation state =
     (case map_of state ''revision'' of
        Some (PInt previous) \<Rightarrow>
          rbind (apply_state_mutation state mutation) (\<lambda>state1.
            Inr (dput ''updated_at'' (PStr updated_at)
                   (dput ''revision'' (PInt (previous + 1)) state1)))
      | _ \<Rightarrow> Inl (ValueError ''workflow runtime state revision is invalid''))"

text \<open>
  \<open>_append_state_mutation\<close>: the record is durable before the mutation is applied, so the journal
  has it even when the mutation is refused. The result is the state or the error, with the journal.
\<close>

definition append_state_mutation ::
  "(rat \<Rightarrow> string) \<Rightarrow> (string \<Rightarrow> string) \<Rightarrow> string \<Rightarrow> pyval dict \<Rightarrow> pyval dict \<Rightarrow>
   journal_line list option \<Rightarrow> pyval dict res \<times> journal_line list option" where
  "append_state_mutation fr sha updated_at mutation state journal =
     (case map_of state ''revision'' of
        Some (PInt previous) \<Rightarrow>
          (apply_in_memory updated_at mutation state,
           Some ((case journal of None \<Rightarrow> [] | Some ls \<Rightarrow> ls) @
                 [journal_record fr sha previous updated_at mutation]))
      | _ \<Rightarrow> (Inl (ValueError ''workflow runtime state revision is invalid''), journal))"

section \<open>Mutations keep the state canonical\<close>

lemma canon_task_mutation:
  assumes "canon (PDict s)" "canon (PDict m)" "apply_task_mutation s m = Inr s'"
  shows "canon (PDict s')"
proof -
  from assms(3) obtain tid changes tasks t where
    "map_of m ''changes'' = Some (PDict changes)" "map_of s ''tasks'' = Some (PDict tasks)"
    "map_of tasks tid = Some (PDict t)"
    and s': "s' = dput ''tasks'' (PDict (dput tid (PDict (dupdate changes t)) tasks)) s"
    by (auto simp: apply_task_mutation_def split: option.splits pyval.splits)
  then have "canon (PDict changes)" "canon (PDict tasks)" "canon (PDict t)"
    using assms(1,2) canon_lookup by blast+
  with assms(1) show ?thesis unfolding s' by (intro canon_dput canon_dupdate)
qed

lemma canon_append_mutation:
  assumes "canon (PDict s)" "canon (PDict m)" "apply_append_mutation s m = Inr s'"
  shows "canon (PDict s')"
proof -
  from assms(3) obtain inv history where i: "map_of m ''invocation'' = Some (PDict inv)"
    and h: "field_or (PList []) s ''allocation_history'' = PList history"
    and s': "s' = dput ''allocation_history'' (PList (history @ [PDict inv])) s"
    by (auto simp: apply_append_mutation_def split: option.splits pyval.splits)
  have "canon (PList history)"
  proof (cases "map_of s ''allocation_history''")
    case None
    with h show ?thesis by (simp add: field_or_def)
  next
    case (Some v)
    with h have "v = PList history" by (simp add: field_or_def)
    with Some show ?thesis using canon_lookup [OF assms(1)] by blast
  qed
  moreover have "canon (PDict inv)" using i assms(2) canon_lookup by blast
  ultimately have "canon (PList (history @ [PDict inv]))" by (auto simp: canon_all_iff)
  with assms(1) show ?thesis unfolding s' by (rule canon_dput)
qed

lemma canon_update_mutation:
  assumes "canon (PDict s)" "canon (PDict m)" "apply_update_mutation s m = Inr s'"
  shows "canon (PDict s')"
proof -
  from assms(3) obtain changes history entry where c: "map_of m ''changes'' = Some (PDict changes)"
    and h: "map_of s ''allocation_history'' = Some (PList history)" "history \<noteq> []"
    "last history = PDict entry"
    and s': "s' = dput ''allocation_history''
        (PList (butlast history @ [PDict (dupdate changes entry)])) s"
    by (auto simp: apply_update_mutation_def split: option.splits pyval.splits if_splits)
  have hist: "\<forall>x \<in> set history. canon x"
    using canon_lookup [OF assms(1) h(1)] by (simp add: canon_all_iff)
  then have "canon (PDict entry)" using h(2,3) last_in_set by metis
  moreover have "canon (PDict changes)" using c assms(2) canon_lookup by blast
  ultimately have "canon (PDict (dupdate changes entry))" by (intro canon_dupdate)
  moreover have "\<forall>x \<in> set (butlast history). canon x" using hist in_set_butlastD by metis
  ultimately have "canon (PList (butlast history @ [PDict (dupdate changes entry)]))"
    unfolding canon.simps(1) canon_all_iff by (simp del: canon.simps)
  with assms(1) show ?thesis unfolding s' by (rule canon_dput)
qed

lemma canon_field_mutation:
  assumes "canon (PDict s)" "canon (PDict m)" "apply_field_mutation s m = Inr s'"
  shows "canon (PDict s')"
proof -
  from assms(3) obtain changes where c: "map_of m ''changes'' = Some (PDict changes)"
    and s': "s' = dupdate changes s"
    by (auto simp: apply_field_mutation_def split: option.splits pyval.splits)
  from c assms(2) canon_lookup have "canon (PDict changes)" by blast
  with assms(1) show ?thesis unfolding s' by (rule canon_dupdate)
qed

lemma canon_state_mutation:
  "canon (PDict s) \<Longrightarrow> canon (PDict m) \<Longrightarrow> apply_state_mutation s m = Inr s' \<Longrightarrow> canon (PDict s')"
  unfolding apply_state_mutation_def Let_def
  by (auto simp del: canon.simps split: if_splits
      dest: canon_task_mutation canon_append_mutation canon_update_mutation canon_field_mutation)

lemma canon_in_memory:
  assumes "canon (PDict s)" "canon (PDict m)" "apply_in_memory t m s = Inr s'"
  shows "canon (PDict s')"
proof -
  from assms(3) obtain p s1 where "apply_state_mutation s m = Inr s1"
    and s': "s' = dput ''updated_at'' (PStr t) (dput ''revision'' (PInt (p + 1)) s1)"
    by (auto simp: apply_in_memory_def rbind_Inr_iff split: option.splits pyval.splits)
  with canon_state_mutation assms(1,2) have "canon (PDict s1)" by blast
  then show ?thesis unfolding s' by (intro canon_dput) simp_all
qed

section \<open>Reading what was written\<close>

definition revision :: "pyval dict \<Rightarrow> int option" where
  "revision s = (case map_of s ''revision'' of Some (PInt n) \<Rightarrow> Some n | _ \<Rightarrow> None)"

lemma revision_Some: "revision s = Some n \<longleftrightarrow> map_of s ''revision'' = Some (PInt n)"
  by (auto simp: revision_def split: option.splits pyval.splits)

lemma read_snapshot:
  assumes "canon (PDict s)"
  shows "state_payload_from_wrapper fr sha (save_state fr sha s) = Inr s"
proof -
  have k: "sort_keys (PDict s) = PDict s" using canon_sort_keys(1) [OF assms] .
  then have "sort_key fst (sort_items s) = s" by simp
  then show ?thesis
    unfolding save_state_def k state_payload_from_wrapper_def by (simp add: checksum_def k)
qed

lemma journal_record_canon:
  assumes "canon (PDict m)"
  shows "journal_record fr sha p t m =
    JsonLine (PDict (dput ''sha256'' (checksum fr sha (PDict (unsigned_record p t m)))
      (unsigned_record p t m)))"
proof -
  have "canon (PDict (unsigned_record p t m))"
    using assms by (simp add: unsigned_record_def)
  then have "canon (PDict (dput ''sha256'' (checksum fr sha (PDict (unsigned_record p t m)))
      (unsigned_record p t m)))"
    by (rule canon_dput) (simp add: checksum_def)
  from canon_sort_keys(1) [OF this] show ?thesis by (simp only: journal_record_def Let_def)
qed

lemma read_written_record:
  assumes "canon (PDict m)"
  shows "read_record fr sha (journal_record fr sha p t m) = Inr (p, p + 1, m, t)"
proof -
  let ?u = "unsigned_record p t m" and ?c = "checksum fr sha (PDict (unsigned_record p t m))"
  have r: "dput ''sha256'' ?c ?u =
      [(''mutation'', PDict m), (''previous_revision'', PInt p), (''revision'', PInt (p + 1)),
       (''schema_version'', PStr ''1.0''), (''sha256'', ?c), (''updated_at'', PStr t)]"
    by (simp add: unsigned_record_def)
  then have "filter (\<lambda>x. fst x \<noteq> ''sha256'') (dput ''sha256'' ?c ?u) = ?u"
    by (simp add: unsigned_record_def)
  with r show ?thesis unfolding journal_record_canon [OF assms] read_record_def by simp
qed

text \<open>A sequence of mutations with their times, applied in memory, and the lines they leave.\<close>

type_synonym mutation_entry = "string \<times> pyval dict"

fun apply_entries :: "mutation_entry list \<Rightarrow> pyval dict \<Rightarrow> pyval dict res" where
  "apply_entries [] s = Inr s"
| "apply_entries ((t, m) # es) s = rbind (apply_in_memory t m s) (apply_entries es)"

fun entry_lines ::
  "(rat \<Rightarrow> string) \<Rightarrow> (string \<Rightarrow> string) \<Rightarrow> int \<Rightarrow> mutation_entry list \<Rightarrow> journal_line list" where
  "entry_lines fr sha r [] = []"
| "entry_lines fr sha r ((t, m) # es) =
     journal_record fr sha r t m # entry_lines fr sha (r + 1) es"

definition entries_canon :: "mutation_entry list \<Rightarrow> bool" where
  "entries_canon es \<longleftrightarrow> (\<forall>t m. (t, m) \<in> set es \<longrightarrow> canon (PDict m))"

lemma entries_canon_Cons [simp]:
  "entries_canon ((t, m) # es) \<longleftrightarrow> canon (PDict m) \<and> entries_canon es"
  by (auto simp: entries_canon_def)

lemma entries_canon_append: "entries_canon (es @ fs) \<longleftrightarrow> entries_canon es \<and> entries_canon fs"
  by (auto simp: entries_canon_def)

lemma apply_in_memory_revision:
  assumes "canon (PDict s)" "canon (PDict m)" "apply_in_memory t m s = Inr s'"
  shows "\<exists>n. revision s = Some n \<and> revision s' = Some (n + 1)"
proof -
  from assms(3) obtain p s1 where p: "map_of s ''revision'' = Some (PInt p)"
    "apply_state_mutation s m = Inr s1"
    and s': "s' = dput ''updated_at'' (PStr t) (dput ''revision'' (PInt (p + 1)) s1)"
    by (auto simp: apply_in_memory_def rbind_Inr_iff split: option.splits pyval.splits)
  from canon_state_mutation [OF assms(1,2) p(2)] have "sorted_dict s1" by simp
  then have "revision s' = Some (p + 1)"
    by (simp add: revision_Some s' map_of_dput sorted_dput)
  with p(1) show ?thesis by (simp add: revision_Some)
qed

lemma apply_entries_revision:
  assumes "canon (PDict s)" "entries_canon es" "apply_entries es s = Inr s'" "revision s = Some n"
  shows "canon (PDict s')" "revision s' = Some (n + int (length es))"
proof -
  have "canon (PDict s') \<and> revision s' = Some (n + int (length es))"
    using assms
  proof (induction es arbitrary: s n)
    case (Cons e es)
    obtain t m where e: "e = (t, m)" by (cases e)
    with Cons.prems obtain s1 where s1: "apply_in_memory t m s = Inr s1" "apply_entries es s1 = Inr s'"
      by (auto simp: rbind_Inr_iff)
    have m: "canon (PDict m)" "entries_canon es" using Cons.prems(2) e by simp_all
    have "revision s1 = Some (n + 1)"
      using apply_in_memory_revision [OF Cons.prems(1) m(1) s1(1)] Cons.prems(4) by auto
    from Cons.IH [OF canon_in_memory [OF Cons.prems(1) m(1) s1(1)] m(2) s1(2) this]
    show ?case by (simp add: algebra_simps)
  qed simp
  then show "canon (PDict s')" "revision s' = Some (n + int (length es))" by blast+
qed

lemma apply_entries_append:
  "apply_entries (es @ fs) s = rbind (apply_entries es s) (apply_entries fs)"
proof (induction es arbitrary: s)
  case (Cons e es)
  obtain t m where "e = (t, m)" by (cases e)
  with Cons show ?case by (cases "apply_in_memory t m s") simp_all
qed simp

lemma entry_lines_append:
  "entry_lines fr sha r (es @ fs) =
   entry_lines fr sha r es @ entry_lines fr sha (r + int (length es)) fs"
  by (induction fr sha r es rule: entry_lines.induct) (simp_all add: algebra_simps)

text \<open>Lines that the snapshot already contains are read, checked and skipped.\<close>

lemma replay_skip:
  assumes "entries_canon es" "revision s = Some n" "r + int (length es) \<le> n"
    and "expected = None \<or> expected = Some r"
  shows "replay_journal fr sha (entry_lines fr sha r es @ rest) expected s =
         replay_journal fr sha rest (if es = [] then expected else Some (r + int (length es))) s"
  using assms
proof (induction es arbitrary: r expected)
  case (Cons e es)
  obtain t m where e: "e = (t, m)" by (cases e)
  have "canon (PDict m)" "entries_canon es" using Cons.prems(1) e by simp_all
  moreover have "r + 1 \<le> n" using Cons.prems(3) by simp
  moreover have "map_of s ''revision'' = Some (PInt n)" using Cons.prems(2) by (simp add: revision_Some)
  ultimately show ?case
    using Cons.IH [of "r + 1" "Some (r + 1)"] Cons.prems e
    by (auto simp: read_written_record algebra_simps)
qed simp

lemma replay_apply:
  assumes "canon (PDict s)" "entries_canon es" "revision s = Some r" "apply_entries es s = Inr s'"
    and "expected = None \<or> expected = Some r"
  shows "replay_journal fr sha (entry_lines fr sha r es) expected s = Inr s'"
  using assms
proof (induction es arbitrary: s r expected)
  case (Cons e es)
  obtain t m where e: "e = (t, m)" by (cases e)
  have m: "canon (PDict m)" "entries_canon es" using Cons.prems(2) e by simp_all
  have rv: "map_of s ''revision'' = Some (PInt r)" using Cons.prems(3) by (simp add: revision_Some)
  from Cons.prems(4) e obtain s1 where s1: "apply_in_memory t m s = Inr s1" "apply_entries es s1 = Inr s'"
    by (auto simp: rbind_Inr_iff)
  from s1(1) rv obtain s2 where s2: "apply_state_mutation s m = Inr s2"
    "s1 = dput ''updated_at'' (PStr t) (dput ''revision'' (PInt (r + 1)) s2)"
    by (auto simp: apply_in_memory_def rbind_Inr_iff)
  have "revision s1 = Some (r + 1)"
    using apply_in_memory_revision [OF Cons.prems(1) m(1) s1(1)] Cons.prems(3) by auto
  from Cons.IH [OF canon_in_memory [OF Cons.prems(1) m(1) s1(1)] m(2) this s1(2), of "Some (r + 1)"]
  show ?case using Cons.prems(5) rv s2 m(1) e by (auto simp: read_written_record)
qed simp

lemma load_written:
  assumes "canon (PDict s0)" "revision s0 = Some r" "entries_canon (es @ fs)"
    and "apply_entries es s0 = Inr s1" "apply_entries fs s1 = Inr s2"
  shows "load_runtime_state_payload fr sha (save_state fr sha s1)
           (Some (entry_lines fr sha r (es @ fs))) = Inr s2"
proof -
  have c: "entries_canon es" "entries_canon fs" using assms(3) by (simp_all add: entries_canon_append)
  note s1 = apply_entries_revision [OF assms(1) c(1) assms(4,2)]
  have "replay_journal fr sha (entry_lines fr sha r (es @ fs)) None s1 =
      replay_journal fr sha (entry_lines fr sha (r + int (length es)) fs)
        (if es = [] then None else Some (r + int (length es))) s1"
    unfolding entry_lines_append
    by (rule replay_skip [OF c(1) s1(2)]) simp_all
  also have "\<dots> = Inr s2"
    by (rule replay_apply [OF s1(1) c(2) s1(2) assms(5)]) simp
  finally show ?thesis
    by (simp add: load_runtime_state_payload_def read_snapshot [OF s1(1)])
qed

section \<open>The store under crashes\<close>

text \<open>
  The runtime's writes as atomic steps that a crash can separate: a journal line becomes durable
  (\<open>append_text\<close>), the mutation is applied in memory, the snapshot is replaced
  (\<open>atomic_write_json\<close>), the journal is removed. \<open>pending\<close> is a mutation that is durable but not
  yet applied. A crash loses the memory; the next invocation loads it from the files. Removal
  happens only in \<open>_compact_state_journal\<close>, directly after the snapshot was written.
\<close>

record store =
  snapshot :: pyval
  journal :: "journal_line list option"
  memory :: "pyval dict"
  pending :: "mutation_entry option"

definition journal_lines :: "store \<Rightarrow> journal_line list" where
  "journal_lines c = (case journal c of None \<Rightarrow> [] | Some ls \<Rightarrow> ls)"

definition start_store :: "(rat \<Rightarrow> string) \<Rightarrow> (string \<Rightarrow> string) \<Rightarrow> pyval dict \<Rightarrow> store" where
  "start_store fr sha s =
     \<lparr>snapshot = save_state fr sha s, journal = None, memory = s, pending = None\<rparr>"

inductive store_step ::
  "(rat \<Rightarrow> string) \<Rightarrow> (string \<Rightarrow> string) \<Rightarrow> store \<Rightarrow> store \<Rightarrow> bool" for fr sha where
  step_write: "pending c = None \<Longrightarrow> canon (PDict m) \<Longrightarrow>
     append_state_mutation fr sha t m (memory c) (journal c) = (Inr s, ls) \<Longrightarrow>
     store_step fr sha c (c\<lparr>journal := ls, pending := Some (t, m)\<rparr>)"
| step_apply: "pending c = Some (t, m) \<Longrightarrow> apply_in_memory t m (memory c) = Inr s \<Longrightarrow>
     store_step fr sha c (c\<lparr>memory := s, pending := None\<rparr>)"
| step_snapshot: "pending c = None \<Longrightarrow>
     store_step fr sha c (c\<lparr>snapshot := save_state fr sha (memory c)\<rparr>)"
| step_remove: "pending c = None \<Longrightarrow> snapshot c = save_state fr sha (memory c) \<Longrightarrow>
     store_step fr sha c (c\<lparr>journal := None\<rparr>)"
| step_crash: "load_runtime_state_payload fr sha (snapshot c) (journal c) = Inr s \<Longrightarrow>
     store_step fr sha c (c\<lparr>memory := s, pending := None\<rparr>)"

inductive store_reachable ::
  "(rat \<Rightarrow> string) \<Rightarrow> (string \<Rightarrow> string) \<Rightarrow> pyval dict \<Rightarrow> store \<Rightarrow> bool" for fr sha s0 where
  reach_start: "store_reachable fr sha s0 (start_store fr sha s0)"
| reach_step: "store_reachable fr sha s0 c \<Longrightarrow> store_step fr sha c d \<Longrightarrow> store_reachable fr sha s0 d"

text \<open>The state the files stand for: the memory with the durable pending mutation.\<close>

definition durable_state :: "store \<Rightarrow> pyval dict res" where
  "durable_state c =
     (case pending c of None \<Rightarrow> Inr (memory c) | Some (t, m) \<Rightarrow> apply_in_memory t m (memory c))"

definition store_inv :: "(rat \<Rightarrow> string) \<Rightarrow> (string \<Rightarrow> string) \<Rightarrow> store \<Rightarrow> bool" where
  "store_inv fr sha c \<longleftrightarrow>
     canon (PDict (memory c)) \<and>
     (\<exists>b r es fs s1 s2. canon (PDict b) \<and> revision b = Some r \<and> entries_canon (es @ fs) \<and>
        apply_entries es b = Inr s1 \<and> apply_entries fs s1 = Inr s2 \<and>
        snapshot c = save_state fr sha s1 \<and>
        journal_lines c = entry_lines fr sha r (es @ fs) \<and>
        durable_state c = Inr s2 \<and>
        (case pending c of None \<Rightarrow> True
         | Some (t, m) \<Rightarrow> canon (PDict m)))"

lemma load_journal_lines:
  "load_runtime_state_payload fr sha (snapshot c) (journal c) =
   load_runtime_state_payload fr sha (snapshot c) (Some (journal_lines c))"
  by (cases "journal c")
    (simp_all add: load_runtime_state_payload_def journal_lines_def)

lemma store_inv_load:
  assumes "store_inv fr sha c"
  shows "load_runtime_state_payload fr sha (snapshot c) (journal c) = durable_state c"
    and "\<exists>s. durable_state c = Inr s \<and> canon (PDict s)"
proof -
  from assms obtain b r es fs s1 s2 where i: "canon (PDict b)" "revision b = Some r"
      "entries_canon (es @ fs)" "apply_entries es b = Inr s1" "apply_entries fs s1 = Inr s2"
    and c: "snapshot c = save_state fr sha s1" "journal_lines c = entry_lines fr sha r (es @ fs)"
      "durable_state c = Inr s2"
    unfolding store_inv_def by blast
  from load_written [OF i] show "load_runtime_state_payload fr sha (snapshot c) (journal c) =
      durable_state c" using load_journal_lines [of fr sha c] by (simp only: c)
  have "apply_entries (es @ fs) b = Inr s2" using i(4,5) by (simp add: apply_entries_append)
  from apply_entries_revision(1) [OF i(1,3) this i(2)] c(3)
  show "\<exists>s. durable_state c = Inr s \<and> canon (PDict s)" by blast
qed

lemma store_inv_settled:
  assumes "canon (PDict s)" "revision s = Some r" "memory c = s" "pending c = None"
    "snapshot c = save_state fr sha s" "journal_lines c = []"
  shows "store_inv fr sha c"
  unfolding store_inv_def using assms
  by (intro conjI exI [of _ s] exI [of _ r] exI [of _ "[]"])
    (simp_all add: durable_state_def entries_canon_def)

lemma store_inv_step:
  assumes "store_inv fr sha c" "store_step fr sha c d"
  shows "store_inv fr sha d"
proof -
  from assms(1) obtain b r es fs s1 s2 where i: "canon (PDict b)" "revision b = Some r"
      "entries_canon (es @ fs)" "apply_entries es b = Inr s1" "apply_entries fs s1 = Inr s2"
    and c: "snapshot c = save_state fr sha s1" "journal_lines c = entry_lines fr sha r (es @ fs)"
      "durable_state c = Inr s2" and mem: "canon (PDict (memory c))"
      and p: "case pending c of None \<Rightarrow> True | Some (t, m) \<Rightarrow> canon (PDict m)"
    unfolding store_inv_def by blast
  have all: "apply_entries (es @ fs) b = Inr s2" using i(4,5) by (simp add: apply_entries_append)
  note s2 = apply_entries_revision [OF i(1,3) all i(2)]
  from assms(2) show ?thesis
  proof (cases rule: store_step.cases)
    case (step_write m t s ls)
    have ms: "memory c = s2" using c(3) step_write(2) by (simp add: durable_state_def)
    let ?r = "r + int (length (es @ fs))"
    have rv: "map_of (memory c) ''revision'' = Some (PInt ?r)" using s2(2) ms by (simp add: revision_Some)
    have a: "apply_in_memory t m s2 = Inr s"
      and ls: "ls = Some (journal_lines c @ [journal_record fr sha ?r t m])"
      using step_write(4) rv ms by (auto simp: append_state_mutation_def journal_lines_def)
    have "entries_canon (es @ (fs @ [(t, m)]))"
      using i(3) step_write(3) by (simp add: entries_canon_append) (simp add: entries_canon_def)
    moreover have "apply_entries (fs @ [(t, m)]) s1 = Inr s"
      using i(5) a by (simp add: apply_entries_append)
    moreover have "journal_lines d = entry_lines fr sha r (es @ (fs @ [(t, m)]))"
      using c(2) ls entry_lines_append [of fr sha r "es @ fs" "[(t, m)]"]
      by (simp add: step_write(1) journal_lines_def)
    ultimately show ?thesis
      unfolding store_inv_def using i(1,2,4) c(1) mem a ms step_write(3)
      by (intro conjI exI [of _ b] exI [of _ r] exI [of _ es] exI [of _ "fs @ [(t, m)]"]
          exI [of _ s1] exI [of _ s])
        (simp_all add: step_write(1) durable_state_def)
  next
    case (step_apply t m s)
    have "s = s2" using c(3) step_apply(2,3) by (simp add: durable_state_def)
    then show ?thesis
      unfolding store_inv_def using i c(1,2) s2(1)
      by (intro conjI exI [of _ b] exI [of _ r] exI [of _ es] exI [of _ fs] exI [of _ s1] exI [of _ s2])
        (simp_all add: step_apply(1) durable_state_def journal_lines_def)
  next
    case step_snapshot
    have ms: "memory c = s2" using c(3) step_snapshot(2) by (simp add: durable_state_def)
    show ?thesis
      unfolding store_inv_def using i(1,2,3) all c(2) s2(1) ms step_snapshot(2)
      by (intro conjI exI [of _ b] exI [of _ r] exI [of _ "es @ fs"] exI [of _ "[]"] exI [of _ s2]
          exI [of _ s2])
        (simp_all add: step_snapshot(1) durable_state_def journal_lines_def)
  next
    case step_remove
    have ms: "memory c = s2" using c(3) step_remove(2) by (simp add: durable_state_def)
    show ?thesis
      by (rule store_inv_settled [OF s2])
        (use ms step_remove in \<open>simp_all add: journal_lines_def\<close>)
  next
    case (step_crash s)
    have "s = s2" using step_crash(2) store_inv_load(1) [OF assms(1)] c(3) by simp
    then show ?thesis
      unfolding store_inv_def using i c(1,2) s2(1)
      by (intro conjI exI [of _ b] exI [of _ r] exI [of _ es] exI [of _ fs] exI [of _ s1] exI [of _ s2])
        (simp_all add: step_crash(1) durable_state_def journal_lines_def)
  qed
qed

lemma store_inv_reachable:
  assumes "store_reachable fr sha s0 c" "canon (PDict s0)" "revision s0 = Some r"
  shows "store_inv fr sha c"
  using assms
proof (induction rule: store_reachable.induct)
  case reach_start
  show ?case
    by (rule store_inv_settled [OF reach_start]) (simp_all add: start_store_def journal_lines_def)
next
  case (reach_step c d)
  then show ?case using store_inv_step by blast
qed


definition sample_state :: "pyval dict" where
  "sample_state =
     [(''revision'', PInt 0),
      (''tasks'', PDict [(''a'', PDict [(''status'', PStr ''PENDING'')])])]"

definition sample_mutation :: "pyval dict" where
  "sample_mutation =
     [(''changes'', PDict [(''status'', PStr ''RUNNING'')]), (''kind'', PStr ''task''),
      (''task_id'', PStr ''a'')]"

definition sample_store :: store where
  "sample_store = (start_store (\<lambda>q. []) (\<lambda>t. t) sample_state)
     \<lparr>journal := Some [journal_record (\<lambda>q. []) (\<lambda>t. t) 0 ''t1'' sample_mutation],
      pending := Some (''t1'', sample_mutation)\<rparr>"

lemma sample_applies:
  "apply_in_memory ''t1'' sample_mutation sample_state =
   Inr [(''revision'', PInt 1), (''tasks'', PDict [(''a'', PDict [(''status'', PStr ''RUNNING'')])]),
        (''updated_at'', PStr ''t1'')]"
  by code_simp

lemma sample_store_reachable: "store_reachable (\<lambda>q. []) (\<lambda>t. t) sample_state sample_store"
  unfolding sample_store_def
proof (rule reach_step [OF reach_start step_write])
  show "pending (start_store (\<lambda>q. []) (\<lambda>t. t) sample_state) = None"
    by (simp add: start_store_def)
  show "canon (PDict sample_mutation)" by (simp add: sample_mutation_def)
  show "append_state_mutation (\<lambda>q. []) (\<lambda>t. t) ''t1'' sample_mutation
      (memory (start_store (\<lambda>q. []) (\<lambda>t. t) sample_state))
      (journal (start_store (\<lambda>q. []) (\<lambda>t. t) sample_state)) =
    (Inr [(''revision'', PInt 1), (''tasks'', PDict [(''a'', PDict [(''status'', PStr ''RUNNING'')])]),
          (''updated_at'', PStr ''t1'')],
     Some [journal_record (\<lambda>q. []) (\<lambda>t. t) 0 ''t1'' sample_mutation])"
    using sample_applies by (simp add: append_state_mutation_def start_store_def)
      (simp add: sample_state_def)
qed


section \<open>A journal with a hole\<close>

lemma replay_gap:
  assumes "canon (PDict s)" "entries_canon es" "revision s = Some r" "apply_entries es s = Inr s1"
    and "canon (PDict m)" "q \<noteq> r + int (length es)" "es \<noteq> []"
    and "expected = None \<or> expected = Some r"
  shows "replay_journal fr sha (entry_lines fr sha r es @ journal_record fr sha q t m # rest) expected s =
    Inl (ValueError ''workflow runtime journal revision discontinuity'')"
  using assms
proof (induction es arbitrary: s r expected)
  case (Cons e es)
  obtain t' m' where e: "e = (t', m')" by (cases e)
  have m: "canon (PDict m')" "entries_canon es" using Cons.prems(2) e by simp_all
  have rv: "map_of s ''revision'' = Some (PInt r)" using Cons.prems(3) by (simp add: revision_Some)
  from Cons.prems(4) e obtain s1' where s1: "apply_in_memory t' m' s = Inr s1'" "apply_entries es s1' = Inr s1"
    by (auto simp: rbind_Inr_iff)
  from s1(1) rv obtain s2 where s2: "apply_state_mutation s m' = Inr s2"
    "s1' = dput ''updated_at'' (PStr t') (dput ''revision'' (PInt (r + 1)) s2)"
    by (auto simp: apply_in_memory_def rbind_Inr_iff)
  have r1: "revision s1' = Some (r + 1)"
    using apply_in_memory_revision [OF Cons.prems(1) m(1) s1(1)] Cons.prems(3) by auto
  have c1: "canon (PDict s1')" by (rule canon_in_memory [OF Cons.prems(1) m(1) s1(1)])
  have here: "replay_journal fr sha (entry_lines fr sha r (e # es) @ journal_record fr sha q t m # rest) expected s =
    replay_journal fr sha (entry_lines fr sha (r + 1) es @ journal_record fr sha q t m # rest) (Some (r + 1)) s1'"
    using Cons.prems(8) rv s2 m(1) e by (auto simp: read_written_record)
  show ?case
  proof (cases "es = []")
    case True
    then show ?thesis unfolding here using Cons.prems(5,6) by (simp add: read_written_record)
  next
    case False
    then show ?thesis unfolding here
      using Cons.IH [OF c1 m(2) r1 s1(2) Cons.prems(5)] Cons.prems(6) by simp
  qed
qed simp



end
