(* ===== verification/ControllerReservation.thy ===== *)
theory ControllerReservation
  imports Adapters Coordinator
begin

text \<open>
  What a task asks of the allocation: the controller reservation value of
  \<open>src/qraft/execution/controller_reservation.py\<close>, and \<open>_resource_request\<close>, \<open>_launcher_for\<close> and
  \<open>_remaining_allocation_allows\<close> of \<open>src/qraft/execution/capability_runtime.py\<close>.
\<close>

section \<open>The reservation\<close>

record controller_reservation =
  cr_nodes :: int
  cr_launcher :: string
  cr_processes_per_node :: int
  cr_cpus_per_process :: int
  cr_max_launches :: int

definition controller_reservation ::
  "pyval \<Rightarrow> pyval \<Rightarrow> pyval \<Rightarrow> pyval \<Rightarrow> pyval \<Rightarrow> controller_reservation res" where
  "controller_reservation nodes launcher processes cpus launches =
     (if \<not> positive_int nodes
      then Inl (ValueError ''controller reservation nodes must be a positive integer'')
      else if \<not> positive_int processes
      then Inl (ValueError ''controller reservation inner_processes_per_node must be a positive integer'')
      else if \<not> positive_int cpus
      then Inl (ValueError ''controller reservation inner_cpus_per_process must be a positive integer'')
      else if \<not> positive_int launches
      then Inl (ValueError ''controller reservation max_concurrent_inner_launches must be a positive integer'')
      else if launcher \<noteq> PStr ''hydra'' \<and> launcher \<noteq> PStr ''openmpi''
      then Inl (ValueError ''controller inner_launcher must be hydra or openmpi'')
      else if int_of nodes \<noteq> 1
      then Inl (ValueError ''CONTROLLER_CONTAINMENT_UNAVAILABLE: v1 requires one host'')
      else if int_of cpus \<noteq> 1
      then Inl (ValueError ''controller inner_cpus_per_process must be 1'')
      else Inr \<lparr>cr_nodes = int_of nodes,
                cr_launcher = (if launcher = PStr ''hydra'' then ''hydra'' else ''openmpi''),
                cr_processes_per_node = int_of processes, cr_cpus_per_process = int_of cpus,
                cr_max_launches = int_of launches\<rparr>)"

definition min_cpus :: "controller_reservation \<Rightarrow> int" where
  "min_cpus r = cr_processes_per_node r * cr_cpus_per_process r * cr_max_launches r"

definition reservation_fields :: "string list" where
  "reservation_fields = [''nodes'', ''inner_launcher'', ''inner_processes_per_node'',
     ''inner_cpus_per_process'', ''max_concurrent_inner_launches'']"

definition reservation_from_mapping :: "pyval \<Rightarrow> controller_reservation res" where
  "reservation_from_mapping v =
     (case v of
        PDict d \<Rightarrow>
          if set (map fst d) \<noteq> set reservation_fields
          then Inl (ValueError ''controller reservation fields are missing or unknown'')
          else controller_reservation (field_or PNone d ''nodes'') (field_or PNone d ''inner_launcher'')
                 (field_or PNone d ''inner_processes_per_node'')
                 (field_or PNone d ''inner_cpus_per_process'')
                 (field_or PNone d ''max_concurrent_inner_launches'')
      | _ \<Rightarrow> Inl (ValueError ''controller reservation fields are missing or unknown''))"

definition reservation_to_mapping :: "controller_reservation \<Rightarrow> pyval dict" where
  "reservation_to_mapping r =
     [(''nodes'', PInt (cr_nodes r)), (''inner_launcher'', PStr (cr_launcher r)),
      (''inner_processes_per_node'', PInt (cr_processes_per_node r)),
      (''inner_cpus_per_process'', PInt (cr_cpus_per_process r)),
      (''max_concurrent_inner_launches'', PInt (cr_max_launches r))]"

definition reservation_request :: "controller_reservation \<Rightarrow> string \<Rightarrow> allocation \<Rightarrow> request res" where
  "reservation_request r tid a =
     (if total_cpus a mod total_nodes a \<noteq> 0
      then Inl (ValueError ''controller allocation must have integral CPUs per node'')
      else let runtime_cpus = total_cpus a div total_nodes a in
        if runtime_cpus < min_cpus r then Inl (ValueError ''CONTROLLER_ALLOCATION_INSUFFICIENT'')
        else if int (length (hosts a)) \<noteq> total_nodes a
        then Inl (ValueError ''controller reservation requires explicit allocation hosts'')
        else resource_request tid (PInt runtime_cpus) (PInt (cr_nodes r)) True)"

section \<open>The request of a task\<close>

text \<open>
  The constants of one runtime instance: the compiled workflow, the allocation, the execution
  specification of every task, the controller reservations, the launcher registry, and the host the
  runtime itself is on (used with controllers only).
\<close>

type_synonym spec_map = "execution_spec dict"

definition requires_hosts :: "launcher_adapter dict \<Rightarrow> string \<Rightarrow> bool" where
  "requires_hosts reg launcher =
     (case require_adapter ''launcher'' launcher reg of Inr a \<Rightarrow> la_requires_hosts a | Inl e \<Rightarrow> False)"

definition task_request ::
  "spec_map \<Rightarrow> controller_reservation dict \<Rightarrow> launcher_adapter dict \<Rightarrow> allocation \<Rightarrow> string \<Rightarrow> request res" where
  "task_request specs reservations reg a tid =
     (case map_of specs tid of
        None \<Rightarrow> Inl (KeyError tid)
      | Some e \<Rightarrow>
          (case map_of reservations tid of
             Some r \<Rightarrow> reservation_request r tid a
           | None \<Rightarrow>
               (let exclusive = (if reservations \<noteq> [] \<and> es_launcher e \<noteq> ''direct'' then True
                                 else requires_hosts reg (es_launcher e))
                in resource_request tid (PInt (allocated_cpus e)) (PInt (es_nodes e)) exclusive)))"

text \<open>\<open>_launcher_for\<close> over the composed launchers, by their case-folded names.\<close>

definition launcher_for :: "'l dict \<Rightarrow> execution_spec \<Rightarrow> 'l res" where
  "launcher_for launchers e =
     (let name = py_lower (es_launcher e) in
      case map_of launchers name of
        Some l \<Rightarrow> Inr l
      | None \<Rightarrow> (case map_of launchers ''*'' of
                   Some l \<Rightarrow> Inr l
                 | None \<Rightarrow> Inl (ValueError (''no launcher composed for execution adapter: '' @ name))))"

text \<open>
  \<open>remaining_seconds\<close> is \<open>None\<close> when the allocation has no end (\<open>math.inf\<close>). The resources of a
  task are numbers: the definition parser accepts positive integers only.
\<close>

fun number_of :: "pyobj \<Rightarrow> rat res" where
  "number_of (OInt n) = Inr (of_int n)"
| "number_of (OFloat q) = Inr q"
| "number_of (OBool b) = Inr (of_bool b)"
| "number_of _ = Inl (TypeError ''not a number'')"

definition resource_value :: "pyobj \<Rightarrow> string \<Rightarrow> pyobj option" where
  "resource_value resources name =
     (case resources of OMap d \<Rightarrow> map_of d (OStr name) | OData d \<Rightarrow> map_of d name | _ \<Rightarrow> None)"

definition remaining_allocation_allows :: "pyobj \<Rightarrow> rat \<Rightarrow> rat option \<Rightarrow> bool res" where
  "remaining_allocation_allows resources margin remaining =
     (case resource_value resources ''estimated_runtime_seconds'' of
        None \<Rightarrow> Inr True
      | Some ONone \<Rightarrow> Inr True
      | Some v \<Rightarrow> rbind (number_of v) (\<lambda>estimate.
          if estimate < 0 then Inl (ValueError ''estimated_runtime_seconds cannot be negative'')
          else Inr (case remaining of None \<Rightarrow> True | Some t \<Rightarrow> estimate + margin < t)))"

text \<open>\<open>int(task.resources.get("max_attempts", 2))\<close>; a float is truncated toward zero.\<close>

definition max_attempts :: "pyobj \<Rightarrow> int res" where
  "max_attempts resources =
     (case resource_value resources ''max_attempts'' of
        None \<Rightarrow> Inr 2
      | Some v \<Rightarrow> rbind (number_of v) (\<lambda>q. Inr (if 0 \<le> q then \<lfloor>q\<rfloor> else - \<lfloor>- q\<rfloor>)))"

section \<open>Properties\<close>

definition reservation_ok :: "controller_reservation \<Rightarrow> bool" where
  "reservation_ok r \<longleftrightarrow> cr_nodes r = 1 \<and> cr_cpus_per_process r = 1 \<and>
     cr_launcher r \<in> {''hydra'', ''openmpi''} \<and> 0 < cr_processes_per_node r \<and> 0 < cr_max_launches r"

lemma controller_reservation_ok:
  "controller_reservation n l p c m = Inr r \<Longrightarrow> reservation_ok r"
  by (auto simp: controller_reservation_def reservation_ok_def positive_int_int_of split: if_splits)

lemma min_cpus_pos: "reservation_ok r \<Longrightarrow> 0 < min_cpus r"
  by (simp add: reservation_ok_def min_cpus_def)

lemma reservation_requestE:
  assumes "reservation_request r tid a = Inr q"
  shows "q = \<lparr>req_task_id = tid, req_cpus = total_cpus a div total_nodes a, req_nodes = cr_nodes r,
      exclusive_hosts = True\<rparr>" "total_cpus a mod total_nodes a = 0"
    "min_cpus r \<le> total_cpus a div total_nodes a" "int (length (hosts a)) = total_nodes a"
  using assms
  by (auto simp: reservation_request_def resource_request_def Let_def split: if_splits)

lemma task_request_id:
  "task_request specs res reg a tid = Inr q \<Longrightarrow> req_task_id q = tid"
  by (auto simp: task_request_def resource_request_def reservation_request_def Let_def
      split: option.splits if_splits)

lemma task_request_ok: "task_request specs res reg a tid = Inr q \<Longrightarrow> request_ok q"
  by (auto simp: task_request_def reservation_request_def Let_def dest!: resource_request_ok
      split: option.splits if_splits)

text \<open>
  Property C38. A controller reservation the allocation admits can be granted: its request takes one
  host with all of that host's CPUs, exclusively, it is at least the CPUs its inner launches can use
  at the same time, and an idle coordinator of the allocation can always fit it.
\<close>

theorem reservation_request_fits:
  assumes "controller_reservation n l p c m = Inr r" "reservation_request r tid a = Inr q"
    and "allocation_ok a"
  shows "min_cpus r \<le> req_cpus q \<and> req_cpus q * total_nodes a = total_cpus a \<and> req_nodes q = 1 \<and>
    exclusive_hosts q \<and> can_ever_fit (new_coordinator a) q"
proof -
  note q = reservation_requestE [OF assms(2)]
  have ok: "reservation_ok r" using assms(1) by (rule controller_reservation_ok)
  have a: "0 < total_nodes a" "0 < total_cpus a" using assms(3) by (simp_all add: allocation_ok_def)
  have prod: "total_cpus a div total_nodes a * total_nodes a = total_cpus a"
    using q(2) by (simp add: mod_0_imp_dvd)
  have "0 < total_cpus a div total_nodes a" using q(3) min_cpus_pos [OF ok] by linarith
  then have "total_cpus a div total_nodes a \<le> total_cpus a div total_nodes a * total_nodes a"
    using a(1) by simp
  then have "total_cpus a div total_nodes a \<le> total_cpus a" using prod by simp
  with a q ok prod show ?thesis
    by (simp add: reservation_ok_def can_ever_fit_def new_coordinator_def)
qed

definition sample_reservation :: controller_reservation where
  "sample_reservation = \<lparr>cr_nodes = 1, cr_launcher = ''hydra'', cr_processes_per_node = 2,
     cr_cpus_per_process = 1, cr_max_launches = 2\<rparr>"

theorem reservation_request_fits_witness:
  "\<exists>r q. controller_reservation (PInt 1) (PStr ''hydra'') (PInt 2) (PInt 1) (PInt 2) = Inr r \<and>
     reservation_request r ''ctl'' sample_allocation = Inr q \<and> req_cpus q = 4 \<and>
     can_ever_fit (new_coordinator sample_allocation) q"
proof -
  have r: "controller_reservation (PInt 1) (PStr ''hydra'') (PInt 2) (PInt 1) (PInt 2) =
      Inr sample_reservation" by code_simp
  have q: "reservation_request sample_reservation ''ctl'' sample_allocation =
      Inr \<lparr>req_task_id = ''ctl'', req_cpus = 4, req_nodes = 1, exclusive_hosts = True\<rparr>" by code_simp
  from reservation_request_fits [OF r q sample_allocation_ok] r q show ?thesis by auto
qed

text \<open>
  Reservations survive their mapping form: \<open>from_mapping\<close> of \<open>to_mapping\<close> is the
  reservation, and a mapping with a field missing or an unknown field is refused.
\<close>

theorem reservation_mapping_roundtrip:
  assumes "controller_reservation n l p c m = Inr r"
  shows "reservation_from_mapping (PDict (reservation_to_mapping r)) = Inr r \<and>
    (\<forall>d. set (map fst d) \<noteq> set reservation_fields \<longrightarrow>
       reservation_from_mapping (PDict d) =
         Inl (ValueError ''controller reservation fields are missing or unknown''))"
proof -
  have "reservation_ok r" using assms by (rule controller_reservation_ok)
  then have "reservation_from_mapping (PDict (reservation_to_mapping r)) = Inr r"
    by (auto simp: reservation_from_mapping_def reservation_to_mapping_def reservation_fields_def
        field_or_def controller_reservation_def reservation_ok_def)
  then show ?thesis by (simp add: reservation_from_mapping_def)
qed

theorem reservation_mapping_roundtrip_witness:
  "reservation_from_mapping (PDict (reservation_to_mapping sample_reservation)) = Inr sample_reservation"
proof -
  have "controller_reservation (PInt 1) (PStr ''hydra'') (PInt 2) (PInt 1) (PInt 2) =
      Inr sample_reservation" by code_simp
  from reservation_mapping_roundtrip [OF this] show ?thesis by blast
qed

end
