(* ===== verification/Scheduler.thy ===== *)
theory Scheduler
  imports ControllerReservation WorkflowContract
begin

text \<open>
  The execution loop of \<open>src/qraft/execution/capability_runtime.py\<close>: \<open>CompiledWorkflowRuntime.run\<close>
  with \<open>_set_task\<close>, \<open>_block_descendants\<close>, \<open>_is_ready\<close>, and what a worker thread
  (\<open>_execute_task\<close>) does to the shared state. The main thread and the workers interleave: each
  event below is one piece of code between two points where another thread can run. A worker's
  preparation, launch and evidence are not part of this component; only its writes to the task
  records are.
\<close>

section \<open>State\<close>

record task_record =
  tr_status :: string
  tr_attempts :: int
  tr_last_attempt :: "string option"
  tr_manifest :: "string option"
  tr_reason :: string

text \<open>
  A worker has been submitted, has reserved its attempt, has returned, or raised an exception that
  \<open>_execute_task\<close> does not catch.
\<close>

datatype worker = Submitted | Reserved | Returned | Crashed string

text \<open>Where the main thread is in its loop, with what it still has to visit.\<close>

datatype phase =
    Blocking "task_node list"
  | Margin
  | Scanning "task_node list" "task_node list"
  | Launching "task_node list" bool
  | Waiting bool
  | Collecting "string list"
  | Ended string
  | Raised exn

record sched =
  records :: "task_record dict"
  pool :: coordinator
  attempted :: "string set"
  active :: "lease dict"
  workers :: "worker dict"
  stop_reason :: "string option"
  retained :: "string set"
  phase :: phase

record runtime_config =
  cfg_tasks :: "task_node list"
  cfg_specs :: "execution_spec dict"
  cfg_reservations :: "controller_reservation dict"
  cfg_adapters :: "launcher_adapter dict"
  cfg_allocation :: allocation
  cfg_host :: string

text \<open>
  The records are those of the workflow's tasks (\<open>_load_or_initialize_state\<close> checks it), so the
  default of the lookup is never used on a workflow's own ids.
\<close>

definition record_of :: "sched \<Rightarrow> string \<Rightarrow> task_record" where
  "record_of s tid =
     (case map_of (records s) tid of
        Some r \<Rightarrow> r
      | None \<Rightarrow> \<lparr>tr_status = [], tr_attempts = 0, tr_last_attempt = None, tr_manifest = None, tr_reason = []\<rparr>)"

definition status_of :: "sched \<Rightarrow> string \<Rightarrow> string" where
  "status_of s tid = tr_status (record_of s tid)"

section \<open>Writes\<close>

text \<open>\<open>_set_task(task_id, status, reason, **fields)\<close>: the fields a caller does not name are \<open>None\<close>.\<close>

record task_changes =
  ch_attempts :: "int option"
  ch_last_attempt :: "string option"
  ch_manifest :: "string option option"

definition no_changes :: task_changes where
  "no_changes = \<lparr>ch_attempts = None, ch_last_attempt = None, ch_manifest = None\<rparr>"

definition change_record :: "string \<Rightarrow> string \<Rightarrow> task_changes \<Rightarrow> task_record \<Rightarrow> task_record" where
  "change_record status reason ch r =
     r\<lparr>tr_status := status, tr_reason := reason,
       tr_attempts := (case ch_attempts ch of None \<Rightarrow> tr_attempts r | Some n \<Rightarrow> n),
       tr_last_attempt := (case ch_last_attempt ch of None \<Rightarrow> tr_last_attempt r | Some a \<Rightarrow> Some a),
       tr_manifest := (case ch_manifest ch of None \<Rightarrow> tr_manifest r | Some m \<Rightarrow> m)\<rparr>"

definition set_task :: "string \<Rightarrow> string \<Rightarrow> string \<Rightarrow> task_changes \<Rightarrow> sched \<Rightarrow> sched" where
  "set_task tid status reason ch s =
     s\<lparr>records := AList.map_entry tid (change_record status reason ch) (records s)\<rparr>"

text \<open>\<open>CooperativeShutdown.request\<close>: the first reason wins.\<close>

definition request_shutdown :: "string \<Rightarrow> sched \<Rightarrow> sched" where
  "request_shutdown reason s =
     (case stop_reason s of None \<Rightarrow> s\<lparr>stop_reason := Some reason\<rparr> | Some r \<Rightarrow> s)"

section \<open>The main thread\<close>

definition terminal_failures :: "string set" where
  "terminal_failures = {''FAILED'', ''BLOCKED'', ''CANCELLED''}"

definition launchable :: "string set" where
  "launchable = {''PENDING'', ''INTERRUPTED'', ''INCOMPLETE''}"

definition failed_dependencies :: "sched \<Rightarrow> task_node \<Rightarrow> string list" where
  "failed_dependencies s t = filter (\<lambda>d. status_of s d \<in> terminal_failures) (node_dependencies t)"

text \<open>\<open>_block_descendants\<close>, one task of its loop.\<close>

definition block_task :: "task_node \<Rightarrow> sched \<Rightarrow> sched" where
  "block_task t s =
     (if status_of s (node_id t) \<noteq> ''PENDING'' then s
      else let failed = failed_dependencies s t in
        if failed = [] then s
        else set_task (node_id t) ''BLOCKED'' (''failed dependency: '' @ join_text '', '' (sort failed))
               no_changes s)"

definition is_ready :: "task_node \<Rightarrow> sched \<Rightarrow> (bool \<times> sched) res" where
  "is_ready t s =
     (if status_of s (node_id t) \<notin> launchable then Inr (False, s)
      else rbind (max_attempts (node_resources t)) (\<lambda>m.
        if m \<le> tr_attempts (record_of s (node_id t))
        then Inr (False, set_task (node_id t) ''FAILED'' ''maximum attempts exhausted'' no_changes s)
        else Inr (list_all (\<lambda>d. status_of s d = ''COMPLETED'') (node_dependencies t), s)))"

text \<open>No new launches once the remaining time is within the margin; \<open>None\<close> is no time limit.\<close>

definition check_margin :: "allocation \<Rightarrow> rat option \<Rightarrow> sched \<Rightarrow> sched" where
  "check_margin a remaining s =
     (case (stop_reason s, remaining) of
        (None, Some t) \<Rightarrow>
          if t \<le> shutdown_margin_seconds a then request_shutdown ''WALLTIME_MARGIN'' s else s
      | _ \<Rightarrow> s)"

definition request_of :: "runtime_config \<Rightarrow> task_node \<Rightarrow> request res" where
  "request_of cfg t =
     task_request (cfg_specs cfg) (cfg_reservations cfg) (cfg_adapters cfg) (cfg_allocation cfg) (node_id t)"

definition required_hosts :: "runtime_config \<Rightarrow> task_node \<Rightarrow> string list" where
  "required_hosts cfg t =
     (if map_of (cfg_reservations cfg) (node_id t) \<noteq> None then [cfg_host cfg] else [])"

definition local_host :: "runtime_config \<Rightarrow> task_node \<Rightarrow> string option" where
  "local_host cfg t =
     (if cfg_reservations cfg = [] \<or> map_of (cfg_reservations cfg) (node_id t) \<noteq> None then None
      else (case map_of (cfg_specs cfg) (node_id t) of
              Some e \<Rightarrow> if es_launcher e = ''direct'' then Some (cfg_host cfg) else None
            | None \<Rightarrow> None))"

datatype flow = Next | Launched | Break

text \<open>One ready task: blocked for good, no walltime left, no capacity now, or launched.\<close>

definition launch_task :: "runtime_config \<Rightarrow> rat option \<Rightarrow> task_node \<Rightarrow> sched \<Rightarrow> (flow \<times> sched) res" where
  "launch_task cfg remaining t s =
     rbind (request_of cfg t) (\<lambda>r.
     if \<not> can_ever_fit (pool s) r
     then Inr (Next, set_task (node_id t) ''BLOCKED'' ''resource request exceeds allocation capacity''
                       no_changes (s\<lparr>attempted := insert (node_id t) (attempted s)\<rparr>))
     else rbind (remaining_allocation_allows (node_resources t)
                   (shutdown_margin_seconds (cfg_allocation cfg)) remaining) (\<lambda>allowed.
     if \<not> allowed then Inr (Break, request_shutdown ''INSUFFICIENT_WALLTIME'' s)
     else rbind (try_acquire (pool s) r (required_hosts cfg t) (local_host cfg t)) (\<lambda>(c, granted).
     case granted of
       None \<Rightarrow> Inr (Next, s)
     | Some l \<Rightarrow>
         Inr (Launched, s\<lparr>attempted := insert (node_id t) (attempted s), pool := c,
                          active := active s @ [(node_id t, l)],
                          workers := workers s @ [(node_id t, Submitted)]\<rparr>))))"

fun worker_done :: "worker \<Rightarrow> bool" where
  "worker_done Submitted = False"
| "worker_done Reserved = False"
| "worker_done Returned = True"
| "worker_done (Crashed e) = True"

definition done_ids :: "sched \<Rightarrow> string set" where
  "done_ids s = fst ` set (filter (\<lambda>p. worker_done (snd p)) (workers s))"

text \<open>
  One finished future: its lease is returned, unless the task is a controller whose closure is not
  proven (\<open>can_release\<close>), in which case the lease stays and the run stops launching.
\<close>

definition collect_task :: "runtime_config \<Rightarrow> bool \<Rightarrow> string \<Rightarrow> sched \<Rightarrow> sched res" where
  "collect_task cfg proven tid s =
     (case (map_of (active s) tid, map_of (workers s) tid) of
        (Some l, Some w) \<Rightarrow>
          (let s1 = s\<lparr>active := AList.delete tid (active s), workers := AList.delete tid (workers s)\<rparr>;
               s2 = (case w of
                       Crashed e \<Rightarrow> set_task tid ''INCOMPLETE'' (''runtime worker error: '' @ e) no_changes s1
                     | _ \<Rightarrow> s1)
           in if map_of (cfg_reservations cfg) tid = None \<or> proven
              then (case release (pool s2) l of
                      (c, None) \<Rightarrow> Inr (s2\<lparr>pool := c\<rparr>)
                    | (c, Some e) \<Rightarrow> Inl e)
              else Inr (request_shutdown ''CONTROLLER_CLOSURE_UNKNOWN''
                     (set_task tid ''INTERRUPTED'' ''CONTROLLER_CLOSURE_UNKNOWN'' no_changes
                       (s2\<lparr>retained := insert tid (retained s2)\<rparr>))))
      | _ \<Rightarrow> Inl (KeyError tid))"

definition final_check :: "sched \<Rightarrow> unit res" where
  "final_check s =
     (if active_task_ids (pool s) = [] then assert_released (pool s)
      else if set (active_task_ids (pool s)) \<noteq> retained s then assert_released (pool s)
      else Inr ())"

definition overall_status :: "sched \<Rightarrow> string" where
  "overall_status s =
     (let statuses = map (tr_status \<circ> snd) (records s) in
      if list_all (\<lambda>v. v = ''COMPLETED'') statuses then ''COMPLETED''
      else if stop_reason s \<noteq> None then ''INTERRUPTED''
      else if ''FAILED'' \<in> set statuses then ''FAILED''
      else if ''INTERRUPTED'' \<in> set statuses then ''INTERRUPTED''
      else ''BLOCKED'')"

text \<open>
  The loop. \<open>remaining\<close> is what the clock says at this step, \<open>order\<close> the order in which \<open>wait\<close>
  hands over the finished futures (a set in the code), \<open>proven\<close> the controller's closure proof.
\<close>

definition main_step :: "runtime_config \<Rightarrow> rat option \<Rightarrow> string list \<Rightarrow> bool \<Rightarrow> sched \<Rightarrow> sched option" where
  "main_step cfg remaining order proven s =
     (case phase s of
        Blocking (t # ts) \<Rightarrow> Some ((block_task t s)\<lparr>phase := Blocking ts\<rparr>)
      | Blocking [] \<Rightarrow> Some (s\<lparr>phase := Margin\<rparr>)
      | Margin \<Rightarrow>
          (let s1 = check_margin (cfg_allocation cfg) remaining s in
           Some (s1\<lparr>phase := if stop_reason s1 = None then Scanning (cfg_tasks cfg) [] else Waiting False\<rparr>))
      | Scanning (t # ts) rs \<Rightarrow>
          if node_id t \<in> attempted s then Some (s\<lparr>phase := Scanning ts rs\<rparr>)
          else (case is_ready t s of
                  Inl e \<Rightarrow> Some (s\<lparr>phase := Raised e\<rparr>)
                | Inr (ready, s1) \<Rightarrow> Some (s1\<lparr>phase := Scanning ts (if ready then rs @ [t] else rs)\<rparr>))
      | Scanning [] rs \<Rightarrow> Some (s\<lparr>phase := Launching rs False\<rparr>)
      | Launching (t # ts) launched \<Rightarrow>
          (case launch_task cfg remaining t s of
             Inl e \<Rightarrow> Some (s\<lparr>phase := Raised e\<rparr>)
           | Inr (Next, s1) \<Rightarrow> Some (s1\<lparr>phase := Launching ts launched\<rparr>)
           | Inr (Launched, s1) \<Rightarrow> Some (s1\<lparr>phase := Launching ts True\<rparr>)
           | Inr (Break, s1) \<Rightarrow> Some (s1\<lparr>phase := Waiting launched\<rparr>))
      | Launching [] launched \<Rightarrow> Some (s\<lparr>phase := Waiting launched\<rparr>)
      | Waiting launched \<Rightarrow>
          if active s \<noteq> []
          then (if distinct order \<and> set order = done_ids s
                then Some (s\<lparr>phase := if order = [] then Blocking (cfg_tasks cfg) else Collecting order\<rparr>)
                else None)
          else if launched then Some (s\<lparr>phase := Blocking (cfg_tasks cfg)\<rparr>)
          else (case final_check s of
                  Inl e \<Rightarrow> Some (s\<lparr>phase := Raised e\<rparr>)
                | Inr _ \<Rightarrow> Some (s\<lparr>phase := Ended (overall_status s)\<rparr>))
      | Collecting (tid # rest) \<Rightarrow>
          (case collect_task cfg proven tid s of
             Inl e \<Rightarrow> Some (s\<lparr>phase := Raised e\<rparr>)
           | Inr s1 \<Rightarrow> Some (s1\<lparr>phase := Collecting rest\<rparr>))
      | Collecting [] \<Rightarrow> Some (s\<lparr>phase := Blocking (cfg_tasks cfg)\<rparr>)
      | Ended v \<Rightarrow> None
      | Raised e \<Rightarrow> None)"

section \<open>The workers\<close>

definition attempt_name :: "int \<Rightarrow> string" where
  "attempt_name n = ''attempt-'' @ replicate (4 - length (int_str n)) CHR ''0'' @ int_str n"

definition final_states :: "string set" where
  "final_states = {''COMPLETED'', ''FAILED'', ''BLOCKED'', ''INCOMPLETE'', ''INTERRUPTED''}"

datatype worker_action =
    BlockInput string
  | Reserve
  | AttemptError string
  | Finish string string string
  | Crash string

definition set_worker :: "string \<Rightarrow> worker \<Rightarrow> sched \<Rightarrow> sched" where
  "set_worker tid w s = s\<lparr>workers := AList.update tid w (workers s)\<rparr>"

definition reserve_attempt :: "string \<Rightarrow> sched \<Rightarrow> sched" where
  "reserve_attempt tid s =
     (let number = tr_attempts (record_of s tid) + 1 in
      set_task tid ''RUNNING'' ''attempt reserved''
        \<lparr>ch_attempts = Some number, ch_last_attempt = Some (attempt_name number), ch_manifest = Some None\<rparr> s)"

definition worker_step :: "string \<Rightarrow> worker_action \<Rightarrow> sched \<Rightarrow> sched option" where
  "worker_step tid act s =
     (case (map_of (workers s) tid, act) of
        (Some Submitted, BlockInput reason) \<Rightarrow>
          Some (set_worker tid Returned (set_task tid ''BLOCKED'' reason no_changes s))
      | (Some Submitted, Reserve) \<Rightarrow> Some (set_worker tid Reserved (reserve_attempt tid s))
      | (Some Reserved, AttemptError msg) \<Rightarrow>
          Some (set_worker tid Returned (set_task tid ''INCOMPLETE'' (''attempt error: '' @ msg) no_changes s))
      | (Some Reserved, Finish state reason manifest) \<Rightarrow>
          if state \<in> final_states
          then Some (set_worker tid Returned
                 (set_task tid state reason (no_changes\<lparr>ch_manifest := Some (Some manifest)\<rparr>) s))
          else None
      | (Some Submitted, Crash msg) \<Rightarrow> Some (set_worker tid (Crashed msg) s)
      | (Some Reserved, Crash msg) \<Rightarrow> Some (set_worker tid (Crashed msg) s)
      | _ \<Rightarrow> None)"

section \<open>Runs\<close>

text \<open>A signal handler may request the shutdown at any time.\<close>

datatype event =
    Main "rat option" "string list" bool
  | Work string worker_action
  | Signal string

definition running :: "sched \<Rightarrow> bool" where
  "running s = (case phase s of Ended v \<Rightarrow> False | Raised e \<Rightarrow> False | _ \<Rightarrow> True)"

definition sched_event :: "runtime_config \<Rightarrow> event \<Rightarrow> sched \<Rightarrow> sched option" where
  "sched_event cfg ev s =
     (case ev of
        Main remaining order proven \<Rightarrow> main_step cfg remaining order proven s
      | Work tid act \<Rightarrow> worker_step tid act s
      | Signal reason \<Rightarrow>
          if running s \<and> stop_reason s = None then Some (request_shutdown reason s) else None)"

inductive sched_step :: "runtime_config \<Rightarrow> sched \<Rightarrow> sched \<Rightarrow> bool" for cfg where
  event: "sched_event cfg ev s = Some s' \<Longrightarrow> sched_step cfg s s'"

inductive sched_reachable :: "runtime_config \<Rightarrow> sched \<Rightarrow> sched \<Rightarrow> bool" for cfg s0 where
  start: "sched_reachable cfg s0 s0"
| step: "sched_reachable cfg s0 s \<Longrightarrow> sched_step cfg s s' \<Longrightarrow> sched_reachable cfg s0 s'"

end
