(* ===== verification/SchedulerProofs.thy ===== *)
theory SchedulerProofs
  imports Scheduler
begin

text \<open>
  What the execution loop guarantees, for every interleaving of the main thread with the workers
  and every clock, outcome and signal: the invariant of the shared state, and from it that launches
  respect the dependencies, the attempt limit and the capacity, that the loop terminates when its
  workers do and never gets stuck, and what holds when it ends.
\<close>

section \<open>Writes to the records\<close>

definition task_ids :: "sched \<Rightarrow> string set" where
  "task_ids s = fst ` set (records s)"

lemma record_of_set_task:
  "tid \<in> task_ids s \<Longrightarrow> record_of (set_task tid st rs ch s) u =
     (if u = tid then change_record st rs ch (record_of s u) else record_of s u)"
  by (auto simp: record_of_def set_task_def task_ids_def AList.map_of_map_entry map_of_eq_None_iff
      split: option.splits)

lemma set_task_frame [simp]:
  "task_ids (set_task tid st rs ch s) = task_ids s"
  "pool (set_task tid st rs ch s) = pool s" "attempted (set_task tid st rs ch s) = attempted s"
  "active (set_task tid st rs ch s) = active s" "workers (set_task tid st rs ch s) = workers s"
  "stop_reason (set_task tid st rs ch s) = stop_reason s"
  "retained (set_task tid st rs ch s) = retained s" "phase (set_task tid st rs ch s) = phase s"
  by (simp_all add: set_task_def task_ids_def AList.dom_map_entry)

lemma status_set_task [simp]:
  "tid \<in> task_ids s \<Longrightarrow> status_of (set_task tid st rs ch s) u = (if u = tid then st else status_of s u)"
  by (simp add: status_of_def record_of_set_task change_record_def)

lemma attempts_set_task [simp]:
  "tid \<in> task_ids s \<Longrightarrow> tr_attempts (record_of (set_task tid st rs no_changes s) u) = tr_attempts (record_of s u)"
  by (simp add: record_of_set_task change_record_def no_changes_def)

text \<open>The records are read through \<open>record_of\<close> only; other fields do not matter.\<close>

lemma record_of_cong: "records s = records s' \<Longrightarrow> record_of s = record_of s'"
  by (rule ext) (simp add: record_of_def)

lemma status_of_cong: "records s = records s' \<Longrightarrow> status_of s = status_of s'"
  by (rule ext) (simp add: status_of_def record_of_cong [of s s'])

lemma record_frame [simp]:
  "record_of (s\<lparr>pool := c\<rparr>) = record_of s" "record_of (s\<lparr>attempted := A\<rparr>) = record_of s"
  "record_of (s\<lparr>active := a\<rparr>) = record_of s" "record_of (s\<lparr>workers := w\<rparr>) = record_of s"
  "record_of (s\<lparr>stop_reason := r\<rparr>) = record_of s" "record_of (s\<lparr>retained := R\<rparr>) = record_of s"
  "record_of (s\<lparr>phase := p\<rparr>) = record_of s"
  by (simp_all add: record_of_def fun_eq_iff)

lemma status_frame [simp]:
  "status_of (s\<lparr>pool := c\<rparr>) = status_of s" "status_of (s\<lparr>attempted := A\<rparr>) = status_of s"
  "status_of (s\<lparr>active := a\<rparr>) = status_of s" "status_of (s\<lparr>workers := w\<rparr>) = status_of s"
  "status_of (s\<lparr>stop_reason := r\<rparr>) = status_of s" "status_of (s\<lparr>retained := R\<rparr>) = status_of s"
  "status_of (s\<lparr>phase := p\<rparr>) = status_of s"
  by (simp_all add: status_of_def fun_eq_iff)

lemma task_ids_frame [simp]:
  "task_ids (s\<lparr>pool := c\<rparr>) = task_ids s" "task_ids (s\<lparr>attempted := A\<rparr>) = task_ids s"
  "task_ids (s\<lparr>active := a\<rparr>) = task_ids s" "task_ids (s\<lparr>workers := w\<rparr>) = task_ids s"
  "task_ids (s\<lparr>stop_reason := r\<rparr>) = task_ids s" "task_ids (s\<lparr>retained := R\<rparr>) = task_ids s"
  "task_ids (s\<lparr>phase := p\<rparr>) = task_ids s"
  by (simp_all add: task_ids_def)

lemma set_worker_frame [simp]:
  "record_of (set_worker t w s) = record_of s" "status_of (set_worker t w s) = status_of s"
  "task_ids (set_worker t w s) = task_ids s" "pool (set_worker t w s) = pool s"
  "attempted (set_worker t w s) = attempted s" "active (set_worker t w s) = active s"
  "stop_reason (set_worker t w s) = stop_reason s" "retained (set_worker t w s) = retained s"
  "phase (set_worker t w s) = phase s" "workers (set_worker t w s) = AList.update t w (workers s)"
  by (simp_all add: set_worker_def)

lemma request_shutdown_frame [simp]:
  "records (request_shutdown r s) = records s" "pool (request_shutdown r s) = pool s"
  "attempted (request_shutdown r s) = attempted s" "active (request_shutdown r s) = active s"
  "workers (request_shutdown r s) = workers s" "retained (request_shutdown r s) = retained s"
  "phase (request_shutdown r s) = phase s" "record_of (request_shutdown r s) = record_of s"
  "status_of (request_shutdown r s) = status_of s" "task_ids (request_shutdown r s) = task_ids s"
  "stop_reason (request_shutdown r s) \<noteq> None"
  by (simp_all add: request_shutdown_def split: option.split)

lemma check_margin_frame [simp]:
  "records (check_margin a r s) = records s" "pool (check_margin a r s) = pool s"
  "attempted (check_margin a r s) = attempted s" "active (check_margin a r s) = active s"
  "workers (check_margin a r s) = workers s" "retained (check_margin a r s) = retained s"
  "record_of (check_margin a r s) = record_of s" "status_of (check_margin a r s) = status_of s"
  "task_ids (check_margin a r s) = task_ids s"
  by (simp_all add: check_margin_def split: option.split)

lemma check_margin_stop: "stop_reason s \<noteq> None \<Longrightarrow> stop_reason (check_margin a r s) \<noteq> None"
  by (auto simp: check_margin_def split: option.split)

section \<open>The invariant\<close>

text \<open>What the constructor of the runtime checked, and the compiled workflow guarantees.\<close>

definition task_ok :: "runtime_config \<Rightarrow> task_node \<Rightarrow> bool" where
  "task_ok cfg t \<longleftrightarrow>
     (\<exists>m. max_attempts (node_resources t) = Inr m) \<and>
     (\<forall>margin remaining. \<exists>b. remaining_allocation_allows (node_resources t) margin remaining = Inr b) \<and>
     (\<exists>r. request_of cfg t = Inr r \<and>
        valid_call (new_coordinator (cfg_allocation cfg)) r (required_hosts cfg t) (local_host cfg t))"

definition config_ok :: "runtime_config \<Rightarrow> bool" where
  "config_ok cfg \<longleftrightarrow>
     allocation_ok (cfg_allocation cfg) \<and> distinct (map node_id (cfg_tasks cfg)) \<and>
     (\<forall>t \<in> set (cfg_tasks cfg). task_ok cfg t)"

abbreviation ids_of :: "runtime_config \<Rightarrow> string set" where
  "ids_of cfg \<equiv> node_id ` set (cfg_tasks cfg)"

definition runnable :: "sched \<Rightarrow> task_node \<Rightarrow> bool" where
  "runnable s t \<longleftrightarrow>
     status_of s (node_id t) \<in> launchable \<and>
     (\<exists>m. max_attempts (node_resources t) = Inr m \<and> tr_attempts (record_of s (node_id t)) < m) \<and>
     (\<forall>d \<in> set (node_dependencies t). status_of s d = ''COMPLETED'')"

text \<open>The coordinator's leases are those of the active tasks and of the retained controllers.\<close>

definition pool_inv :: "runtime_config \<Rightarrow> sched \<Rightarrow> bool" where
  "pool_inv cfg s \<longleftrightarrow>
     coordinator_inv (pool s) \<and> alloc (pool s) = cfg_allocation cfg \<and>
     (\<forall>t l. map_of (active s) t = Some l \<longrightarrow> map_of (leases (pool s)) t = Some l) \<and>
     fst ` set (leases (pool s)) = fst ` set (active s) \<union> retained s \<and>
     fst ` set (active s) \<inter> retained s = {}"

definition threads_inv :: "runtime_config \<Rightarrow> sched \<Rightarrow> bool" where
  "threads_inv cfg s \<longleftrightarrow>
     task_ids s = ids_of cfg \<and> dict_ok (active s) \<and> dict_ok (workers s) \<and>
     fst ` set (workers s) = fst ` set (active s) \<and> fst ` set (active s) \<subseteq> attempted s \<and>
     attempted s \<subseteq> ids_of cfg \<and>
     (\<forall>u w. map_of (workers s) u = Some w \<longrightarrow> \<not> worker_done w \<longrightarrow> status_of s u \<noteq> ''COMPLETED'') \<and>
     (retained s \<noteq> {} \<longrightarrow> stop_reason s \<noteq> None)"

definition candidate :: "runtime_config \<Rightarrow> sched \<Rightarrow> task_node \<Rightarrow> bool" where
  "candidate cfg s t \<longleftrightarrow> t \<in> set (cfg_tasks cfg) \<and> node_id t \<notin> attempted s \<and> runnable s t"

definition phase_inv :: "runtime_config \<Rightarrow> sched \<Rightarrow> bool" where
  "phase_inv cfg s \<longleftrightarrow>
     (case phase s of
        Blocking ts \<Rightarrow> set ts \<subseteq> set (cfg_tasks cfg)
      | Margin \<Rightarrow> True
      | Scanning ts rs \<Rightarrow>
          retained s = {} \<and> set ts \<subseteq> set (cfg_tasks cfg) \<and> distinct (map node_id (rs @ ts)) \<and>
          (\<forall>t \<in> set rs. candidate cfg s t)
      | Launching ts launched \<Rightarrow>
          retained s = {} \<and> distinct (map node_id ts) \<and> (\<forall>t \<in> set ts. candidate cfg s t) \<and>
          (launched \<longrightarrow> active s \<noteq> [])
      | Waiting launched \<Rightarrow> launched \<longrightarrow> active s \<noteq> []
      | Collecting D \<Rightarrow> distinct D \<and> set D \<subseteq> done_ids s
      | Ended v \<Rightarrow> active s = [] \<and> v = overall_status s
      | Raised e \<Rightarrow> False)"

definition sched_inv :: "runtime_config \<Rightarrow> sched \<Rightarrow> bool" where
  "sched_inv cfg s \<longleftrightarrow> pool_inv cfg s \<and> threads_inv cfg s \<and> phase_inv cfg s"

text \<open>
  The states the loop starts in: the records of the workflow's tasks, no worker, and a coordinator
  that holds at most the leases of controllers whose previous owner may still run (then the run is
  already stopping).
\<close>

definition start_ok :: "runtime_config \<Rightarrow> sched \<Rightarrow> bool" where
  "start_ok cfg s \<longleftrightarrow>
     task_ids s = ids_of cfg \<and> active s = [] \<and> workers s = [] \<and> attempted s = {} \<and>
     coordinator_inv (pool s) \<and> alloc (pool s) = cfg_allocation cfg \<and>
     fst ` set (leases (pool s)) = retained s \<and> (retained s \<noteq> {} \<longrightarrow> stop_reason s \<noteq> None) \<and>
     phase s = Blocking (cfg_tasks cfg)"

lemma start_inv: "start_ok cfg s \<Longrightarrow> sched_inv cfg s"
  by (simp add: start_ok_def sched_inv_def pool_inv_def threads_inv_def phase_inv_def)

section \<open>Preservation\<close>

lemma inv_phase [simp]:
  "pool_inv cfg (s\<lparr>phase := p\<rparr>) = pool_inv cfg s" "threads_inv cfg (s\<lparr>phase := p\<rparr>) = threads_inv cfg s"
  "runnable (s\<lparr>phase := p\<rparr>) t = runnable s t" "candidate cfg (s\<lparr>phase := p\<rparr>) t = candidate cfg s t"
  "done_ids (s\<lparr>phase := p\<rparr>) = done_ids s" "overall_status (s\<lparr>phase := p\<rparr>) = overall_status s"
  by (simp_all add: pool_inv_def threads_inv_def runnable_def candidate_def done_ids_def
      overall_status_def Let_def)

lemma pool_inv_cong:
  "pool_inv cfg s \<Longrightarrow> pool s' = pool s \<Longrightarrow> active s' = active s \<Longrightarrow> retained s' = retained s \<Longrightarrow>
   pool_inv cfg s'"
  by (simp add: pool_inv_def)

lemma runnable_set_task:
  assumes "runnable s t" "tid \<in> task_ids s" "tid \<noteq> node_id t"
    and "status_of s tid \<noteq> ''COMPLETED'' \<or> st = ''COMPLETED''"
  shows "runnable (set_task tid st rs ch s) t"
  using assms by (auto simp: runnable_def record_of_set_task)

lemma candidate_set_task:
  assumes "candidate cfg s t" "tid \<in> task_ids s" "tid \<noteq> node_id t"
    and "status_of s tid \<noteq> ''COMPLETED'' \<or> st = ''COMPLETED''"
  shows "candidate cfg (set_task tid st rs ch s) t"
  using assms runnable_set_task [of s t tid st rs ch] by (auto simp: candidate_def)

lemma candidate_request [simp]: "candidate cfg (request_shutdown r s) t = candidate cfg s t"
  by (simp add: candidate_def runnable_def)

lemma candidate_margin [simp]: "candidate cfg (check_margin a r s) t = candidate cfg s t"
  by (simp add: candidate_def runnable_def)

lemma threads_inv_set_task:
  assumes "threads_inv cfg s" "tid \<in> task_ids s"
    and "st \<noteq> ''COMPLETED'' \<or> (\<forall>w. map_of (workers s) tid = Some w \<longrightarrow> worker_done w)"
  shows "threads_inv cfg (set_task tid st rs ch s)"
  using assms unfolding threads_inv_def by (simp add: all_conj_distrib) metis

lemma threads_inv_request:
  "threads_inv cfg s \<Longrightarrow> threads_inv cfg (request_shutdown r s)"
  by (simp add: threads_inv_def)

lemma threads_inv_margin: "threads_inv cfg s \<Longrightarrow> threads_inv cfg (check_margin a r s)"
  unfolding threads_inv_def by (simp add: check_margin_stop)

lemma pool_inv_frames:
  "pool_inv cfg s \<Longrightarrow> pool_inv cfg (set_task tid st rs ch s)"
  "pool_inv cfg s \<Longrightarrow> pool_inv cfg (request_shutdown r s)"
  "pool_inv cfg s \<Longrightarrow> pool_inv cfg (check_margin a x s)"
  "pool_inv cfg s \<Longrightarrow> pool_inv cfg (set_worker t w s)"
  by (simp_all add: pool_inv_def)

lemma block_taskE:
  obtains "block_task t s = s"
  | rs where "status_of s (node_id t) = ''PENDING''"
      "block_task t s = set_task (node_id t) ''BLOCKED'' rs no_changes s"
proof (cases "status_of s (node_id t) = ''PENDING'' \<and> failed_dependencies s t \<noteq> []")
  case True
  then show ?thesis using that(2) by (simp add: block_task_def Let_def)
next
  case False
  then show ?thesis using that(1) by (auto simp: block_task_def Let_def)
qed

lemma task_in_ids: "threads_inv cfg s \<Longrightarrow> t \<in> set (cfg_tasks cfg) \<Longrightarrow> node_id t \<in> task_ids s"
  by (simp add: threads_inv_def)

lemma block_task_inv:
  assumes "pool_inv cfg s" "threads_inv cfg s" "t \<in> set (cfg_tasks cfg)"
  shows "pool_inv cfg (block_task t s)" "threads_inv cfg (block_task t s)"
proof -
  have i: "node_id t \<in> task_ids s" using assms(2,3) by (rule task_in_ids)
  show "pool_inv cfg (block_task t s)"
    by (cases rule: block_taskE [of t s]) (simp_all add: assms(1) pool_inv_frames)
  show "threads_inv cfg (block_task t s)"
    by (cases rule: block_taskE [of t s]) (simp_all add: assms(2) threads_inv_set_task i)
qed

lemma is_readyE:
  assumes "is_ready t s = Inr (b, s')"
  obtains "s' = s" "b \<Longrightarrow> runnable s t" "\<not> b \<Longrightarrow> \<not> runnable s t"
  | m rs where "\<not> b" "status_of s (node_id t) \<in> launchable" "max_attempts (node_resources t) = Inr m"
      "m \<le> tr_attempts (record_of s (node_id t))"
      "s' = set_task (node_id t) ''FAILED'' rs no_changes s"
  using assms
  by (auto simp: is_ready_def runnable_def list_all_iff rbind_Inr_iff split: if_splits)

lemma is_ready_total: "task_ok cfg t \<Longrightarrow> \<exists>x. is_ready t s = Inr x"
  by (auto simp: is_ready_def task_ok_def)

lemma launchable_not_completed: "x \<in> launchable \<Longrightarrow> x \<noteq> ''COMPLETED''"
  by (auto simp: launchable_def)

lemma scan_inv:
  assumes inv: "pool_inv cfg s" "threads_inv cfg s" "phase_inv cfg s" and p: "phase s = Scanning (t # ts) rs"
    and r: "is_ready t s = Inr (b, s')" and new: "node_id t \<notin> attempted s"
  shows "pool_inv cfg s'" "threads_inv cfg s'"
    "phase_inv cfg (s'\<lparr>phase := Scanning ts (if b then rs @ [t] else rs)\<rparr>)"
proof -
  have ph: "retained s = {}" "t \<in> set (cfg_tasks cfg)" "set ts \<subseteq> set (cfg_tasks cfg)"
    "distinct (map node_id (rs @ t # ts))" "\<forall>u \<in> set rs. candidate cfg s u"
    using inv(3) p by (simp_all add: phase_inv_def)
  have i: "node_id t \<in> task_ids s" using inv(2) ph(2) by (rule task_in_ids)
  show "pool_inv cfg s'"
    by (cases rule: is_readyE [OF r]) (simp_all add: inv(1) pool_inv_frames)
  show "threads_inv cfg s'"
    by (cases rule: is_readyE [OF r]) (simp_all add: inv(2) threads_inv_set_task i)
  show "phase_inv cfg (s'\<lparr>phase := Scanning ts (if b then rs @ [t] else rs)\<rparr>)"
  proof (cases rule: is_readyE [OF r])
    case 1
    then have "b \<Longrightarrow> candidate cfg s t" using new ph(2) by (simp add: candidate_def)
    with ph 1(1) show ?thesis by (simp add: phase_inv_def)
  next
    case (2 m reason)
    have "candidate cfg s' u" if "u \<in> set rs" for u
      unfolding 2(5) using ph(4) that launchable_not_completed [OF 2(2)]
      by (intro candidate_set_task [OF bspec [OF ph(5) that] i]) (auto simp: image_iff)
    with ph 2(1,5) show ?thesis by (simp add: phase_inv_def)
  qed
qed

subsection \<open>Launching\<close>

lemma launch_taskE:
  assumes "launch_task cfg remaining t s = Inr (f, s')"
  obtains (too_big) r rs where "f = Next" "request_of cfg t = Inr r" "\<not> can_ever_fit (pool s) r"
      "s' = set_task (node_id t) ''BLOCKED'' rs no_changes (s\<lparr>attempted := insert (node_id t) (attempted s)\<rparr>)"
  | (no_time) rs where "f = Break" "s' = request_shutdown rs s"
  | (no_room) r where "f = Next" "s' = s" "request_of cfg t = Inr r" "can_ever_fit (pool s) r"
      "try_acquire (pool s) r (required_hosts cfg t) (local_host cfg t) = Inr (pool s, None)"
  | (granted) r c l where "f = Launched" "request_of cfg t = Inr r"
      "try_acquire (pool s) r (required_hosts cfg t) (local_host cfg t) = Inr (c, Some l)"
      "s' = s\<lparr>attempted := insert (node_id t) (attempted s), pool := c,
              active := active s @ [(node_id t, l)], workers := workers s @ [(node_id t, Submitted)]\<rparr>"
proof -
  from assms obtain r where r: "request_of cfg t = Inr r"
    by (auto simp: launch_task_def rbind_Inr_iff)
  show thesis
  proof (cases "can_ever_fit (pool s) r")
    case False
    with assms r show thesis by (intro too_big [of r]) (auto simp: launch_task_def)
  next
    case True
    with assms r obtain b where b: "remaining_allocation_allows (node_resources t)
        (shutdown_margin_seconds (cfg_allocation cfg)) remaining = Inr b"
      by (auto simp: launch_task_def rbind_Inr_iff)
    show thesis
    proof (cases b)
      case False
      with assms r b True show thesis by (intro no_time) (auto simp: launch_task_def)
    next
      case b': True
      with assms r b True obtain c ol where
        acq: "try_acquire (pool s) r (required_hosts cfg t) (local_host cfg t) = Inr (c, ol)"
        by (auto simp: launch_task_def rbind_Inr_iff)
      show thesis
      proof (cases ol)
        case None
        with acq have "c = pool s" by (auto dest: try_acquire_None_unchanged)
        with None acq assms r b b' True show thesis
          by (intro no_room [of r]) (auto simp: launch_task_def)
      next
        case (Some l)
        with acq assms r b b' True show thesis
          by (intro granted [of r c l]) (auto simp: launch_task_def)
      qed
    qed
  qed
qed

lemma valid_call_alloc: "alloc c = a \<Longrightarrow> valid_call (new_coordinator a) r h l = valid_call c r h l"
  by (simp add: valid_call_def new_coordinator_def)

lemma config_taskD:
  assumes "config_ok cfg" "t \<in> set (cfg_tasks cfg)"
  shows "task_ok cfg t" using assms by (simp add: config_ok_def)

lemma config_request:
  assumes "config_ok cfg" "t \<in> set (cfg_tasks cfg)" "request_of cfg t = Inr r" "alloc c = cfg_allocation cfg"
  shows "valid_call c r (required_hosts cfg t) (local_host cfg t)" "request_ok r" "req_task_id r = node_id t"
proof -
  show "valid_call c r (required_hosts cfg t) (local_host cfg t)"
    using config_taskD [OF assms(1,2)] assms(3,4) valid_call_alloc [OF assms(4)]
    by (auto simp: task_ok_def)
  show "request_ok r" "req_task_id r = node_id t"
    using assms(3) task_request_ok task_request_id unfolding request_of_def by blast+
qed

lemma candidate_unleased:
  assumes "pool_inv cfg s" "threads_inv cfg s" "retained s = {}" "node_id t \<notin> attempted s"
  shows "node_id t \<notin> fst ` set (active s)" "map_of (leases (pool s)) (node_id t) = None"
  using assms by (auto simp: pool_inv_def threads_inv_def map_of_eq_None_iff)

lemma launch_task_total:
  assumes "config_ok cfg" "pool_inv cfg s" "threads_inv cfg s" "retained s = {}" "candidate cfg s t"
  shows "\<exists>x. launch_task cfg remaining t s = Inr x"
proof -
  have t: "t \<in> set (cfg_tasks cfg)" "node_id t \<notin> attempted s" using assms(5) by (simp_all add: candidate_def)
  note ok = config_taskD [OF assms(1) t(1)]
  then obtain r b where r: "request_of cfg t = Inr r" and b: "remaining_allocation_allows (node_resources t)
        (shutdown_margin_seconds (cfg_allocation cfg)) remaining = Inr b"
    unfolding task_ok_def by metis
  have "alloc (pool s) = cfg_allocation cfg" using assms(2) by (simp add: pool_inv_def)
  note v = config_request [OF assms(1) t(1) r this]
  obtain c ol where "try_acquire (pool s) r (required_hosts cfg t) (local_host cfg t) = Inr (c, ol)"
    using valid_call_total [OF v(1)] candidate_unleased(2) [OF assms(2-4) t(2)] v(3) by auto
  with r b show ?thesis by (cases ol) (simp_all add: launch_task_def)
qed

lemma granted_pool_inv:
  assumes cfg: "config_ok cfg" and inv: "pool_inv cfg s" "threads_inv cfg s" "retained s = {}" "candidate cfg s t"
    and r: "request_of cfg t = Inr r"
    and acq: "try_acquire (pool s) r (required_hosts cfg t) (local_host cfg t) = Inr (c, Some l)"
  shows "pool_inv cfg (s\<lparr>attempted := A, pool := c, active := active s @ [(node_id t, l)], workers := W\<rparr>)"
proof -
  have t: "t \<in> set (cfg_tasks cfg)" "node_id t \<notin> attempted s" using inv(4) by (simp_all add: candidate_def)
  have p: "coordinator_inv (pool s)" "alloc (pool s) = cfg_allocation cfg"
    using inv(1) by (simp_all add: pool_inv_def)
  note v = config_request [OF cfg t(1) r p(2)]
  note fresh = candidate_unleased [OF inv(1-3) t(2)]
  have c: "coordinator_inv c" "alloc c = cfg_allocation cfg"
    using rc.acquire_inv [of "pool s" "cfg_allocation cfg" "(r, required_hosts cfg t, local_host cfg t)" c "Some l"]
      p v acq by (simp_all add: acquire_call_def)
  have ls: "leases c = leases (pool s) @ [(node_id t, l)]"
    using try_acquire_grantE [OF p(1) v(2) acq] v(3) by metis
  have "map_of (leases c) u = Some m" if "map_of (active s @ [(node_id t, l)]) u = Some m" for u m
  proof (cases "map_of (active s) u")
    case None
    with that fresh(2) show ?thesis by (auto simp: ls map_add_def split: if_splits)
  next
    case (Some m')
    moreover from this have "map_of (leases (pool s)) u = Some m'" using inv(1) by (simp add: pool_inv_def)
    ultimately show ?thesis using that fresh by (auto simp: ls map_add_def split: if_splits)
  qed
  then show ?thesis using inv(1,3) c ls by (auto simp: pool_inv_def)
qed

lemma granted_threads_inv:
  assumes "threads_inv cfg s" "candidate cfg s t" "node_id t \<notin> fst ` set (active s)"
  shows "threads_inv cfg (s\<lparr>attempted := insert (node_id t) (attempted s), pool := c,
           active := active s @ [(node_id t, l)], workers := workers s @ [(node_id t, Submitted)]\<rparr>)"
proof -
  have t: "t \<in> set (cfg_tasks cfg)" "status_of s (node_id t) \<noteq> ''COMPLETED''"
    using assms(2) by (auto simp: candidate_def runnable_def dest: launchable_not_completed)
  have w: "node_id t \<notin> fst ` set (workers s)" using assms(1,3) by (simp add: threads_inv_def)
  then have "map_of (workers s @ [(node_id t, Submitted)]) u =
      (if u = node_id t then Some Submitted else map_of (workers s) u)" for u
    by (rule map_of_snoc)
  with assms(1,3) t w show ?thesis by (auto simp: threads_inv_def)
qed

lemma launch_inv:
  assumes cfg: "config_ok cfg" and inv: "pool_inv cfg s" "threads_inv cfg s" "phase_inv cfg s"
    and p: "phase s = Launching (t # ts) launched" and r: "launch_task cfg remaining t s = Inr (f, s')"
  shows "pool_inv cfg s'" "threads_inv cfg s'"
    "phase_inv cfg (s'\<lparr>phase := case f of Next \<Rightarrow> Launching ts launched | Launched \<Rightarrow> Launching ts True
       | Break \<Rightarrow> Waiting launched\<rparr>)"
proof -
  have ph: "retained s = {}" "distinct (map node_id (t # ts))" "\<forall>u \<in> set (t # ts). candidate cfg s u"
    "launched \<longrightarrow> active s \<noteq> []"
    using inv(3) p by (simp_all add: phase_inv_def)
  have t: "t \<in> set (cfg_tasks cfg)" "node_id t \<notin> attempted s" "status_of s (node_id t) \<noteq> ''COMPLETED''"
    using ph(3) by (auto simp: candidate_def runnable_def dest: launchable_not_completed)
  have i: "node_id t \<in> task_ids s" using inv(2) t(1) by (rule task_in_ids)
  have other: "candidate cfg (s\<lparr>attempted := insert (node_id t) (attempted s)\<rparr>) u" if "u \<in> set ts" for u
    using bspec [OF ph(3), of u] that ph(2) by (auto simp: candidate_def runnable_def image_iff)
  note fresh = candidate_unleased [OF inv(1,2) ph(1) t(2)]
  have "pool_inv cfg s' \<and> threads_inv cfg s' \<and> phase_inv cfg (s'\<lparr>phase := case f of
      Next \<Rightarrow> Launching ts launched | Launched \<Rightarrow> Launching ts True | Break \<Rightarrow> Waiting launched\<rparr>)"
    using r
  proof (cases rule: launch_taskE)
    case (too_big q rs)
    let ?s = "s\<lparr>attempted := insert (node_id t) (attempted s)\<rparr>"
    have th: "threads_inv cfg ?s" using inv(2) t(1) by (auto simp: threads_inv_def)
    have "candidate cfg s' u" if "u \<in> set ts" for u
      unfolding too_big(4) using ph(2) that i t(3)
      by (intro candidate_set_task [OF other [OF that]]) (auto simp: image_iff)
    moreover have "threads_inv cfg s'"
      unfolding too_big(4) using th i by (intro threads_inv_set_task) simp_all
    moreover have "pool_inv cfg s'" by (rule pool_inv_cong [OF inv(1)]) (simp_all add: too_big(4))
    ultimately show ?thesis using ph too_big(1,4) by (simp add: phase_inv_def)
  next
    case (no_time rs)
    then show ?thesis using inv(1,2) ph
      by (simp add: phase_inv_def pool_inv_frames threads_inv_request)
  next
    case (no_room q)
    then show ?thesis using inv(1,2) ph by (simp add: phase_inv_def)
  next
    case (granted q c l)
    have "candidate cfg s t" using ph(3) by simp
    from granted_pool_inv [OF cfg inv(1,2) ph(1) this granted(2,3)]
      granted_threads_inv [OF inv(2) this fresh(1)]
    have "pool_inv cfg s'" "threads_inv cfg s'" unfolding granted(4) by blast+
    moreover have "candidate cfg s' u" if "u \<in> set ts" for u
      using other [OF that] by (simp add: granted(4) candidate_def runnable_def)
    ultimately show ?thesis using ph granted(1,4) by (simp add: phase_inv_def)
  qed
  then show "pool_inv cfg s'" "threads_inv cfg s'"
    "phase_inv cfg (s'\<lparr>phase := case f of Next \<Rightarrow> Launching ts launched | Launched \<Rightarrow> Launching ts True
       | Break \<Rightarrow> Waiting launched\<rparr>)" by blast+
qed

subsection \<open>Collecting\<close>

lemma done_ids_iff:
  "dict_ok (workers s) \<Longrightarrow> u \<in> done_ids s \<longleftrightarrow> (\<exists>w. map_of (workers s) u = Some w \<and> worker_done w)"
  by (force simp: done_ids_def image_iff)

lemma active_lookup:
  assumes "threads_inv cfg s" "map_of (workers s) u = Some w"
  obtains l where "map_of (active s) u = Some l"
proof -
  have "u \<in> fst ` set (workers s)" using assms(2) by (auto dest: map_of_SomeD intro: rev_image_eqI)
  then have "u \<in> fst ` set (active s)" using assms(1) by (simp add: threads_inv_def)
  then obtain l where "map_of (active s) u = Some l" by (meson map_of_eq_None_iff not_None_eq)
  with that show thesis .
qed

lemma active_lease:
  assumes "pool_inv cfg s" "map_of (active s) u = Some l"
  shows "map_of (leases (pool s)) (lease_task_id l) = Some l" "lease_task_id l = u"
proof -
  have m: "map_of (leases (pool s)) u = Some l" using assms by (simp add: pool_inv_def)
  then have "(u, l) \<in> set (leases (pool s))" by (rule map_of_SomeD)
  moreover have "leases_ok (pool s)" using assms(1) by (simp add: pool_inv_def coordinator_inv_def)
  ultimately show "lease_task_id l = u" by (auto simp: leases_ok_iff lease_ok_def)
  with m show "map_of (leases (pool s)) (lease_task_id l) = Some l" by simp
qed

lemma keys_delete: "fst ` set (AList.delete k d) = fst ` set d - {k}"
  by (auto simp: AList.delete_eq)

text \<open>Taking a task out of the dictionaries, and giving its lease back or keeping it.\<close>

definition dropped :: "string \<Rightarrow> sched \<Rightarrow> sched" where
  "dropped tid s = s\<lparr>active := AList.delete tid (active s), workers := AList.delete tid (workers s)\<rparr>"

lemma dropped_frame [simp]:
  "record_of (dropped tid s) = record_of s" "status_of (dropped tid s) = status_of s"
  "task_ids (dropped tid s) = task_ids s" "pool (dropped tid s) = pool s"
  "attempted (dropped tid s) = attempted s" "stop_reason (dropped tid s) = stop_reason s"
  "retained (dropped tid s) = retained s" "phase (dropped tid s) = phase s"
  "active (dropped tid s) = AList.delete tid (active s)"
  "workers (dropped tid s) = AList.delete tid (workers s)"
  by (simp_all add: dropped_def)

lemma dropped_threads_inv: "threads_inv cfg s \<Longrightarrow> threads_inv cfg (dropped tid s)"
  by (auto simp: threads_inv_def keys_delete)

lemma collect_taskE:
  assumes "threads_inv cfg s" "pool_inv cfg s" "tid \<in> done_ids s"
  obtains (given_back) l s2 where "map_of (active s) tid = Some l"
      "s2 = dropped tid s \<or> (\<exists>rs. s2 = set_task tid ''INCOMPLETE'' rs no_changes (dropped tid s))"
      "collect_task cfg proven tid s = Inr (s2\<lparr>pool := freed (pool s) l\<rparr>)"
  | (kept) l s2 where "map_of (active s) tid = Some l"
      "s2 = dropped tid s \<or> (\<exists>rs. s2 = set_task tid ''INCOMPLETE'' rs no_changes (dropped tid s))"
      "collect_task cfg proven tid s = Inr (request_shutdown ''CONTROLLER_CLOSURE_UNKNOWN''
         (set_task tid ''INTERRUPTED'' ''CONTROLLER_CLOSURE_UNKNOWN'' no_changes
           (s2\<lparr>retained := insert tid (retained s2)\<rparr>)))"
proof -
  have "dict_ok (workers s)" using assms(1) by (simp add: threads_inv_def)
  with assms(3) obtain w where w: "map_of (workers s) tid = Some w" "worker_done w"
    using done_ids_iff by blast
  obtain l where l: "map_of (active s) tid = Some l" using active_lookup [OF assms(1) w(1)] .
  have rel: "release (pool s) l = (freed (pool s) l, None)"
    by (rule release_Some [OF active_lease(1) [OF assms(2) l]])
  define s2 where "s2 = (case w of
      Crashed e \<Rightarrow> set_task tid ''INCOMPLETE'' (''runtime worker error: '' @ e) no_changes (dropped tid s)
    | _ \<Rightarrow> dropped tid s)"
  have s2: "s2 = dropped tid s \<or> (\<exists>rs. s2 = set_task tid ''INCOMPLETE'' rs no_changes (dropped tid s))"
    unfolding s2_def by (cases w) auto
  have pool: "pool s2 = pool s" using s2 by auto
  have eq: "collect_task cfg proven tid s =
      (if map_of (cfg_reservations cfg) tid = None \<or> proven
       then (case release (pool s2) l of (c, None) \<Rightarrow> Inr (s2\<lparr>pool := c\<rparr>) | (c, Some e) \<Rightarrow> Inl e)
       else Inr (request_shutdown ''CONTROLLER_CLOSURE_UNKNOWN''
         (set_task tid ''INTERRUPTED'' ''CONTROLLER_CLOSURE_UNKNOWN'' no_changes
           (s2\<lparr>retained := insert tid (retained s2)\<rparr>))))"
    unfolding collect_task_def s2_def dropped_def by (simp only: w(1) l Let_def option.case prod.case)
  show thesis
  proof (cases "map_of (cfg_reservations cfg) tid = None \<or> proven")
    case True
    then have "collect_task cfg proven tid s = Inr (s2\<lparr>pool := freed (pool s) l\<rparr>)"
      unfolding eq pool rel by simp
    with l s2 show thesis by (rule given_back)
  next
    case False
    then have "collect_task cfg proven tid s = Inr (request_shutdown ''CONTROLLER_CLOSURE_UNKNOWN''
         (set_task tid ''INTERRUPTED'' ''CONTROLLER_CLOSURE_UNKNOWN'' no_changes
           (s2\<lparr>retained := insert tid (retained s2)\<rparr>)))"
      unfolding eq by auto
    with l s2 show thesis by (rule kept)
  qed
qed

lemma collect_frame:
  assumes "s2 = dropped tid s \<or> (\<exists>rs. s2 = set_task tid ''INCOMPLETE'' rs no_changes (dropped tid s))"
    and "threads_inv cfg s" "tid \<in> task_ids s"
  shows "threads_inv cfg s2" "active s2 = AList.delete tid (active s)"
    "workers s2 = AList.delete tid (workers s)" "pool s2 = pool s" "retained s2 = retained s"
    "attempted s2 = attempted s" "task_ids s2 = task_ids s" "stop_reason s2 = stop_reason s"
proof -
  have "threads_inv cfg (dropped tid s)" by (rule dropped_threads_inv [OF assms(2)])
  with assms(1,3) show "threads_inv cfg s2" by (auto intro!: threads_inv_set_task)
  show "active s2 = AList.delete tid (active s)"
    "workers s2 = AList.delete tid (workers s)" "pool s2 = pool s" "retained s2 = retained s"
    "attempted s2 = attempted s" "task_ids s2 = task_ids s" "stop_reason s2 = stop_reason s"
    using assms(1) by auto
qed

lemma active_in_ids:
  assumes "threads_inv cfg s" "map_of (active s) u = Some l"
  shows "u \<in> task_ids s" "u \<in> fst ` set (active s)"
proof -
  show a: "u \<in> fst ` set (active s)" using assms(2) by (auto dest: map_of_SomeD intro: rev_image_eqI)
  show "u \<in> task_ids s" using assms(1) a by (auto simp: threads_inv_def)
qed

lemma freed_pool_inv:
  assumes "pool_inv cfg s" "threads_inv cfg s" "map_of (active s) tid = Some l"
    and "active s' = AList.delete tid (active s)" "pool s' = freed (pool s) l" "retained s' = retained s"
  shows "pool_inv cfg s'"
proof -
  note l = active_lease [OF assms(1,3)]
  have p: "coordinator_inv (pool s)" "alloc (pool s) = cfg_allocation cfg"
    using assms(1) by (simp_all add: pool_inv_def)
  have "l \<in> held_leases (pool s)" using l(1) by (auto simp: held_leases_def dest: map_of_SomeD intro: rev_image_eqI)
  then have c: "coordinator_inv (freed (pool s) l)" "alloc (freed (pool s) l) = cfg_allocation cfg"
    using rc.free_inv [of "pool s" "cfg_allocation cfg" l] p by simp_all
  have "leases (freed (pool s) l) = AList.delete tid (leases (pool s))"
    using freed_simps(2) [OF l(1)] l(2) by simp
  with assms(1,4-6) c active_in_ids [OF assms(2,3)] show ?thesis
    by (auto simp: pool_inv_def keys_delete)
qed

lemma kept_pool_inv:
  assumes "pool_inv cfg s" "threads_inv cfg s" "map_of (active s) tid = Some l"
    and "active s' = AList.delete tid (active s)" "pool s' = pool s" "retained s' = insert tid (retained s)"
  shows "pool_inv cfg s'"
  using assms(1,4-6) active_in_ids [OF assms(2,3)] by (auto simp: pool_inv_def keys_delete)

lemma collect_inv:
  assumes inv: "pool_inv cfg s" "threads_inv cfg s" and tid: "tid \<in> done_ids s"
  obtains s' where "collect_task cfg proven tid s = Inr s'" "pool_inv cfg s'" "threads_inv cfg s'"
    "active s' = AList.delete tid (active s)" "workers s' = AList.delete tid (workers s)"
    "attempted s' = attempted s" "stop_reason s \<noteq> None \<Longrightarrow> stop_reason s' \<noteq> None"
  using inv(2,1) tid
proof (cases rule: collect_taskE [of cfg s tid proven])
  case (given_back l s2)
  note i = active_in_ids [OF inv(2) given_back(1)]
  note f = collect_frame [OF given_back(2) inv(2) i(1)]
  have "pool_inv cfg (s2\<lparr>pool := freed (pool s) l\<rparr>)"
    by (rule freed_pool_inv [OF inv given_back(1)]) (simp_all add: f)
  moreover have "threads_inv cfg (s2\<lparr>pool := freed (pool s) l\<rparr>)"
    using f(1) by (simp add: threads_inv_def)
  ultimately show thesis using f by (intro that [OF given_back(3)]) simp_all
next
  case (kept l s2)
  note i = active_in_ids [OF inv(2) kept(1)]
  note f = collect_frame [OF kept(2) inv(2) i(1)]
  let ?s = "s2\<lparr>retained := insert tid (retained s2)\<rparr>"
  let ?s' = "request_shutdown ''CONTROLLER_CLOSURE_UNKNOWN''
         (set_task tid ''INTERRUPTED'' ''CONTROLLER_CLOSURE_UNKNOWN'' no_changes ?s)"
  have "pool_inv cfg ?s'"
    by (rule kept_pool_inv [OF inv kept(1)]) (simp_all add: f)
  moreover have "threads_inv cfg ?s'"
    using f(1,7) i(1) unfolding threads_inv_def by (auto simp: split: if_splits)
  ultimately show thesis using f by (intro that [OF kept(3)]) simp_all
qed

subsection \<open>Workers\<close>

lemma worker_stepE:
  assumes "worker_step tid act s = Some s'"
  obtains (blocked) rs where "map_of (workers s) tid = Some Submitted"
      "s' = set_worker tid Returned (set_task tid ''BLOCKED'' rs no_changes s)"
  | (reserved) "map_of (workers s) tid = Some Submitted"
      "s' = set_worker tid Reserved (reserve_attempt tid s)"
  | (attempt_error) rs where "map_of (workers s) tid = Some Reserved"
      "s' = set_worker tid Returned (set_task tid ''INCOMPLETE'' rs no_changes s)"
  | (finished) st rs m where "map_of (workers s) tid = Some Reserved" "st \<in> final_states"
      "s' = set_worker tid Returned (set_task tid st rs (no_changes\<lparr>ch_manifest := Some (Some m)\<rparr>) s)"
  | (crashed) w msg where "map_of (workers s) tid = Some w" "\<not> worker_done w"
      "s' = set_worker tid (Crashed msg) s"
  using assms
  by (auto simp: worker_step_def split: option.splits worker.splits worker_action.splits if_splits)

lemma reserve_attempt_eq:
  "\<exists>rs ch. reserve_attempt tid s = set_task tid ''RUNNING'' rs ch s"
  by (auto simp: reserve_attempt_def Let_def)

text \<open>Every worker step is a write to its own record and a new stage.\<close>

lemma worker_step_shape:
  assumes "worker_step tid act s = Some s'"
  obtains w w' s1 where "map_of (workers s) tid = Some w" "\<not> worker_done w" "s' = set_worker tid w' s1"
    "s1 = s \<and> worker_done w' \<or> (\<exists>st rs ch. s1 = set_task tid st rs ch s \<and>
       (worker_done w' \<or> st \<noteq> ''COMPLETED''))"
  using assms
proof (cases rule: worker_stepE)
  case (blocked rs)
  then show thesis by (intro that [of Submitted Returned]) auto
next
  case reserved
  then show thesis using reserve_attempt_eq [of tid s]
    by (intro that [of Submitted Reserved "reserve_attempt tid s"]) auto
next
  case (attempt_error rs)
  then show thesis by (intro that [of Reserved Returned]) auto
next
  case (finished st rs m)
  then show thesis by (intro that [of Reserved Returned]) auto
next
  case (crashed w msg)
  then show thesis by (intro that [of w "Crashed msg" s]) auto
qed

lemma worker_keeps_candidate:
  assumes "candidate cfg s t" "threads_inv cfg s" "map_of (workers s) tid = Some w" "\<not> worker_done w"
  shows "candidate cfg (set_task tid st rs ch s) t"
proof -
  obtain l where "map_of (active s) tid = Some l" using active_lookup [OF assms(2,3)] .
  note i = active_in_ids [OF assms(2) this]
  have "tid \<in> attempted s" using assms(2) i(2) by (auto simp: threads_inv_def)
  moreover have "status_of s tid \<noteq> ''COMPLETED''" using assms(2-4) by (simp add: threads_inv_def)
  ultimately show ?thesis
    using candidate_set_task [OF assms(1) i(1)] assms(1) by (auto simp: candidate_def)
qed

lemma set_worker_threads_inv:
  assumes "threads_inv cfg s" "map_of (workers s) tid \<noteq> None" "worker_done w \<or> status_of s tid \<noteq> ''COMPLETED''"
  shows "threads_inv cfg (set_worker tid w s)"
proof -
  have "tid \<in> fst ` set (workers s)" using assms(2) by (simp add: map_of_eq_None_iff)
  with assms(1,3) show ?thesis
    by (auto simp: threads_inv_def dom_update insert_absorb)
qed

lemma set_worker_candidate [simp]: "candidate cfg (set_worker tid w s) t = candidate cfg s t"
  by (simp add: candidate_def runnable_def)

lemma worker_inv:
  assumes inv: "pool_inv cfg s" "threads_inv cfg s" "phase_inv cfg s" "running s"
    and step: "worker_step tid act s = Some s'"
  shows "pool_inv cfg s'" "threads_inv cfg s'" "phase_inv cfg s'"
proof -
  obtain w w' s1 where w: "map_of (workers s) tid = Some w" "\<not> worker_done w" "s' = set_worker tid w' s1"
    and s1: "s1 = s \<and> worker_done w' \<or> (\<exists>st rs ch. s1 = set_task tid st rs ch s \<and>
       (worker_done w' \<or> st \<noteq> ''COMPLETED''))"
    using worker_step_shape [OF step] .
  obtain l where "map_of (active s) tid = Some l" using active_lookup [OF inv(2) w(1)] .
  note i = active_in_ids [OF inv(2) this]
  have act: "active s' = active s" "retained s' = retained s" "phase s' = phase s" "pool s' = pool s"
    using s1 w(3) by auto
  show "pool_inv cfg s'" by (rule pool_inv_cong [OF inv(1)]) (simp_all add: act)
  have d: "dict_ok (workers s)" using inv(2) by (simp add: threads_inv_def)
  have "tid \<notin> done_ids s" using done_ids_iff [OF d] w by auto
  then have dn: "done_ids s \<subseteq> done_ids s'"
    using s1 w(3) d by (auto simp: done_ids_iff split: if_splits) 
  have cand: "candidate cfg s' t" if "candidate cfg s t" for t
    using s1 w(3) that worker_keeps_candidate [OF that inv(2) w(1,2)] by auto
  show "phase_inv cfg s'"
    using inv(3,4) dn cand act by (auto simp: phase_inv_def running_def split: phase.splits)
  show "threads_inv cfg s'"
  proof -
    have "map_of (workers s1) tid \<noteq> None" using s1 w(1) by auto
    from s1 consider "s1 = s" "worker_done w'"
      | st rs ch where "s1 = set_task tid st rs ch s" "st \<noteq> ''COMPLETED''"
      | st rs ch where "s1 = set_task tid st rs ch s" "worker_done w'" "st = ''COMPLETED''"
      by metis
    then show ?thesis
    proof cases
      case 1
      then show ?thesis unfolding w(3) using inv(2) w(1) by (intro set_worker_threads_inv) auto
    next
      case (2 st rs ch)
      then have "threads_inv cfg s1" using inv(2) i(1) by (auto intro: threads_inv_set_task)
      then show ?thesis unfolding w(3) using 2 w(1) i(1) by (intro set_worker_threads_inv) auto
    next
      case (3 st rs ch)
      have "threads_inv cfg (set_worker tid w' s)"
        using inv(2) w(1) 3(2) by (intro set_worker_threads_inv) auto
      then have "threads_inv cfg (set_task tid st rs ch (set_worker tid w' s))"
        using i(1) 3(2) by (intro threads_inv_set_task) auto
      moreover have "set_task tid st rs ch (set_worker tid w' s) = s'"
        unfolding w(3) 3(1) by (simp add: set_task_def set_worker_def)
      ultimately show ?thesis by simp
    qed
  qed
qed

subsection \<open>The main thread\<close>

lemma idle_released:
  assumes "coordinator_inv c" "leases c = []"
  shows "assert_released c = Inr ()"
proof -
  have "used_nodes c = current_node_usage c"
    using assms(1) by (simp add: coordinator_inv_def counters_ok_def)
  then have "used_nodes c = 0" using assms(2) by (simp add: current_node_usage_def)
  with idle_used [OF assms] assms(2) show ?thesis by (simp add: assert_released_def)
qed

lemma final_check_passes:
  assumes "pool_inv cfg s" "active s = []"
  shows "final_check s = Inr ()"
proof -
  have p: "coordinator_inv (pool s)" "fst ` set (leases (pool s)) = retained s"
    using assms by (simp_all add: pool_inv_def)
  show ?thesis
  proof (cases "leases (pool s) = []")
    case True
    with idle_released [OF p(1)] show ?thesis by (simp add: final_check_def active_task_ids_def)
  next
    case False
    then have "active_task_ids (pool s) \<noteq> []"
      by (metis active_task_ids_def length_0_conv length_map length_sort)
    moreover have "set (active_task_ids (pool s)) = retained s" using p(2) by (simp add: active_task_ids_def)
    ultimately show ?thesis by (simp add: final_check_def)
  qed
qed

lemma main_inv:
  assumes cfg: "config_ok cfg" and inv: "sched_inv cfg s"
    and step: "main_step cfg remaining order proven s = Some s'"
  shows "sched_inv cfg s'"
proof -
  have i: "pool_inv cfg s" "threads_inv cfg s" "phase_inv cfg s" using inv by (simp_all add: sched_inv_def)
  show ?thesis
  proof (cases "phase s")
    case (Blocking ts)
    show ?thesis
    proof (cases ts)
      case Nil
      with step Blocking i show ?thesis by (auto simp: main_step_def sched_inv_def phase_inv_def)
    next
      case (Cons t us)
      then have t: "t \<in> set (cfg_tasks cfg)" "set us \<subseteq> set (cfg_tasks cfg)"
        using i(3) Blocking by (simp_all add: phase_inv_def)
      have "s' = (block_task t s)\<lparr>phase := Blocking us\<rparr>" using step Blocking Cons by (simp add: main_step_def)
      with block_task_inv [OF i(1,2) t(1)] t(2) show ?thesis by (simp add: sched_inv_def phase_inv_def)
    qed
  next
    case Margin
    have "retained s \<noteq> {} \<longrightarrow> stop_reason s \<noteq> None" using i(2) by (simp add: threads_inv_def)
    then have "retained s = {} \<or> stop_reason (check_margin (cfg_allocation cfg) remaining s) \<noteq> None"
      using check_margin_stop by blast
    moreover have "distinct (map node_id (cfg_tasks cfg))" using cfg by (simp add: config_ok_def)
    ultimately show ?thesis
      using step Margin i(1,2)
      by (auto simp: main_step_def Let_def sched_inv_def phase_inv_def pool_inv_frames threads_inv_margin)
  next
    case (Scanning ts rs)
    show ?thesis
    proof (cases ts)
      case Nil
      with step Scanning i show ?thesis by (auto simp: main_step_def sched_inv_def phase_inv_def)
    next
      case (Cons t us)
      then have t: "t \<in> set (cfg_tasks cfg)" using i(3) Scanning by (simp add: phase_inv_def)
      show ?thesis
      proof (cases "node_id t \<in> attempted s")
        case True
        with step Scanning Cons i show ?thesis by (auto simp: main_step_def sched_inv_def phase_inv_def)
      next
        case False
        obtain b s1 where r: "is_ready t s = Inr (b, s1)"
          using is_ready_total [OF config_taskD [OF cfg t]] by fast
        then have "s' = s1\<lparr>phase := Scanning us (if b then rs @ [t] else rs)\<rparr>"
          using step Scanning Cons False by (simp add: main_step_def)
        with scan_inv [OF i _ r False] Scanning Cons show ?thesis by (simp add: sched_inv_def)
      qed
    qed
  next
    case (Launching ts launched)
    show ?thesis
    proof (cases ts)
      case Nil
      with step Launching i show ?thesis by (auto simp: main_step_def sched_inv_def phase_inv_def)
    next
      case (Cons t us)
      then have t: "retained s = {}" "candidate cfg s t" using i(3) Launching by (simp_all add: phase_inv_def)
      obtain f s1 where r: "launch_task cfg remaining t s = Inr (f, s1)"
        using launch_task_total [OF cfg i(1,2) t] by fast
      then have "s' = s1\<lparr>phase := case f of Next \<Rightarrow> Launching us launched
          | Launched \<Rightarrow> Launching us True | Break \<Rightarrow> Waiting launched\<rparr>"
        using step Launching Cons by (cases f) (auto simp: main_step_def)
      with launch_inv [OF cfg i _ r] Launching Cons show ?thesis by (simp add: sched_inv_def)
    qed
  next
    case (Waiting launched)
    then show ?thesis
      using step i final_check_passes [OF i(1)]
      by (auto simp: main_step_def sched_inv_def phase_inv_def split: if_split_asm)
  next
    case (Collecting D)
    show ?thesis
    proof (cases D)
      case Nil
      with step Collecting i show ?thesis by (auto simp: main_step_def sched_inv_def phase_inv_def)
    next
      case (Cons tid rest)
      then have D: "tid \<in> done_ids s" "set rest \<subseteq> done_ids s" "tid \<notin> set rest" "distinct rest"
        using i(3) Collecting by (simp_all add: phase_inv_def)
      obtain s1 where r: "collect_task cfg proven tid s = Inr s1" "pool_inv cfg s1" "threads_inv cfg s1"
          "workers s1 = AList.delete tid (workers s)"
        using collect_inv [OF i(1,2) D(1), of proven] by metis
      have "set rest \<subseteq> done_ids s1"
        using D(2,3) i(2) by (auto simp: done_ids_iff threads_inv_def r(4) subset_iff split: if_splits)
      then show ?thesis
        using step Collecting Cons r D(4) by (auto simp: main_step_def sched_inv_def phase_inv_def)
    qed
  qed (use step in \<open>simp_all add: main_step_def\<close>)
qed

lemma worker_running:
  assumes "threads_inv cfg s" "phase_inv cfg s" "worker_step tid act s = Some s'"
  shows "running s"
proof -
  obtain w where "map_of (workers s) tid = Some w" using worker_step_shape [OF assms(3)] by metis
  then obtain l where "map_of (active s) tid = Some l" using active_lookup [OF assms(1)] by metis
  then have "active s \<noteq> []" by auto
  with assms(2) show ?thesis by (auto simp: running_def phase_inv_def split: phase.splits)
qed

lemma step_inv:
  assumes cfg: "config_ok cfg" and inv: "sched_inv cfg s" and step: "sched_step cfg s s'"
  shows "sched_inv cfg s'"
  using step
proof cases
  case (event ev)
  show ?thesis
  proof (cases ev)
    case (Main remaining order proven)
    with event have "main_step cfg remaining order proven s = Some s'" by (simp add: sched_event_def)
    then show ?thesis by (rule main_inv [OF cfg inv])
  next
    case (Work tid act)
    with event have w: "worker_step tid act s = Some s'" by (simp add: sched_event_def)
    have i: "pool_inv cfg s" "threads_inv cfg s" "phase_inv cfg s" using inv by (simp_all add: sched_inv_def)
    from worker_inv [OF i worker_running [OF i(2,3) w] w] show ?thesis by (simp add: sched_inv_def)
  next
    case (Signal reason)
    with event have s': "s' = request_shutdown reason s" and r: "running s"
      by (auto simp: sched_event_def split: if_splits)
    from inv r show ?thesis
      by (auto simp: s' sched_inv_def pool_inv_frames threads_inv_request phase_inv_def running_def
          done_ids_def split: phase.splits)
  qed
qed

lemma reachable_inv:
  assumes "config_ok cfg" "start_ok cfg s0" "sched_reachable cfg s0 s"
  shows "sched_inv cfg s"
  using assms(3)
  by induction (use assms(1,2) in \<open>auto intro: start_inv step_inv\<close>)

section \<open>What a step can change\<close>

lemma worker_step_frame:
  assumes "worker_step tid act s = Some s'"
  shows "active s' = active s" "attempted s' = attempted s" "stop_reason s' = stop_reason s"
    "phase s' = phase s" "fst ` set (workers s') = insert tid (fst ` set (workers s))"
    "retained s' = retained s" "pool s' = pool s"
proof -
  obtain w' s1 where "s' = set_worker tid w' s1" "s1 = s \<or> (\<exists>st rs ch. s1 = set_task tid st rs ch s)"
    using worker_step_shape [OF assms] by metis
  then show "active s' = active s" "attempted s' = attempted s" "stop_reason s' = stop_reason s"
    "phase s' = phase s" "fst ` set (workers s') = insert tid (fst ` set (workers s))"
    "retained s' = retained s" "pool s' = pool s"
    by (auto simp: dom_update)
qed

lemma block_task_frame [simp]:
  "active (block_task t s) = active s" "attempted (block_task t s) = attempted s"
  "stop_reason (block_task t s) = stop_reason s" "workers (block_task t s) = workers s"
  "retained (block_task t s) = retained s"
  by (rule block_taskE [of t s]; simp)+

lemma is_ready_frame:
  assumes "is_ready t s = Inr (b, s')"
  shows "active s' = active s" "attempted s' = attempted s" "stop_reason s' = stop_reason s"
    "workers s' = workers s" "retained s' = retained s"
  by (rule is_readyE [OF assms]; simp)+

text \<open>Only a granted launch makes a task active; tasks never leave the attempted set.\<close>

lemma step_active:
  assumes cfg: "config_ok cfg" and inv: "sched_inv cfg s" and step: "sched_step cfg s s'"
  shows "attempted s \<subseteq> attempted s' \<and>
    (\<forall>u \<in> fst ` set (active s') - fst ` set (active s).
       \<exists>t \<in> set (cfg_tasks cfg). node_id t = u \<and> candidate cfg s t \<and> u \<in> attempted s')"
    (is "?P s'")
  using step
proof cases
  case (event ev)
  have i: "pool_inv cfg s" "threads_inv cfg s" "phase_inv cfg s" using inv by (simp_all add: sched_inv_def)
  show ?thesis
  proof (cases ev)
    case (Work tid act)
    with event have "worker_step tid act s = Some s'" by (simp add: sched_event_def)
    from worker_step_frame [OF this] show ?thesis by simp
  next
    case (Signal reason)
    with event show ?thesis by (auto simp: sched_event_def split: if_splits)
  next
    case (Main remaining order proven)
    with event have m: "main_step cfg remaining order proven s = Some s'" by (simp add: sched_event_def)
    show ?thesis
    proof (cases "phase s")
      case (Blocking ts)
      with m show ?thesis by (cases ts) (auto simp: main_step_def)
    next
      case Margin
      with m show ?thesis by (auto simp: main_step_def Let_def)
    next
      case (Scanning ts rs)
      with m show ?thesis
        by (cases ts) (auto simp: main_step_def is_ready_frame split: if_split_asm sum.splits prod.splits)
    next
      case (Launching ts launched)
      show ?thesis
      proof (cases ts)
        case Nil
        with m Launching show ?thesis by (auto simp: main_step_def)
      next
        case (Cons t us)
        then have t: "retained s = {}" "candidate cfg s t" using i(3) Launching by (simp_all add: phase_inv_def)
        obtain f s1 where r: "launch_task cfg remaining t s = Inr (f, s1)"
          using launch_task_total [OF cfg i(1,2) t] by fast
        have "?P s1"
          using r by (cases rule: launch_taskE) (use t(2) in \<open>auto simp: candidate_def\<close>)
        moreover have "active s' = active s1" "attempted s' = attempted s1"
          using m Launching Cons r by (cases f; auto simp: main_step_def)+
        ultimately show ?thesis by simp
      qed
    next
      case (Waiting launched)
      with m show ?thesis by (auto simp: main_step_def split: if_split_asm sum.splits)
    next
      case (Collecting D)
      show ?thesis
      proof (cases D)
        case Nil
        with m Collecting show ?thesis by (auto simp: main_step_def)
      next
        case (Cons tid rest)
        then have "tid \<in> done_ids s" using i(3) Collecting by (simp add: phase_inv_def)
        from collect_inv [OF i(1,2) this, of proven] obtain s1 where "collect_task cfg proven tid s = Inr s1"
          "active s1 = AList.delete tid (active s)" "attempted s1 = attempted s" by metis
        with m Collecting Cons show ?thesis by (auto simp: main_step_def set_delete_dict rev_image_eqI)
      qed
    qed (use m in \<open>simp_all add: main_step_def\<close>)
  qed
qed

section \<open>Safety\<close>

text \<open>
  Property C1. Launches respect the workflow. In every reachable state, whatever the interleaving,
  a step that makes a task active takes a task of the workflow that was not attempted before in
  this run, whose status allows a launch, whose attempts are below its limit and all of whose
  dependencies are COMPLETED at that moment; and a task once attempted stays attempted, so it is
  launched at most once per run.
\<close>

theorem scheduler_launches_safely:
  assumes "config_ok cfg" "start_ok cfg s0" "sched_reachable cfg s0 s" "sched_step cfg s s'"
  shows "attempted s \<subseteq> attempted s' \<and>
    (\<forall>u \<in> fst ` set (active s') - fst ` set (active s).
       u \<notin> attempted s \<and> u \<in> attempted s' \<and>
       (\<exists>t \<in> set (cfg_tasks cfg). node_id t = u \<and> status_of s u \<in> launchable \<and>
          (\<exists>m. max_attempts (node_resources t) = Inr m \<and> tr_attempts (record_of s u) < m) \<and>
          (\<forall>d \<in> set (node_dependencies t). status_of s d = ''COMPLETED'')))"
proof (intro conjI ballI)
  note a = step_active [OF assms(1) reachable_inv [OF assms(1-3)] assms(4)]
  then show "attempted s \<subseteq> attempted s'" by blast
  fix u assume u: "u \<in> fst ` set (active s') - fst ` set (active s)"
  with a obtain t where t: "t \<in> set (cfg_tasks cfg)" "node_id t = u" "candidate cfg s t" "u \<in> attempted s'"
    by blast
  then show "u \<notin> attempted s" "u \<in> attempted s'" by (auto simp: candidate_def)
  show "\<exists>t \<in> set (cfg_tasks cfg). node_id t = u \<and> status_of s u \<in> launchable \<and>
      (\<exists>m. max_attempts (node_resources t) = Inr m \<and> tr_attempts (record_of s u) < m) \<and>
      (\<forall>d \<in> set (node_dependencies t). status_of s d = ''COMPLETED'')"
    using t by (intro bexI [of _ t]) (auto simp: candidate_def runnable_def)
qed

lemma active_subset_leases:
  assumes "pool_inv cfg s" "threads_inv cfg s"
  shows "set (active s) \<subseteq> set (leases (pool s))"
proof
  fix p assume "p \<in> set (active s)"
  then obtain u l where p: "p = (u, l)" "(u, l) \<in> set (active s)" by (metis surj_pair)
  have "dict_ok (active s)" using assms(2) by (simp add: threads_inv_def)
  with p(2) have "map_of (active s) u = Some l" by simp
  then have "map_of (leases (pool s)) u = Some l" using assms(1) by (simp add: pool_inv_def)
  then show "p \<in> set (leases (pool s))" unfolding p(1) by (rule map_of_SomeD)
qed

text \<open>
  Property C24. The loop never oversubscribes its allocation: in every reachable state the CPUs of
  the active tasks together are at most the allocation's, no more tasks are active than parallel
  steps are allowed, and two active tasks never share an assigned host.
\<close>

theorem scheduler_within_capacity:
  assumes "config_ok cfg" "start_ok cfg s0" "sched_reachable cfg s0 s"
  shows "sum_list (map (lease_cpus \<circ> snd) (active s)) \<le> total_cpus (cfg_allocation cfg) \<and>
    int (length (active s)) \<le> max_parallel_steps (cfg_allocation cfg) \<and>
    (\<forall>(u, l) \<in> set (active s). \<forall>(v, m) \<in> set (active s).
       u \<noteq> v \<longrightarrow> set (lease_hosts l) \<inter> set (lease_hosts m) = {})"
proof -
  have i: "pool_inv cfg s" "threads_inv cfg s"
    using reachable_inv [OF assms] by (simp_all add: sched_inv_def)
  have p: "leases_ok (pool s)" "hosts_apart (pool s)" "counters_ok (pool s)" "within_capacity (pool s)"
    "alloc (pool s) = cfg_allocation cfg"
    using i(1) by (simp_all add: pool_inv_def coordinator_inv_def)
  note sub = active_subset_leases [OF i]
  have d: "distinct (active s)" "distinct (leases (pool s))"
    using i(2) p(1) by (simp_all add: threads_inv_def leases_ok_def distinct_map)
  have pos: "0 \<le> lease_cpus (snd q)" if "q \<in> set (leases (pool s))" for q
    using p(1) that by (cases q) (auto simp: leases_ok_iff lease_ok_def order.strict_implies_order)
  have "sum_list (map (lease_cpus \<circ> snd) (active s)) = (\<Sum>q \<in> set (active s). lease_cpus (snd q))"
    using d(1) by (simp add: sum_list_distinct_conv_sum_set)
  also have "\<dots> \<le> (\<Sum>q \<in> set (leases (pool s)). lease_cpus (snd q))"
    using sub pos by (intro sum_mono2) auto
  also have "\<dots> = used_cpus (pool s)"
    using p(3) d(2) by (simp add: counters_ok_def sum_list_distinct_conv_sum_set)
  also have "\<dots> \<le> total_cpus (cfg_allocation cfg)" using p(4,5) by (simp add: within_capacity_def)
  finally have cpus: "sum_list (map (lease_cpus \<circ> snd) (active s)) \<le> total_cpus (cfg_allocation cfg)" .
  have "length (active s) = card (set (active s))" using d(1) by (simp add: distinct_card)
  also have "\<dots> \<le> length (leases (pool s))"
    using card_mono [OF _ sub] card_length [of "leases (pool s)"] by simp
  finally have "int (length (active s)) \<le> max_parallel_steps (cfg_allocation cfg)"
    using p(4,5) by (simp add: within_capacity_def)
  moreover have "\<forall>(u, l) \<in> set (active s). \<forall>(v, m) \<in> set (active s).
       u \<noteq> v \<longrightarrow> set (lease_hosts l) \<inter> set (lease_hosts m) = {}"
    using p(2) sub unfolding hosts_apart_def by blast
  ultimately show ?thesis using cpus by blast
qed

end
