(* ===== verification/SchedulerLiveness.thy ===== *)
theory SchedulerLiveness
  imports SchedulerProofs
begin

text \<open>
  The execution loop comes to an end: a potential that every step other than an idle poll
  decreases, the absence of deadlock, and what holds when the run is over.
\<close>

section \<open>Nothing runnable is forgotten\<close>

definition quiet :: "runtime_config \<Rightarrow> sched \<Rightarrow> bool" where
  "quiet cfg s \<longleftrightarrow>
     (stop_reason s = None \<longrightarrow> active s = [] \<longrightarrow>
      (case phase s of
         Scanning ts rs \<Rightarrow> (\<forall>t \<in> set (cfg_tasks cfg). t \<in> set ts \<or> t \<in> set rs \<or> node_id t \<in> attempted s \<or> \<not> runnable s t)
       | Launching ts launched \<Rightarrow> (\<forall>t \<in> set (cfg_tasks cfg). t \<in> set ts \<or> node_id t \<in> attempted s \<or> \<not> runnable s t)
       | Waiting launched \<Rightarrow> (\<forall>t \<in> set (cfg_tasks cfg). node_id t \<in> attempted s \<or> \<not> runnable s t)
       | Ended v \<Rightarrow> (\<forall>t \<in> set (cfg_tasks cfg). node_id t \<in> attempted s \<or> \<not> runnable s t)
       | _ \<Rightarrow> True))"

lemma runnable_set_task_back:
  assumes "runnable (set_task tid st rs ch s) t" "tid \<in> task_ids s" "tid \<noteq> node_id t" "st \<noteq> ''COMPLETED''"
  shows "runnable s t"
  using assms by (auto simp: runnable_def record_of_set_task split: if_splits)

lemma runnable_insert_attempted [simp]: "runnable (s\<lparr>attempted := A\<rparr>) t = runnable s t"
  by (simp add: runnable_def)

lemma not_runnable_failed: "st \<notin> launchable \<Longrightarrow> tid \<in> task_ids s \<Longrightarrow> tid = node_id t \<Longrightarrow>
    \<not> runnable (set_task tid st rs ch s) t"
  by (simp add: runnable_def)

lemma same_task:
  "config_ok cfg \<Longrightarrow> t \<in> set (cfg_tasks cfg) \<Longrightarrow> u \<in> set (cfg_tasks cfg) \<Longrightarrow> node_id t = node_id u \<Longrightarrow> t = u"
  by (auto simp: config_ok_def distinct_map dest: inj_onD)

lemma quiet_scan:
  assumes cfg: "config_ok cfg" and inv: "threads_inv cfg s" "phase_inv cfg s" "quiet cfg s"
    and p: "phase s = Scanning (t # ts) rs" and r: "is_ready t s = Inr (b, s')"
  shows "quiet cfg (s'\<lparr>phase := Scanning ts (if b then rs @ [t] else rs)\<rparr>)"
proof -
  have t: "t \<in> set (cfg_tasks cfg)" using inv(2) p by (simp add: phase_inv_def)
  have i: "node_id t \<in> task_ids s" using inv(1) t by (rule task_in_ids)
  have "u \<in> set ts \<or> u \<in> set (if b then rs @ [t] else rs) \<or> node_id u \<in> attempted s' \<or> \<not> runnable s' u"
    if u: "u \<in> set (cfg_tasks cfg)" and stop: "stop_reason s' = None" and act: "active s' = []" for u
  proof -
    have old: "u \<in> set (t # ts) \<or> u \<in> set rs \<or> node_id u \<in> attempted s \<or> \<not> runnable s u"
      using inv(3) p u stop act by (auto simp: quiet_def is_ready_frame [OF r])
    show ?thesis
    proof (cases rule: is_readyE [OF r])
      case 1
      with old show ?thesis by (cases b) auto
    next
      case (2 m reason)
      show ?thesis
      proof (cases "node_id u = node_id t")
        case True
        have "''FAILED'' \<notin> launchable" by (simp add: launchable_def)
        then show ?thesis unfolding 2(5) using not_runnable_failed [OF _ i True [symmetric]] by blast
      next
        case False
        have "runnable s u" if "runnable s' u"
          using runnable_set_task_back [OF that [unfolded 2(5)] i] False by simp
        moreover have "u \<noteq> t" "attempted s' = attempted s" using False by (auto simp: 2(5))
        ultimately show ?thesis using old 2(1) by auto
      qed
    qed
  qed
  then show ?thesis by (auto simp: quiet_def)
qed

lemma idle_launch:
  assumes cfg: "config_ok cfg" and inv: "pool_inv cfg s" "threads_inv cfg s" "retained s = {}" "candidate cfg s t"
    and "active s = []" "request_of cfg t = Inr r" "can_ever_fit (pool s) r"
  shows "\<exists>c l. try_acquire (pool s) r (required_hosts cfg t) (local_host cfg t) = Inr (c, Some l)"
proof -
  have p: "coordinator_inv (pool s)" "alloc (pool s) = cfg_allocation cfg" "fst ` set (leases (pool s)) = {}"
    using inv(1,3) assms(6) by (simp_all add: pool_inv_def)
  have t: "t \<in> set (cfg_tasks cfg)" using inv(4) by (simp add: candidate_def)
  note v = config_request [OF cfg t assms(7) p(2)]
  from idle_grant [OF p(1) _ v(2) assms(8) v(1)] p(3) show ?thesis by simp
qed

lemma quiet_launch:
  assumes cfg: "config_ok cfg" and inv: "pool_inv cfg s" "threads_inv cfg s" "phase_inv cfg s" "quiet cfg s"
    and p: "phase s = Launching (t # ts) launched" and r: "launch_task cfg remaining t s = Inr (f, s')"
  shows "quiet cfg (s'\<lparr>phase := case f of Next \<Rightarrow> Launching ts launched | Launched \<Rightarrow> Launching ts True
       | Break \<Rightarrow> Waiting launched\<rparr>)"
proof -
  have ph: "retained s = {}" "candidate cfg s t" using inv(3) p by (simp_all add: phase_inv_def)
  have t: "t \<in> set (cfg_tasks cfg)" using ph(2) by (simp add: candidate_def)
  have i: "node_id t \<in> task_ids s" using inv(2) t by (rule task_in_ids)
  show ?thesis
    using r
  proof (cases rule: launch_taskE)
    case (too_big q rs)
    have "u \<in> set ts \<or> node_id u \<in> attempted s' \<or> \<not> runnable s' u"
      if u: "u \<in> set (cfg_tasks cfg)" and stop: "stop_reason s' = None" and act: "active s' = []" for u
    proof -
      have old: "u \<in> set (t # ts) \<or> node_id u \<in> attempted s \<or> \<not> runnable s u"
        using inv(4) p u stop act by (auto simp: quiet_def too_big(4))
      show ?thesis
      proof (cases "node_id u = node_id t")
        case True
        then show ?thesis by (simp add: too_big(4))
      next
        case False
        have "runnable s u" if "runnable s' u"
          using runnable_set_task_back [OF that [unfolded too_big(4)]] i False by simp
        moreover have "u \<noteq> t" using False by blast
        ultimately show ?thesis using old by (auto simp: too_big(4))
      qed
    qed
    then show ?thesis by (auto simp: quiet_def too_big(1))
  next
    case (no_time rs)
    then show ?thesis by (auto simp: quiet_def)
  next
    case (no_room q)
    have "active s \<noteq> []" using idle_launch [OF cfg inv(1,2) ph] no_room(3-5) by auto
    then show ?thesis by (simp add: quiet_def no_room(2))
  next
    case (granted q c l)
    then show ?thesis by (simp add: quiet_def)
  qed
qed

lemma quiet_step:
  assumes cfg: "config_ok cfg" and inv: "sched_inv cfg s" "quiet cfg s" and step: "sched_step cfg s s'"
  shows "quiet cfg s'"
  using step
proof cases
  case (event ev)
  have i: "pool_inv cfg s" "threads_inv cfg s" "phase_inv cfg s" using inv(1) by (simp_all add: sched_inv_def)
  show ?thesis
  proof (cases ev)
    case (Work tid act)
    with event have w: "worker_step tid act s = Some s'" by (simp add: sched_event_def)
    obtain w' where "map_of (workers s) tid = Some w'" using worker_step_shape [OF w] by metis
    then obtain l where "map_of (active s) tid = Some l" using active_lookup [OF i(2)] by metis
    then have "active s' \<noteq> []" using worker_step_frame(1) [OF w] by auto
    then show ?thesis by (simp add: quiet_def)
  next
    case (Signal reason)
    with event show ?thesis by (auto simp: sched_event_def quiet_def split: if_splits)
  next
    case (Main remaining order proven)
    with event have m: "main_step cfg remaining order proven s = Some s'" by (simp add: sched_event_def)
    show ?thesis
    proof (cases "phase s")
      case (Blocking ts)
      with m show ?thesis by (cases ts) (auto simp: main_step_def quiet_def)
    next
      case Margin
      with m show ?thesis by (auto simp: main_step_def Let_def quiet_def)
    next
      case (Scanning ts rs)
      show ?thesis
      proof (cases ts)
        case Nil
        with m Scanning inv(2) show ?thesis by (auto simp: main_step_def quiet_def)
      next
        case (Cons t us)
        then have t: "t \<in> set (cfg_tasks cfg)" using i(3) Scanning by (simp add: phase_inv_def)
        show ?thesis
        proof (cases "node_id t \<in> attempted s")
          case True
          with m Scanning Cons inv(2) show ?thesis by (auto simp: main_step_def quiet_def)
        next
          case False
          obtain b s1 where r: "is_ready t s = Inr (b, s1)"
            using is_ready_total [OF config_taskD [OF cfg t]] by fast
          then have "s' = s1\<lparr>phase := Scanning us (if b then rs @ [t] else rs)\<rparr>"
            using m Scanning Cons False by (simp add: main_step_def)
          with quiet_scan [OF cfg i(2,3) inv(2) _ r] Scanning Cons show ?thesis by simp
        qed
      qed
    next
      case (Launching ts launched)
      show ?thesis
      proof (cases ts)
        case Nil
        with m Launching inv(2) show ?thesis by (auto simp: main_step_def quiet_def)
      next
        case (Cons t us)
        then have t: "retained s = {}" "candidate cfg s t" using i(3) Launching by (simp_all add: phase_inv_def)
        obtain f s1 where r: "launch_task cfg remaining t s = Inr (f, s1)"
          using launch_task_total [OF cfg i(1,2) t] by fast
        then have "s' = s1\<lparr>phase := case f of Next \<Rightarrow> Launching us launched
            | Launched \<Rightarrow> Launching us True | Break \<Rightarrow> Waiting launched\<rparr>"
          using m Launching Cons by (cases f) (auto simp: main_step_def)
        with quiet_launch [OF cfg i inv(2) _ r] Launching Cons show ?thesis by simp
      qed
    next
      case (Waiting launched)
      with m i(3) inv(2) show ?thesis
        by (auto simp: main_step_def quiet_def phase_inv_def split: if_split_asm sum.splits)
    next
      case (Collecting D)
      with m show ?thesis by (cases D) (auto simp: main_step_def quiet_def split: sum.splits)
    qed (use m in \<open>simp_all add: main_step_def\<close>)
  qed
qed

lemma reachable_quiet:
  assumes "config_ok cfg" "start_ok cfg s0" "sched_reachable cfg s0 s"
  shows "quiet cfg s"
  using assms(3)
proof induction
  case start
  then show ?case using assms(2) by (simp add: quiet_def start_ok_def)
next
  case (step s s')
  then show ?case using quiet_step [OF assms(1)] reachable_inv [OF assms(1,2)] by blast
qed

section \<open>Running records have a worker\<close>

definition running_inv :: "sched \<Rightarrow> bool" where
  "running_inv s \<longleftrightarrow>
     (\<forall>u \<in> task_ids s. status_of s u = ''RUNNING'' \<longrightarrow>
        (\<exists>w. map_of (workers s) u = Some w \<and> (w = Reserved \<or> (\<exists>e. w = Crashed e))))"

lemma running_set_task:
  "running_inv s \<Longrightarrow> tid \<in> task_ids s \<Longrightarrow> st \<noteq> ''RUNNING'' \<Longrightarrow> running_inv (set_task tid st rs ch s)"
  by (auto simp: running_inv_def)

lemma running_frame [simp]:
  "running_inv (s\<lparr>phase := p\<rparr>) = running_inv s" "running_inv (s\<lparr>pool := c\<rparr>) = running_inv s"
  "running_inv (s\<lparr>retained := R\<rparr>) = running_inv s" "running_inv (s\<lparr>attempted := A\<rparr>) = running_inv s"
  "running_inv (request_shutdown r s) = running_inv s" "running_inv (check_margin a x s) = running_inv s"
  by (simp_all add: running_inv_def)

lemma running_worker:
  assumes "running_inv s" "threads_inv cfg s" "worker_step tid act s = Some s'"
  shows "running_inv s'"
proof -
  have set_other: "running_inv (set_worker tid w (set_task tid st rs ch s))"
    if "tid \<in> task_ids s" "st = ''RUNNING'' \<longrightarrow> w = Reserved" for w st rs ch
    using assms(1) that by (auto simp: running_inv_def)
  have t: "tid \<in> task_ids s"
  proof -
    obtain w where "map_of (workers s) tid = Some w" using worker_step_shape [OF assms(3)] by metis
    then obtain l where "map_of (active s) tid = Some l" using active_lookup [OF assms(2)] by metis
    then show ?thesis using active_in_ids(1) [OF assms(2)] by blast
  qed
  show ?thesis
    using assms(3)
  proof (cases rule: worker_stepE)
    case (blocked rs)
    then show ?thesis using set_other [OF t] by simp
  next
    case reserved
    obtain rs ch where "reserve_attempt tid s = set_task tid ''RUNNING'' rs ch s"
      using reserve_attempt_eq by blast
    then show ?thesis using set_other [OF t] reserved(2) by simp
  next
    case (attempt_error rs)
    then show ?thesis using set_other [OF t] by simp
  next
    case (finished st rs m)
    then have "st \<noteq> ''RUNNING''" by (auto simp: final_states_def)
    then show ?thesis using set_other [OF t] finished(3) by simp
  next
    case (crashed w msg)
    then show ?thesis using assms(1) by (auto simp: running_inv_def)
  qed
qed

lemma running_launch:
  assumes "running_inv s" "threads_inv cfg s" "candidate cfg s t" "node_id t \<notin> fst ` set (active s)"
    and "launch_task cfg remaining t s = Inr (f, s')"
  shows "running_inv s'"
proof -
  have i: "node_id t \<in> task_ids s" using assms(2,3) by (auto simp: candidate_def intro: task_in_ids)
  show ?thesis
    using assms(5)
  proof (cases rule: launch_taskE)
    case (granted q c l)
    have w: "node_id t \<notin> fst ` set (workers s)" using assms(2,4) by (simp add: threads_inv_def)
    have "status_of s (node_id t) \<noteq> ''RUNNING''" using assms(3) by (auto simp: candidate_def runnable_def launchable_def)
    with assms(1) w show ?thesis
      by (auto simp: running_inv_def granted(4) map_of_snoc)
  next
    case (too_big q rs)
    then show ?thesis using assms(1) i by (simp add: running_set_task)
  qed (use assms(1) in \<open>simp_all\<close>)
qed

lemma running_collect:
  assumes "running_inv s" "threads_inv cfg s" "pool_inv cfg s" "tid \<in> done_ids s"
    and "collect_task cfg proven tid s = Inr s'"
  shows "running_inv s'"
proof -
  have d: "dict_ok (workers s)" using assms(2) by (simp add: threads_inv_def)
  then obtain w l where w: "map_of (workers s) tid = Some w" "worker_done w" "map_of (active s) tid = Some l"
    using assms(4) done_ids_iff active_lookup [OF assms(2)] by metis
  note i = active_in_ids(1) [OF assms(2) w(3)]
  define s2 where "s2 = (case w of
      Crashed e \<Rightarrow> set_task tid ''INCOMPLETE'' (''runtime worker error: '' @ e) no_changes (dropped tid s)
    | _ \<Rightarrow> dropped tid s)"
  have "running_inv s2"
  proof (cases w)
    case Returned
    then show ?thesis using assms(1) w(1) i by (auto simp: s2_def running_inv_def)
  next
    case (Crashed e)
    then show ?thesis using assms(1) i by (auto simp: s2_def running_inv_def)
  qed (use w(2) in simp_all)
  moreover have "s' = s2\<lparr>pool := fst (release (pool s2) l)\<rparr> \<or>
      s' = request_shutdown ''CONTROLLER_CLOSURE_UNKNOWN''
         (set_task tid ''INTERRUPTED'' ''CONTROLLER_CLOSURE_UNKNOWN'' no_changes
           (s2\<lparr>retained := insert tid (retained s2)\<rparr>))"
    using assms(5) unfolding collect_task_def w(1,3) s2_def dropped_def
    by (auto simp: Let_def split: if_split_asm prod.splits option.splits)
  moreover have "tid \<in> task_ids s2" using i by (cases w) (auto simp: s2_def)
  ultimately show ?thesis by (auto intro!: running_set_task)
qed

lemma running_step:
  assumes cfg: "config_ok cfg" and inv: "sched_inv cfg s" "running_inv s" and step: "sched_step cfg s s'"
  shows "running_inv s'"
  using step
proof cases
  case (event ev)
  have i: "pool_inv cfg s" "threads_inv cfg s" "phase_inv cfg s" using inv(1) by (simp_all add: sched_inv_def)
  show ?thesis
  proof (cases ev)
    case (Work tid act)
    with event have "worker_step tid act s = Some s'" by (simp add: sched_event_def)
    with running_worker [OF inv(2) i(2)] show ?thesis .
  next
    case (Signal reason)
    with event inv(2) show ?thesis by (auto simp: sched_event_def split: if_splits)
  next
    case (Main remaining order proven)
    with event have m: "main_step cfg remaining order proven s = Some s'" by (simp add: sched_event_def)
    have set_ok: "running_inv (block_task t s)" "is_ready t s = Inr (b, s1) \<Longrightarrow> running_inv s1"
      if "t \<in> set (cfg_tasks cfg)" for t b s1
    proof -
      note id = task_in_ids [OF i(2) that]
      show "running_inv (block_task t s)"
        by (rule block_taskE [of t s]) (simp_all add: inv(2) running_set_task id)
      show "running_inv s1" if "is_ready t s = Inr (b, s1)"
        by (rule is_readyE [OF that]) (simp_all add: inv(2) running_set_task id)
    qed
    show ?thesis
    proof (cases "phase s")
      case (Blocking ts)
      with m inv(2) set_ok(1) i(3) show ?thesis
        by (cases ts) (auto simp: main_step_def phase_inv_def)
    next
      case (Scanning ts rs)
      with m inv(2) set_ok(2) i(3) show ?thesis
        by (cases ts) (auto simp: main_step_def phase_inv_def split: if_split_asm sum.splits prod.splits)
    next
      case (Launching ts launched)
      show ?thesis
      proof (cases ts)
        case Nil
        with m Launching inv(2) show ?thesis by (auto simp: main_step_def)
      next
        case (Cons t us)
        then have t: "retained s = {}" "candidate cfg s t" using i(3) Launching by (simp_all add: phase_inv_def)
        then have "node_id t \<notin> attempted s" by (simp add: candidate_def)
        note fresh = candidate_unleased(1) [OF i(1,2) t(1) this]
        obtain f s1 where r: "launch_task cfg remaining t s = Inr (f, s1)"
          using launch_task_total [OF cfg i(1,2) t] by fast
        from running_launch [OF inv(2) i(2) t(2) fresh r] show ?thesis
          using m Launching Cons r by (cases f) (auto simp: main_step_def)
      qed
    next
      case (Collecting D)
      show ?thesis
      proof (cases D)
        case Nil
        with m Collecting inv(2) show ?thesis by (auto simp: main_step_def)
      next
        case (Cons tid rest)
        then have "tid \<in> done_ids s" using i(3) Collecting by (simp add: phase_inv_def)
        from running_collect [OF inv(2) i(2,1) this] show ?thesis
          using m Collecting Cons inv(2) by (auto simp: main_step_def split: sum.splits)
      qed
    qed (use m inv(2) in \<open>auto simp: main_step_def Let_def split: if_split_asm sum.splits\<close>)
  qed
qed

lemma reachable_running:
  assumes "config_ok cfg" "start_ok cfg s0" "\<forall>u \<in> ids_of cfg. status_of s0 u \<noteq> ''RUNNING''"
    and "sched_reachable cfg s0 s"
  shows "running_inv s"
  using assms(4)
proof induction
  case start
  then show ?case using assms(2,3) by (auto simp: running_inv_def start_ok_def)
next
  case (step s s')
  then show ?case using running_step [OF assms(1)] reachable_inv [OF assms(1,2)] by blast
qed

section \<open>The end of a run\<close>


section \<open>Termination\<close>

text \<open>
  The one step that makes no progress is the poll: \<open>wait\<close> times out with no finished future and the
  loop starts over. Every other step decreases \<open>potential\<close>: the tasks not yet attempted, the stages
  the workers have before them, the shutdown that can still be requested, and the place in the loop.
\<close>

definition polling :: "runtime_config \<Rightarrow> sched \<Rightarrow> sched \<Rightarrow> bool" where
  "polling cfg s s' \<longleftrightarrow>
     (\<exists>launched. phase s = Waiting launched) \<and> active s \<noteq> [] \<and> done_ids s = {} \<and>
     s' = s\<lparr>phase := Blocking (cfg_tasks cfg)\<rparr>"

fun stage :: "worker \<Rightarrow> nat" where
  "stage Submitted = 3"
| "stage Reserved = 2"
| "stage Returned = 1"
| "stage (Crashed e) = 1"

definition workload :: "sched \<Rightarrow> nat" where
  "workload s = sum_list (map (stage \<circ> snd) (workers s))"

definition weight :: "runtime_config \<Rightarrow> sched \<Rightarrow> nat" where
  "weight cfg s = 4 * card (ids_of cfg - attempted s) + workload s + of_bool (stop_reason s = None)"

definition place :: "nat \<Rightarrow> phase \<Rightarrow> nat" where
  "place n p =
     (case p of
        Blocking ts \<Rightarrow> 3 * n + 6 + length ts
      | Margin \<Rightarrow> 3 * n + 5
      | Scanning ts rs \<Rightarrow> n + 3 + 2 * length ts + length rs
      | Launching ts launched \<Rightarrow> 2 + length ts
      | Waiting launched \<Rightarrow> 1
      | Collecting D \<Rightarrow> if D = [] then 4 * n + 7 else 0
      | Ended v \<Rightarrow> 0
      | Raised e \<Rightarrow> 0)"

definition round_length :: "runtime_config \<Rightarrow> nat" where
  "round_length cfg = 4 * length (cfg_tasks cfg) + 8"

definition potential :: "runtime_config \<Rightarrow> sched \<Rightarrow> nat" where
  "potential cfg s = weight cfg s * round_length cfg + place (length (cfg_tasks cfg)) (phase s)"

lemma workload_update:
  assumes "dict_ok ws" "map_of ws tid = Some w"
  shows "sum_list (map (stage \<circ> snd) (AList.update tid w' ws)) + stage w =
    sum_list (map (stage \<circ> snd) ws) + stage w'"
  using assms
proof (induction ws)
  case (Cons p ws)
  show ?case
  proof (cases "fst p = tid")
    case True
    with Cons.prems show ?thesis by (cases p) auto
  next
    case False
    with Cons show ?thesis by (cases p) auto
  qed
qed simp

lemma workload_delete:
  assumes "dict_ok ws" "map_of ws tid = Some w"
  shows "sum_list (map (stage \<circ> snd) (AList.delete tid ws)) + stage w = sum_list (map (stage \<circ> snd) ws)"
  using assms
proof (induction ws)
  case (Cons p ws)
  show ?case
  proof (cases "fst p = tid")
    case True
    with Cons.prems have "tid \<notin> fst ` set ws" by auto
    with True Cons.prems show ?thesis by (cases p) (auto simp: delete_absent)
  next
    case False
    with Cons show ?thesis by (cases p) auto
  qed
qed simp

lemma stage_pos: "1 \<le> stage w"
  by (cases w) simp_all

lemma weight_frame [simp]:
  "weight cfg (s\<lparr>phase := p\<rparr>) = weight cfg s" "weight cfg (set_task tid st rs ch s) = weight cfg s"
  "weight cfg (s\<lparr>pool := c\<rparr>) = weight cfg s" "weight cfg (s\<lparr>retained := R\<rparr>) = weight cfg s"
  by (simp_all add: weight_def workload_def)

lemma weight_request: "weight cfg (request_shutdown r s) \<le> weight cfg s"
  by (simp add: weight_def workload_def)

lemma weight_margin: "weight cfg (check_margin a x s) \<le> weight cfg s"
  using check_margin_stop [of s a x]
  by (cases "stop_reason s") (auto simp: weight_def workload_def)

lemma weight_attempt:
  assumes "t \<in> set (cfg_tasks cfg)" "node_id t \<notin> attempted s"
  shows "4 * card (ids_of cfg - insert (node_id t) (attempted s)) + 4 = 4 * card (ids_of cfg - attempted s)"
proof -
  have "ids_of cfg - insert (node_id t) (attempted s) = (ids_of cfg - attempted s) - {node_id t}" by blast
  moreover have "card (ids_of cfg - attempted s) = Suc (card ((ids_of cfg - attempted s) - {node_id t}))"
    using assms by (intro card.remove) auto
  ultimately show ?thesis by simp
qed

lemma weight_launch:
  assumes "candidate cfg s t" "launch_task cfg remaining t s = Inr (f, s')"
  shows "weight cfg s' \<le> weight cfg s"
proof -
  have t: "t \<in> set (cfg_tasks cfg)" "node_id t \<notin> attempted s" using assms(1) by (simp_all add: candidate_def)
  note c = weight_attempt [OF t]
  show ?thesis
    using assms(2)
  proof (cases rule: launch_taskE)
    case (too_big q rs)
    then show ?thesis using c by (simp add: weight_def workload_def)
  next
    case (granted q d l)
    then show ?thesis using c by (simp add: weight_def workload_def)
  qed (simp_all add: weight_request)
qed

lemma weight_worker:
  assumes "threads_inv cfg s" "worker_step tid act s = Some s'"
  shows "weight cfg s' < weight cfg s"
proof -
  have d: "dict_ok (workers s)" using assms(1) by (simp add: threads_inv_def)
  have "weight cfg s' < weight cfg s" if w: "map_of (workers s) tid = Some w" "stage w' < stage w"
    "s' = set_worker tid w' s1" "s1 = s \<or> (\<exists>st rs ch. s1 = set_task tid st rs ch s)" for w w' s1
  proof -
    have "workers s1 = workers s" "attempted s1 = attempted s" "stop_reason s1 = stop_reason s"
      using w(4) by auto
    with workload_update [OF d w(1), of w'] w(2) show ?thesis
      by (simp add: weight_def workload_def w(3))
  qed
  note * = this
  show ?thesis
    using assms(2)
  proof (cases rule: worker_stepE)
    case reserved
    then show ?thesis using * [of Submitted Reserved] reserve_attempt_eq [of tid s] by auto
  next
    case (crashed w msg)
    have "stage (Crashed msg) < stage w" using crashed(2) by (cases w) simp_all
    with * [OF crashed(1) this crashed(3)] show ?thesis by simp
  qed (use * [of Submitted Returned] * [of Reserved Returned] in \<open>auto\<close>)
qed

lemma weight_collect:
  assumes "pool_inv cfg s" "threads_inv cfg s" "tid \<in> done_ids s" "collect_task cfg proven tid s = Inr s'"
  shows "weight cfg s' < weight cfg s"
proof -
  obtain s1 where s1: "collect_task cfg proven tid s = Inr s1" "workers s1 = AList.delete tid (workers s)"
    "attempted s1 = attempted s" "stop_reason s \<noteq> None \<Longrightarrow> stop_reason s1 \<noteq> None"
    using collect_inv [OF assms(1-3), of proven] by metis
  then have s': "s' = s1" using assms(4) by simp
  have d: "dict_ok (workers s)" using assms(2) by (simp add: threads_inv_def)
  then obtain w where "map_of (workers s) tid = Some w" using assms(3) done_ids_iff by metis
  from workload_delete [OF d this] stage_pos [of w] s1(2,3,4) show ?thesis
    unfolding s' by (cases "stop_reason s") (auto simp: weight_def workload_def)
qed

lemma potential_weight:
  assumes "weight cfg s' < weight cfg s" "place (length (cfg_tasks cfg)) (phase s') < round_length cfg"
  shows "potential cfg s' < potential cfg s"
proof -
  have "Suc (weight cfg s') * round_length cfg \<le> weight cfg s * round_length cfg"
    using assms(1) by (intro mult_le_mono1) simp
  with assms(2) show ?thesis by (simp add: potential_def)
qed

lemma potential_place:
  assumes "weight cfg s' \<le> weight cfg s"
    and "place (length (cfg_tasks cfg)) (phase s') < place (length (cfg_tasks cfg)) (phase s)"
  shows "potential cfg s' < potential cfg s"
proof -
  have "weight cfg s' * round_length cfg \<le> weight cfg s * round_length cfg"
    using assms(1) by (rule mult_le_mono1)
  then show ?thesis unfolding potential_def using assms(2) by (rule add_le_less_mono)
qed

lemma potential_same_phase:
  assumes "weight cfg s' < weight cfg s" "phase s' = phase s"
  shows "potential cfg s' < potential cfg s"
proof -
  have "weight cfg s' * round_length cfg < weight cfg s * round_length cfg"
    using assms(1) by (simp add: round_length_def)
  then show ?thesis by (simp add: potential_def assms(2))
qed

lemma step_potential:
  assumes cfg: "config_ok cfg" and inv: "sched_inv cfg s" and step: "sched_step cfg s s'"
    and np: "\<not> polling cfg s s'"
  shows "potential cfg s' < potential cfg s"
  using step
proof cases
  case (event ev)
  have i: "pool_inv cfg s" "threads_inv cfg s" "phase_inv cfg s" using inv by (simp_all add: sched_inv_def)
  show ?thesis
  proof (cases ev)
    case (Work tid act)
    with event have w: "worker_step tid act s = Some s'" by (simp add: sched_event_def)
    from potential_same_phase [OF weight_worker [OF i(2) w] worker_step_frame(4) [OF w]] show ?thesis .
  next
    case (Signal reason)
    with event have "stop_reason s = None" "s' = request_shutdown reason s"
      by (auto simp: sched_event_def split: if_splits)
    then show ?thesis by (intro potential_same_phase) (simp_all add: weight_def workload_def)
  next
    case (Main remaining order proven)
    with event have m: "main_step cfg remaining order proven s = Some s'" by (simp add: sched_event_def)
    show ?thesis
    proof (cases "phase s")
      case (Blocking ts)
      with m show ?thesis
      proof (cases ts)
        case (Cons t us)
        have "weight cfg (block_task t s) = weight cfg s" by (rule block_taskE [of t s]) simp_all
        with m Blocking Cons show ?thesis
          by (intro potential_place) (auto simp: main_step_def place_def)
      qed (use m Blocking in \<open>auto intro!: potential_place simp: main_step_def place_def\<close>)
    next
      case Margin
      with m weight_margin [of cfg "cfg_allocation cfg" remaining s] show ?thesis
        by (intro potential_place) (auto simp: main_step_def Let_def place_def)
    next
      case (Scanning ts rs)
      show ?thesis
      proof (cases ts)
        case Nil
        with m Scanning show ?thesis by (intro potential_place) (auto simp: main_step_def place_def)
      next
        case (Cons t us)
        then have t: "t \<in> set (cfg_tasks cfg)" using i(3) Scanning by (simp add: phase_inv_def)
        obtain b s1 where r: "is_ready t s = Inr (b, s1)"
          using is_ready_total [OF config_taskD [OF cfg t]] by fast
        have "weight cfg s1 = weight cfg s" by (rule is_readyE [OF r]) simp_all
        with m Scanning Cons r show ?thesis
          by (intro potential_place) (auto simp: main_step_def place_def split: if_split_asm)
      qed
    next
      case (Launching ts launched)
      show ?thesis
      proof (cases ts)
        case Nil
        with m Launching show ?thesis by (intro potential_place) (auto simp: main_step_def place_def)
      next
        case (Cons t us)
        then have t: "retained s = {}" "candidate cfg s t" using i(3) Launching by (simp_all add: phase_inv_def)
        obtain f s1 where r: "launch_task cfg remaining t s = Inr (f, s1)"
          using launch_task_total [OF cfg i(1,2) t] by fast
        note w = weight_launch [OF t(2) r]
        have "weight cfg s' = weight cfg s1"
          using m Launching Cons r by (cases f) (auto simp: main_step_def)
        moreover have "phase s' = Launching us launched \<or> phase s' = Launching us True \<or> phase s' = Waiting launched"
          using m Launching Cons r by (cases f) (auto simp: main_step_def)
        ultimately show ?thesis
          using w Launching Cons by (intro potential_place) (auto simp: place_def)
      qed
    next
      case (Waiting launched)
      show ?thesis
      proof (cases "active s = []")
        case True
        then have "\<not> launched" using i(3) Waiting by (auto simp: phase_inv_def)
        with m Waiting True show ?thesis
          by (intro potential_place) (auto simp: main_step_def place_def split: sum.splits)
      next
        case False
        then have o: "distinct order" "set order = done_ids s"
          and s': "s' = s\<lparr>phase := if order = [] then Blocking (cfg_tasks cfg) else Collecting order\<rparr>"
          using m Waiting by (auto simp: main_step_def split: if_splits)
        have "order \<noteq> []" using np Waiting False o s' by (auto simp: polling_def)
        with Waiting s' show ?thesis by (intro potential_place) (auto simp: place_def)
      qed
    next
      case (Collecting D)
      show ?thesis
      proof (cases D)
        case Nil
        with m Collecting show ?thesis by (intro potential_place) (auto simp: main_step_def place_def)
      next
        case (Cons tid rest)
        then have d: "tid \<in> done_ids s" using i(3) Collecting by (simp add: phase_inv_def)
        obtain s1 where r: "collect_task cfg proven tid s = Inr s1"
          using collect_inv [OF i(1,2) d, of proven] by metis
        then have "s' = s1\<lparr>phase := Collecting rest\<rparr>" using m Collecting Cons by (simp add: main_step_def)
        with weight_collect [OF i(1,2) d r] show ?thesis
          by (intro potential_weight) (simp_all add: place_def round_length_def)
      qed
    qed (use m in \<open>simp_all add: main_step_def\<close>)
  qed
qed

text \<open>
  Property C12. The loop terminates when its workers do. Among the reachable states, the steps other
  than idle polls are well-founded: there is no infinite sequence of task scans, launches, worker
  transitions, collections and shutdown requests, so a run can go on for ever only by polling
  workers that never finish.
\<close>

theorem scheduler_terminates:
  assumes "config_ok cfg" "start_ok cfg s0"
  shows "wf {(s', s). sched_reachable cfg s0 s \<and> sched_step cfg s s' \<and> \<not> polling cfg s s'}"
proof (rule wf_subset [OF wf_measure [of "potential cfg"]])
  show "{(s', s). sched_reachable cfg s0 s \<and> sched_step cfg s s' \<and> \<not> polling cfg s s'}
      \<subseteq> measure (potential cfg)"
    using step_potential [OF assms(1)] reachable_inv [OF assms] by auto
qed

text \<open>Runs with the number of their proper steps and of their polls.\<close>

inductive sched_run :: "runtime_config \<Rightarrow> sched \<Rightarrow> nat \<Rightarrow> nat \<Rightarrow> sched \<Rightarrow> bool" for cfg s0 where
  run_start: "sched_run cfg s0 0 0 s0"
| run_step: "sched_run cfg s0 n p s \<Longrightarrow> sched_step cfg s s' \<Longrightarrow> \<not> polling cfg s s' \<Longrightarrow>
     sched_run cfg s0 (Suc n) p s'"
| run_poll: "sched_run cfg s0 n p s \<Longrightarrow> sched_step cfg s s' \<Longrightarrow> polling cfg s s' \<Longrightarrow>
     sched_run cfg s0 n (Suc p) s'"

lemma run_reachable: "sched_run cfg s0 n p s \<Longrightarrow> sched_reachable cfg s0 s"
  by (induction rule: sched_run.induct) (auto intro: sched_reachable.intros)

lemma poll_potential:
  assumes "polling cfg s s'"
  shows "potential cfg s' \<le> potential cfg s + round_length cfg"
proof -
  obtain launched where "phase s = Waiting launched" "s' = s\<lparr>phase := Blocking (cfg_tasks cfg)\<rparr>"
    using assms by (auto simp: polling_def)
  then show ?thesis by (simp add: potential_def place_def round_length_def)
qed

lemma run_potential:
  assumes cfg: "config_ok cfg" and start: "start_ok cfg s0" and "sched_run cfg s0 n p s"
  shows "n + potential cfg s \<le> potential cfg s0 + p * round_length cfg"
  using assms(3)
proof induction
  case (run_step n p s s')
  have "sched_inv cfg s" by (rule reachable_inv [OF cfg start run_reachable [OF run_step.hyps(1)]])
  from step_potential [OF cfg this run_step.hyps(2,3)] run_step.IH show ?case by linarith
next
  case (run_poll n p s s')
  from poll_potential [OF run_poll.hyps(3)] run_poll.IH show ?case by simp
qed simp

text \<open>
  Property C30. How long a run is. With \<open>N\<close> tasks, a run that polls \<open>p\<close> times makes at most
  \<open>(4 N + 2 + p) (4 N + 8)\<close> other steps: scans, launches, worker transitions, collections and
  signals together.
\<close>

theorem scheduler_run_bound:
  assumes "config_ok cfg" "start_ok cfg s0" "sched_run cfg s0 n p s"
  shows "n \<le> (4 * length (cfg_tasks cfg) + 2 + p) * (4 * length (cfg_tasks cfg) + 8)"
proof -
  have s0: "attempted s0 = {}" "workers s0 = []" "phase s0 = Blocking (cfg_tasks cfg)"
    using assms(2) by (simp_all add: start_ok_def)
  have "card (ids_of cfg) \<le> length (cfg_tasks cfg)"
    using card_length [of "map node_id (cfg_tasks cfg)"] by simp
  then have "weight cfg s0 \<le> 4 * length (cfg_tasks cfg) + 1"
    by (simp add: weight_def workload_def s0)
  then have "weight cfg s0 * round_length cfg \<le> (4 * length (cfg_tasks cfg) + 1) * round_length cfg"
    by (rule mult_le_mono1)
  moreover have "place (length (cfg_tasks cfg)) (phase s0) \<le> round_length cfg"
    by (simp add: s0 place_def round_length_def)
  ultimately have "n \<le> (4 * length (cfg_tasks cfg) + 1) * round_length cfg + round_length cfg + p * round_length cfg"
    using run_potential [OF assms] by (simp add: potential_def)
  then show ?thesis by (simp add: round_length_def algebra_simps)
qed

section \<open>Progress\<close>

lemma worker_enabled:
  assumes "map_of (workers s) tid = Some w" "\<not> worker_done w"
  shows "\<exists>s'. worker_step tid (Crash []) s = Some s'"
  using assms by (cases w) (simp_all add: worker_step_def)

lemma progress:
  assumes cfg: "config_ok cfg" and inv: "sched_inv cfg s" and run: "running s"
  shows "\<exists>s'. sched_step cfg s s' \<and> \<not> polling cfg s s'"
proof -
  have i: "pool_inv cfg s" "threads_inv cfg s" "phase_inv cfg s" using inv by (simp_all add: sched_inv_def)
  show ?thesis
  proof (cases "(\<exists>launched. phase s = Waiting launched) \<and> active s \<noteq> [] \<and> done_ids s = {}")
    case True
    have "fst ` set (workers s) = fst ` set (active s)" "dict_ok (workers s)"
      using i(2) by (simp_all add: threads_inv_def)
    moreover from this True have "workers s \<noteq> []" by auto
    ultimately obtain tid w where w: "map_of (workers s) tid = Some w" "\<not> worker_done w"
      using True done_ids_iff by (metis (no_types, lifting) emptyE list.set_intros(1) map_of_is_SomeI surj_pair neq_Nil_conv)
    then obtain s' where s': "worker_step tid (Crash []) s = Some s'" using worker_enabled by blast
    then have "sched_step cfg s s'"
      by (intro sched_step.event [of _ "Work tid (Crash [])"]) (simp add: sched_event_def)
    moreover have "\<not> polling cfg s s'"
      using True worker_step_frame(4) [OF s'] by (auto simp: polling_def)
    ultimately show ?thesis by blast
  next
    case False
    obtain order where o: "distinct order" "set order = done_ids s"
      using finite_distinct_list [of "done_ids s"] by (auto simp: done_ids_def)
    have "\<exists>s'. main_step cfg None order True s = Some s'"
      using run o
      by (auto simp: main_step_def running_def Let_def split: phase.splits list.splits sum.splits prod.splits flow.splits)
    then obtain s' where "main_step cfg None order True s = Some s'" by blast
    then have "sched_step cfg s s'"
      by (intro sched_step.event [of _ "Main None order True"]) (simp add: sched_event_def)
    moreover have "\<not> polling cfg s s'" using False by (auto simp: polling_def)
    ultimately show ?thesis by blast
  qed
qed

lemma reachable_trans:
  "sched_reachable cfg s s' \<Longrightarrow> sched_reachable cfg s' s'' \<Longrightarrow> sched_reachable cfg s s''"
  by (rotate_tac 1, induction rule: sched_reachable.induct) (auto intro: sched_reachable.step)

lemma can_end:
  assumes "config_ok cfg" "sched_inv cfg s"
  shows "\<exists>s' v. sched_reachable cfg s s' \<and> phase s' = Ended v"
  using assms(2)
proof (induction "potential cfg s" arbitrary: s rule: less_induct)
  case less
  show ?case
  proof (cases "running s")
    case True
    obtain s' where s': "sched_step cfg s s'" "\<not> polling cfg s s'"
      using progress [OF assms(1) less.prems True] by blast
    have one: "sched_reachable cfg s s'" by (rule sched_reachable.step [OF sched_reachable.start s'(1)])
    from less.hyps [OF step_potential [OF assms(1) less.prems s'] step_inv [OF assms(1) less.prems s'(1)]]
    obtain s'' v where "sched_reachable cfg s' s''" "phase s'' = Ended v" by blast
    with reachable_trans [OF one] show ?thesis by blast
  next
    case False
    then obtain v where "phase s = Ended v"
      using less.prems by (auto simp: running_def sched_inv_def phase_inv_def split: phase.splits)
    then show ?thesis using sched_reachable.start by blast
  qed
qed


section \<open>An example run\<close>

definition demo_node :: "string \<Rightarrow> string list \<Rightarrow> task_node" where
  "demo_node tid deps = \<lparr>node_id = tid, node_kind = CALCULATION, node_capability = ''siesta.run'',
     node_dependencies = deps, node_inputs = [], node_outputs = [], node_resources = OMap [],
     node_settings = OMap []\<rparr>"

definition demo_config :: runtime_config where
  "demo_config = \<lparr>cfg_tasks = [demo_node ''a'' [], demo_node ''b'' [''a'']],
     cfg_specs = [(''a'', sample_spec), (''b'', sample_spec)], cfg_reservations = [], cfg_adapters = [],
     cfg_allocation = sample_allocation, cfg_host = ''h1''\<rparr>"

definition demo_record :: task_record where
  "demo_record = \<lparr>tr_status = ''PENDING'', tr_attempts = 0, tr_last_attempt = None,
     tr_manifest = None, tr_reason = ''not started''\<rparr>"

definition demo_start :: sched where
  "demo_start = \<lparr>records = [(''a'', demo_record), (''b'', demo_record)],
     pool = new_coordinator sample_allocation, attempted = {}, active = [], workers = [],
     stop_reason = None, retained = {}, phase = Blocking (cfg_tasks demo_config)\<rparr>"

lemma demo_requests:
  "t \<in> set (cfg_tasks demo_config) \<Longrightarrow> request_of demo_config t =
     Inr \<lparr>req_task_id = node_id t, req_cpus = 8, req_nodes = 2, exclusive_hosts = False\<rparr>"
proof -
  have "list_all (\<lambda>t. request_of demo_config t =
     Inr \<lparr>req_task_id = node_id t, req_cpus = 8, req_nodes = 2, exclusive_hosts = False\<rparr>)
     (cfg_tasks demo_config)" by code_simp
  then show "t \<in> set (cfg_tasks demo_config) \<Longrightarrow> ?thesis" by (simp add: list_all_iff)
qed

lemma demo_config_ok: "config_ok demo_config"
  unfolding config_ok_def
proof (intro conjI ballI)
  show "allocation_ok (cfg_allocation demo_config)"
    using sample_allocation_ok by (simp add: demo_config_def)
  show "distinct (map node_id (cfg_tasks demo_config))"
    by (simp add: demo_config_def demo_node_def)
  fix t assume t: "t \<in> set (cfg_tasks demo_config)"
  then have "node_resources t = OMap []" by (auto simp: demo_config_def demo_node_def)
  moreover have "required_hosts demo_config t = []" "local_host demo_config t = None"
    by (simp_all add: required_hosts_def local_host_def demo_config_def)
  ultimately show "task_ok demo_config t"
    by (simp add: task_ok_def max_attempts_def remaining_allocation_allows_def resource_value_def
        demo_requests [OF t] valid_call_def) blast
qed

lemma demo_start_ok: "start_ok demo_config demo_start"
  unfolding start_ok_def
  by (simp add: demo_start_def demo_config_def demo_node_def task_ids_def
      new_coordinator_inv [OF sample_allocation_ok] new_coordinator_def)
   (use new_coordinator_inv [OF sample_allocation_ok] in \<open>simp add: new_coordinator_def\<close>)

fun run_events :: "runtime_config \<Rightarrow> event list \<Rightarrow> sched \<Rightarrow> sched option" where
  "run_events cfg [] s = Some s"
| "run_events cfg (ev # evs) s = Option.bind (sched_event cfg ev s) (run_events cfg evs)"

lemma run_events_reachable:
  "run_events cfg evs s = Some s' \<Longrightarrow> sched_reachable cfg s s'"
proof (induction evs arbitrary: s)
  case (Cons ev evs)
  then obtain s1 where s1: "sched_event cfg ev s = Some s1" "run_events cfg evs s1 = Some s'"
    by (auto simp: bind_eq_Some_conv)
  from reachable_trans [OF sched_reachable.step [OF sched_reachable.start sched_step.event [OF s1(1)]] Cons.IH [OF s1(2)]]
  show ?case .
qed (simp add: sched_reachable.start)

abbreviation tick :: event where
  "tick \<equiv> Main None [] True"

text \<open>The main thread up to its first launch, and the launch of the first task.\<close>

definition before_launch :: "event list" where
  "before_launch = replicate 7 tick"

definition view :: "sched \<Rightarrow> (string \<times> string) list \<times> string list \<times> bool" where
  "view s = (map (\<lambda>p. (fst p, tr_status (snd p))) (records s), map fst (active s), running s)"

lemma demo_first_launch:
  "map_option view (run_events demo_config before_launch demo_start) =
     Some ([(''a'', ''PENDING''), (''b'', ''PENDING'')], [], True)"
  "map_option view (run_events demo_config (before_launch @ [tick]) demo_start) =
     Some ([(''a'', ''PENDING''), (''b'', ''PENDING'')], [''a''], True)"
  by code_simp+

lemma demo_launch_states:
  obtains s s' where "sched_reachable demo_config demo_start s" "sched_step demo_config s s'"
    "active s = []" "map fst (active s') = [''a'']" "sched_reachable demo_config demo_start s'"
proof -
  obtain s where s: "run_events demo_config before_launch demo_start = Some s"
      "view s = ([(''a'', ''PENDING''), (''b'', ''PENDING'')], [], True)"
    using demo_first_launch(1) by (auto simp: map_option_eq_Some)
  obtain s' where s': "run_events demo_config (before_launch @ [tick]) demo_start = Some s'"
      "view s' = ([(''a'', ''PENDING''), (''b'', ''PENDING'')], [''a''], True)"
    using demo_first_launch(2) by (auto simp: map_option_eq_Some)
  have "run_events cfg (evs @ [ev]) s0 = Option.bind (run_events cfg evs s0) (sched_event cfg ev)"
    for cfg evs ev s0 by (induction evs arbitrary: s0) (simp_all add: bind_assoc cong: bind_option_cong)
  then have "sched_event demo_config tick s = Some s'" using s(1) s'(1) by simp
  then have "sched_step demo_config s s'" by (rule sched_step.event)
  with s s' show thesis using run_events_reachable by (intro that [of s s']) (auto simp: view_def)
qed

theorem scheduler_launches_safely_witness:
  "\<exists>s s'. sched_step demo_config s s' \<and> active s = [] \<and> map fst (active s') = [''a''] \<and>
     ''a'' \<notin> attempted s \<and> ''a'' \<in> attempted s' \<and> status_of s ''a'' \<in> launchable"
proof -
  obtain s s' where s: "sched_reachable demo_config demo_start s" "sched_step demo_config s s'"
    "active s = []" "map fst (active s') = [''a'']" by (rule demo_launch_states)
  have "''a'' \<in> fst ` set (active s') - fst ` set (active s)"
    using s(3,4) by (metis Diff_empty list.set(1) image_empty list.set_intros(1) set_map)
  then have "''a'' \<notin> attempted s \<and> ''a'' \<in> attempted s' \<and> status_of s ''a'' \<in> launchable"
    using scheduler_launches_safely [OF demo_config_ok demo_start_ok s(1,2)] by blast
  with s show ?thesis by (intro exI [of _ s] exI [of _ s']) simp
qed

theorem scheduler_within_capacity_witness:
  "\<exists>s. sched_reachable demo_config demo_start s \<and> map fst (active s) = [''a''] \<and>
     sum_list (map (lease_cpus \<circ> snd) (active s)) \<le> 8"
proof -
  obtain s' where s': "map fst (active s') = [''a'']" "sched_reachable demo_config demo_start s'"
    by (rule demo_launch_states)
  from scheduler_within_capacity [OF demo_config_ok demo_start_ok s'(2)]
  have "sum_list (map (lease_cpus \<circ> snd) (active s')) \<le> 8"
    by (simp add: demo_config_def sample_allocation_def)
  with s' show ?thesis by (intro exI [of _ s']) simp
qed

lemma demo_not_running: "u \<in> ids_of demo_config \<Longrightarrow> status_of demo_start u \<noteq> ''RUNNING''"
  by (auto simp: demo_config_def demo_node_def status_of_def record_of_def demo_start_def demo_record_def)

text \<open>Both tasks run and complete.\<close>

definition complete_run :: "event list" where
  "complete_run = replicate 8 tick @
     [Work ''a'' Reserve, tick, tick, Work ''a'' (Finish ''COMPLETED'' ''ok'' ''m1''),
      tick, tick, tick, tick, tick, tick, tick, tick, tick, Main None [''a''] True] @ replicate 11 tick @
     [Work ''b'' Reserve, Work ''b'' (Finish ''COMPLETED'' ''ok'' ''m2''), Main None [''b''] True] @
     replicate 11 tick"

lemma demo_complete_run:
  "case run_events demo_config complete_run demo_start of None \<Rightarrow> False
   | Some s \<Rightarrow> phase s = Ended ''COMPLETED'' \<and> stop_reason s = None"
  by code_simp

lemma demo_ended:
  obtains s where "sched_reachable demo_config demo_start s" "phase s = Ended ''COMPLETED''"
    "stop_reason s = None"
proof -
  obtain s where "run_events demo_config complete_run demo_start = Some s"
    "phase s = Ended ''COMPLETED''" "stop_reason s = None"
    using demo_complete_run by (auto split: option.splits)
  with run_events_reachable that show thesis by blast
qed


theorem scheduler_terminates_witness:
  "wf {(s', s). sched_reachable demo_config demo_start s \<and> sched_step demo_config s s' \<and>
     \<not> polling demo_config s s'}"
  by (rule scheduler_terminates [OF demo_config_ok demo_start_ok])

lemma demo_one_step: "sched_run demo_config demo_start 1 0 (demo_start\<lparr>phase := Blocking [demo_node ''b'' [''a'']]\<rparr>)"
proof -
  have "sched_event demo_config tick demo_start = Some (demo_start\<lparr>phase := Blocking [demo_node ''b'' [''a'']]\<rparr>)"
    by (simp add: sched_event_def main_step_def demo_start_def demo_config_def block_task_def
        failed_dependencies_def demo_node_def Let_def)
  then have "sched_step demo_config demo_start (demo_start\<lparr>phase := Blocking [demo_node ''b'' [''a'']]\<rparr>)"
    by (rule sched_step.event)
  moreover have "\<not> polling demo_config demo_start s'" for s' by (simp add: polling_def demo_start_def)
  ultimately show ?thesis using run_step [OF run_start] by simp
qed

theorem scheduler_run_bound_witness:
  "(1::nat) \<le> (4 * length (cfg_tasks demo_config) + 2 + 0) * (4 * length (cfg_tasks demo_config) + 8)"
  by (rule scheduler_run_bound [OF demo_config_ok demo_start_ok demo_one_step])


end
