(* ===== verification/Recovery.thy ===== *)
theory Recovery
  imports SchedulerLiveness
begin

text \<open>
  What a new invocation does with the records of the previous one:
  \<open>_recover_completed_nodes\<close> and \<open>_recover_dependency_blocked_nodes\<close> of
  \<open>src/qraft/execution/capability_runtime.py\<close>, and the proof that the loop then starts in a state
  the scheduler theorems assume. What the files say is a parameter: \<open>owner tid\<close> is the message of
  the exception \<open>ControllerRuntimeContext.previous\<close> raises, if any, and \<open>load s reused tid\<close> is the
  result of \<open>_load_valid_attempt\<close>, which reads the records and the attempts accepted so far.
\<close>

section \<open>One task\<close>

definition starts_with :: "string \<Rightarrow> string \<Rightarrow> bool" where
  "starts_with s p \<longleftrightarrow> take (length p) s = p"

definition owner_alive :: string where
  "owner_alive = ''CONTROLLER_PREVIOUS_OWNER_ALIVE''"

definition clear_manifest :: task_changes where
  "clear_manifest = no_changes\<lparr>ch_manifest := Some None\<rparr>"

text \<open>
  A controller whose previous owner may still be alive keeps its host: the reservation is restored
  in the new coordinator and the run stops launching.
\<close>

definition restore_reservation :: "runtime_config \<Rightarrow> task_node \<Rightarrow> sched \<Rightarrow> sched res" where
  "restore_reservation cfg t s =
     rbind (request_of cfg t) (\<lambda>r.
     rbind (try_acquire (pool s) r [cfg_host cfg] None) (\<lambda>(c, granted).
     case granted of
       None \<Rightarrow> Inl (ValueError ''unresolved controller reservation cannot be restored'')
     | Some l \<Rightarrow> Inr (request_shutdown ''CONTROLLER_CLOSURE_UNKNOWN''
                  (s\<lparr>pool := c, retained := insert (node_id t) (retained s)\<rparr>))))"

text \<open>The message of an exception, \<open>str(exc)\<close>, and the classes the recovery catches.\<close>

fun caught_load :: "exn \<Rightarrow> string option" where
  "caught_load (OSError m) = Some m"
| "caught_load (TypeError m) = Some m"
| "caught_load (ValueError m) = Some m"
| "caught_load _ = None"

text \<open>The part after the controller check; \<open>Some\<close> is an attempt to reuse.\<close>

definition recover_status ::
  "runtime_config \<Rightarrow> bool \<Rightarrow> (string \<Rightarrow> attempt res) \<Rightarrow> task_node \<Rightarrow> sched \<Rightarrow> (sched \<times> attempt option) res" where
  "recover_status cfg force load t s =
     (let tid = node_id t; status = status_of s tid in
      if status = ''FAILED'' then
        rbind (max_attempts (node_resources t)) (\<lambda>m.
          if tr_attempts (record_of s tid) < m
          then Inr (set_task tid ''PENDING'' ''retrying failed task on new runtime invocation'' no_changes s, None)
          else Inr (s, None))
      else if status \<noteq> ''COMPLETED'' then
        Inr (if status = ''RUNNING'' then set_task tid ''INTERRUPTED'' ''crashed RUNNING attempt'' no_changes s
             else s, None)
      else if force then
        Inr (set_task tid ''PENDING'' ''force new attempt requested'' clear_manifest s, None)
      else (case load tid of
              Inr a \<Rightarrow> Inr (s, Some a)
            | Inl e \<Rightarrow>
                (case caught_load e of
                   None \<Rightarrow> Inl e
                 | Some m \<Rightarrow>
                     if map_of (cfg_reservations cfg) tid \<noteq> None
                     then Inr (set_task tid ''BLOCKED'' (''CONTROLLER_STATE_TAMPERED: '' @ m) no_changes s, None)
                     else Inr (set_task tid ''PENDING'' (''persisted completion rejected: '' @ m)
                                 clear_manifest s, None))))"

definition recover_task ::
  "runtime_config \<Rightarrow> bool \<Rightarrow> (string \<Rightarrow> string option) \<Rightarrow> (string \<Rightarrow> attempt res) \<Rightarrow> task_node \<Rightarrow> sched \<Rightarrow>
   (sched \<times> attempt option) res" where
  "recover_task cfg force owner load t s =
     (let tid = node_id t; r = record_of s tid in
      if map_of (cfg_reservations cfg) tid \<noteq> None \<and> tr_attempts r \<noteq> 0 then
        (case owner tid of
           Some m \<Rightarrow>
             (let s1 = set_task tid ''BLOCKED'' m no_changes s in
              if starts_with m owner_alive
              then rbind (restore_reservation cfg t s1) (\<lambda>s2. Inr (s2, None))
              else Inr (s1, None))
         | None \<Rightarrow>
             recover_status cfg force load t
               (if tr_status r = ''BLOCKED'' \<and> starts_with (tr_reason r) owner_alive
                then set_task tid ''INTERRUPTED'' ''previous controller owner has positive closure proof''
                       no_changes s
                else s))
      else recover_status cfg force load t s)"

type_synonym loader = "sched \<Rightarrow> attempt dict \<Rightarrow> string \<Rightarrow> attempt res"

fun recover_tasks ::
  "runtime_config \<Rightarrow> bool \<Rightarrow> (string \<Rightarrow> string option) \<Rightarrow> loader \<Rightarrow> attempt dict \<Rightarrow> task_node list \<Rightarrow> sched \<Rightarrow>
   (sched \<times> attempt dict) res" where
  "recover_tasks cfg force owner load reused [] s = Inr (s, reused)"
| "recover_tasks cfg force owner load reused (t # ts) s =
     rbind (recover_task cfg force owner (load s reused) t s) (\<lambda>(s1, accepted).
       recover_tasks cfg force owner load
         (case accepted of None \<Rightarrow> reused | Some a \<Rightarrow> AList.update (node_id t) a reused) ts s1)"

section \<open>Blocks of the previous invocation\<close>

definition blocked_candidates :: "task_node list \<Rightarrow> (string \<Rightarrow> string) \<Rightarrow> string list" where
  "blocked_candidates ts persisted =
     map node_id (filter (\<lambda>t. persisted (node_id t) = ''BLOCKED'' \<and>
       list_ex (\<lambda>d. persisted d \<in> terminal_failures) (node_dependencies t)) ts)"

text \<open>One pass of the \<open>while\<close> loop over the tasks; the candidates are a set in the code.\<close>

definition reopen_task :: "task_node \<Rightarrow> string list \<times> sched \<Rightarrow> string list \<times> sched" where
  "reopen_task t p =
     (case p of (candidates, s) \<Rightarrow>
        if node_id t \<notin> set candidates then (candidates, s)
        else if failed_dependencies s t \<noteq> [] then (candidates, s)
        else (removeAll (node_id t) candidates,
              set_task (node_id t) ''PENDING'' ''dependency blockers recoverable on new runtime invocation''
                no_changes s))"

definition reopen_pass :: "task_node list \<Rightarrow> string list \<times> sched \<Rightarrow> string list \<times> sched" where
  "reopen_pass ts p = fold reopen_task ts p"

lemma reopen_task_length: "length (fst (reopen_task t p)) \<le> length (fst p)"
  by (cases p) (simp add: reopen_task_def)

lemma reopen_pass_length: "length (fst (reopen_pass ts p)) \<le> length (fst p)"
  unfolding reopen_pass_def
proof (induction ts arbitrary: p)
  case (Cons t ts)
  from Cons.IH [of "reopen_task t p"] reopen_task_length [of t p] show ?case by simp
qed simp

text \<open>The loop ends when a pass reopened nothing; every other pass leaves fewer candidates.\<close>

function reopen_loop :: "task_node list \<Rightarrow> string list \<Rightarrow> sched \<Rightarrow> sched" where
  "reopen_loop ts candidates s =
     (if candidates = [] then s
      else (case reopen_pass ts (candidates, s) of
              (candidates', s') \<Rightarrow>
                if length candidates' < length candidates then reopen_loop ts candidates' s' else s'))"
  by pat_completeness auto
termination
  by (relation "measure (\<lambda>(ts, candidates, s). length candidates)") (auto split: prod.splits)

declare reopen_loop.simps [simp del]

definition recover_blocked :: "task_node list \<Rightarrow> (string \<Rightarrow> string) \<Rightarrow> sched \<Rightarrow> sched" where
  "recover_blocked ts persisted s = reopen_loop ts (blocked_candidates ts persisted) s"

definition recover_completed ::
  "runtime_config \<Rightarrow> bool \<Rightarrow> (string \<Rightarrow> string option) \<Rightarrow> loader \<Rightarrow> sched \<Rightarrow>
   (sched \<times> attempt dict) res" where
  "recover_completed cfg force owner load s =
     (let persisted = status_of s in
      rbind (recover_tasks cfg force owner load [] (cfg_tasks cfg) s) (\<lambda>(s1, reused).
        Inr (recover_blocked (cfg_tasks cfg) persisted s1, reused)))"

section \<open>Reopening reaches a fixpoint\<close>

lemma reopen_task_same:
  assumes "length (fst (reopen_task t p)) = length (fst p)"
  shows "reopen_task t p = p \<and> (node_id t \<in> set (fst p) \<longrightarrow> failed_dependencies (snd p) t \<noteq> [])"
proof -
  obtain c s where p: "p = (c, s)" by (cases p)
  have "node_id t \<in> set c \<Longrightarrow> length (removeAll (node_id t) c) < length c"
    by (rule length_removeAll_less)
  with assms show ?thesis unfolding p by (auto simp: reopen_task_def split: if_splits)
qed

lemma reopen_pass_same:
  assumes "length (fst (reopen_pass ts p)) = length (fst p)"
  shows "reopen_pass ts p = p \<and>
    (\<forall>t \<in> set ts. node_id t \<in> set (fst p) \<longrightarrow> failed_dependencies (snd p) t \<noteq> [])"
  using assms
proof (induction ts arbitrary: p)
  case (Cons t ts)
  have le: "length (fst (reopen_pass ts (reopen_task t p))) \<le> length (fst (reopen_task t p))"
    by (rule reopen_pass_length)
  moreover have pass: "reopen_pass (t # ts) p = reopen_pass ts (reopen_task t p)"
    by (simp add: reopen_pass_def)
  ultimately have "length (fst (reopen_task t p)) = length (fst p)"
    using Cons.prems reopen_task_length [of t p] by simp
  note t = reopen_task_same [OF this]
  with Cons.IH [of p] Cons.prems pass show ?case by auto
qed (simp add: reopen_pass_def)

lemma reopen_task_frame:
  "pool (snd (reopen_task t p)) = pool (snd p)" "active (snd (reopen_task t p)) = active (snd p)"
  "workers (snd (reopen_task t p)) = workers (snd p)" "attempted (snd (reopen_task t p)) = attempted (snd p)"
  "stop_reason (snd (reopen_task t p)) = stop_reason (snd p)" "phase (snd (reopen_task t p)) = phase (snd p)"
  "retained (snd (reopen_task t p)) = retained (snd p)" "task_ids (snd (reopen_task t p)) = task_ids (snd p)"
  by (cases p; simp add: reopen_task_def)+

text \<open>
  What a pass and the loop keep: \<open>P\<close> relates the state to the one before, candidates only leave,
  and a candidate that left is PENDING.
\<close>

definition reopened_from :: "string list \<Rightarrow> sched \<Rightarrow> string list \<times> sched \<Rightarrow> bool" where
  "reopened_from cs s p \<longleftrightarrow>
     set (fst p) \<subseteq> set cs \<and> task_ids (snd p) = task_ids s \<and>
     (\<forall>u. u \<notin> set cs \<or> u \<in> set (fst p) \<longrightarrow> status_of (snd p) u = status_of s u) \<and>
     (\<forall>u \<in> set cs - set (fst p). status_of (snd p) u = ''PENDING'') \<and>
     (\<forall>u. u \<notin> set cs \<or> u \<in> set (fst p) \<longrightarrow> record_of (snd p) u = record_of s u) \<and>
     (\<forall>u. tr_last_attempt (record_of (snd p) u) = tr_last_attempt (record_of s u)) \<and>
     pool (snd p) = pool s \<and> active (snd p) = active s \<and> workers (snd p) = workers s \<and>
     attempted (snd p) = attempted s \<and> stop_reason (snd p) = stop_reason s \<and>
     phase (snd p) = phase s \<and> retained (snd p) = retained s"

lemma reopened_task:
  assumes "reopened_from cs s p" "node_id t \<in> task_ids s"
  shows "reopened_from cs s (reopen_task t p)"
proof -
  obtain c s1 where p: "p = (c, s1)" by (cases p)
  show ?thesis
    using assms unfolding p reopened_from_def
    by (auto simp: reopen_task_def record_of_set_task change_record_def no_changes_def)
qed

lemma reopened_pass:
  assumes "reopened_from cs s p" "\<forall>t \<in> set ts. node_id t \<in> task_ids s"
  shows "reopened_from cs s (reopen_pass ts p)"
  using assms unfolding reopen_pass_def
proof (induction ts arbitrary: p)
  case (Cons t ts)
  then show ?case using reopened_task [of cs s p t] by simp
qed simp

lemma reopened_loop:
  assumes "reopened_from cs s (c, s1)" "\<forall>t \<in> set ts. node_id t \<in> task_ids s"
  obtains c' where "reopened_from cs s (c', reopen_loop ts c s1)"
    "\<forall>t \<in> set ts. node_id t \<in> set c' \<longrightarrow> failed_dependencies (reopen_loop ts c s1) t \<noteq> []"
proof -
  have "\<exists>c'. reopened_from cs s (c', reopen_loop ts c s1) \<and>
    (\<forall>t \<in> set ts. node_id t \<in> set c' \<longrightarrow> failed_dependencies (reopen_loop ts c s1) t \<noteq> [])"
    using assms
  proof (induction ts c s1 rule: reopen_loop.induct)
    case (1 ts c s1)
    show ?case
    proof (cases "c = []")
      case True
      with "1.prems" show ?thesis by (intro exI [of _ "[]"]) (simp add: reopen_loop.simps [of ts "[]" s1])
    next
      case False
      obtain c2 s2 where pass: "reopen_pass ts (c, s1) = (c2, s2)" by (cases "reopen_pass ts (c, s1)")
      have p: "reopened_from cs s (c2, s2)" using reopened_pass [OF "1.prems"] pass by simp
      show ?thesis
      proof (cases "length c2 < length c")
        case True
        then have "reopen_loop ts c s1 = reopen_loop ts c2 s2"
          using False pass by (simp add: reopen_loop.simps [of ts c s1])
        with "1.IH" [OF False pass [symmetric] True p "1.prems"(2)] show ?thesis by simp
      next
        case stuck: False
        then have "length (fst (reopen_pass ts (c, s1))) = length (fst (c, s1))"
          using reopen_pass_length [of ts "(c, s1)"] pass by simp
        from reopen_pass_same [OF this] pass
        have same: "c2 = c" "s2 = s1" "\<forall>t \<in> set ts. node_id t \<in> set c \<longrightarrow> failed_dependencies s1 t \<noteq> []"
          by simp_all
        have "reopen_loop ts c s1 = s1" using False pass stuck same by (simp add: reopen_loop.simps [of ts c s1])
        with same "1.prems"(1) show ?thesis by (intro exI [of _ c]) simp
      qed
    qed
  qed
  with that show thesis by blast
qed

lemma recover_blocked_fixpoint:
  assumes "\<forall>t \<in> set ts. node_id t \<in> task_ids s"
  obtains c' where "reopened_from (blocked_candidates ts persisted) s (c', recover_blocked ts persisted s)"
    "\<forall>t \<in> set ts. node_id t \<in> set c' \<longrightarrow> failed_dependencies (recover_blocked ts persisted s) t \<noteq> []"
proof -
  have "reopened_from (blocked_candidates ts persisted) s (blocked_candidates ts persisted, s)"
    by (simp add: reopened_from_def)
  from reopened_loop [OF this assms(1)] that show thesis
    unfolding recover_blocked_def by metis
qed


section \<open>Recovery starts the loop in a good state\<close>

text \<open>A state just loaded: the records of the workflow and everything else new.\<close>

definition loaded_state :: "runtime_config \<Rightarrow> sched \<Rightarrow> bool" where
  "loaded_state cfg s \<longleftrightarrow>
     task_ids s = ids_of cfg \<and> active s = [] \<and> workers s = [] \<and> attempted s = {} \<and>
     pool s = new_coordinator (cfg_allocation cfg) \<and> retained s = {} \<and>
     phase s = Blocking (cfg_tasks cfg)"

lemma restore_reservationE:
  assumes "restore_reservation cfg t s = Inr s'" "start_ok cfg s"
  shows "start_ok cfg s'" "record_of s' = record_of s"
proof -
  from assms(1) obtain r c l where r: "request_of cfg t = Inr r"
    and acq: "try_acquire (pool s) r [cfg_host cfg] None = Inr (c, Some l)"
    and s': "s' = request_shutdown ''CONTROLLER_CLOSURE_UNKNOWN''
                  (s\<lparr>pool := c, retained := insert (node_id t) (retained s)\<rparr>)"
    by (auto simp: restore_reservation_def rbind_Inr_iff split: option.splits)
  have p: "coordinator_inv (pool s)" "alloc (pool s) = cfg_allocation cfg"
    using assms(2) by (simp_all add: start_ok_def)
  have ok: "request_ok r" "req_task_id r = node_id t"
    using r task_request_ok task_request_id unfolding request_of_def by blast+
  have c: "coordinator_inv c" "alloc c = cfg_allocation cfg"
    using rc.acquire_inv [of "pool s" "cfg_allocation cfg" "(r, [cfg_host cfg], None)" c "Some l"]
      p ok acq by (simp_all add: acquire_call_def)
  have "leases c = leases (pool s) @ [(node_id t, l)]"
    using try_acquire_grantE [OF p(1) ok(1) acq] ok(2) by metis
  with assms(2) c show "start_ok cfg s'" by (simp add: s' start_ok_def)
  show "record_of s' = record_of s" by (simp add: s' fun_eq_iff record_of_def)
qed

lemma start_ok_set_task: "start_ok cfg s \<Longrightarrow> start_ok cfg (set_task tid st rs ch s)"
  by (simp add: start_ok_def)

lemma recover_status_shape:
  assumes "recover_status cfg force load t s = Inr (s', reused)"
  obtains (kept) "s' = s" "status_of s (node_id t) \<noteq> ''RUNNING''"
      "status_of s (node_id t) = ''COMPLETED'' \<Longrightarrow> \<exists>a. reused = Some a \<and> load (node_id t) = Inr a \<and> \<not> force"
  | (written) st rs ch where "s' = set_task (node_id t) st rs ch s" "st \<in> {''PENDING'', ''INTERRUPTED'', ''BLOCKED''}"
      "ch \<in> {no_changes, clear_manifest}"
proof -
  consider "status_of s (node_id t) = ''FAILED''" | "status_of s (node_id t) = ''RUNNING''"
    | "status_of s (node_id t) = ''COMPLETED''"
    | "status_of s (node_id t) \<notin> {''FAILED'', ''RUNNING'', ''COMPLETED''}" by blast
  then show thesis
  proof cases
    case 1
    with assms kept written show thesis
      by (auto simp: recover_status_def Let_def rbind_Inr_iff split: if_split_asm)
  next
    case 2
    with assms written show thesis by (auto simp: recover_status_def Let_def)
  next
    case 3
    show thesis
    proof (cases force)
      case True
      with 3 assms written show thesis by (auto simp: recover_status_def Let_def)
    next
      case False
      show thesis
      proof (cases "load (node_id t)")
        case (Inr a)
        with 3 False assms show thesis by (intro kept) (auto simp: recover_status_def Let_def)
      next
        case (Inl e)
        with 3 False assms obtain m where "caught_load e = Some m"
          by (auto simp: recover_status_def Let_def split: option.splits)
        with 3 False assms Inl show thesis
          using written by (auto simp: recover_status_def Let_def split: if_split_asm)
      qed
    qed
  next
    case 4
    with assms show thesis by (intro kept) (auto simp: recover_status_def Let_def)
  qed
qed

text \<open>
  What recovering one task does to the state: other records are kept, no last attempt changes, and
  a task that stays COMPLETED has its record as it was and an attempt the loader accepted.
\<close>

definition kept_completed :: "(string \<Rightarrow> attempt res) \<Rightarrow> bool \<Rightarrow> string \<Rightarrow> sched \<Rightarrow> sched \<Rightarrow> attempt option \<Rightarrow> bool" where
  "kept_completed load force tid s s' accepted \<longleftrightarrow>
     (status_of s' tid = ''COMPLETED'' \<longrightarrow>
        record_of s' tid = record_of s tid \<and> (\<exists>a. accepted = Some a \<and> load tid = Inr a \<and> \<not> force))"

definition recovered_task :: "string \<Rightarrow> sched \<Rightarrow> sched \<Rightarrow> bool" where
  "recovered_task tid s s' \<longleftrightarrow>
     (\<forall>u. u \<noteq> tid \<longrightarrow> record_of s' u = record_of s u) \<and>
     tr_last_attempt (record_of s' tid) = tr_last_attempt (record_of s tid) \<and>
     status_of s' tid \<noteq> ''RUNNING''"

lemma recovered_task_write:
  assumes "tid \<in> task_ids s" "st \<in> {''PENDING'', ''INTERRUPTED'', ''BLOCKED''}" "ch \<in> {no_changes, clear_manifest}"
  shows "recovered_task tid s (set_task tid st rs ch s)" "status_of (set_task tid st rs ch s) tid \<noteq> ''COMPLETED''"
  using assms
  by (auto simp: recovered_task_def record_of_set_task change_record_def no_changes_def clear_manifest_def status_of_def)

lemma recover_status_effect:
  assumes "recover_status cfg force load t s1 = Inr (s', accepted)" "start_ok cfg s" "node_id t \<in> task_ids s"
    and "s1 = s \<or> (\<exists>rs. s1 = set_task (node_id t) ''INTERRUPTED'' rs no_changes s)"
  shows "start_ok cfg s' \<and> recovered_task (node_id t) s s' \<and> kept_completed load force (node_id t) s s' accepted"
proof -
  let ?t = "node_id t"
  have ok: "start_ok cfg s1" "?t \<in> task_ids s1" using assms(2-4) by (auto simp: start_ok_set_task)
  have one: "\<And>u. u \<noteq> ?t \<Longrightarrow> record_of s1 u = record_of s u"
    "tr_last_attempt (record_of s1 ?t) = tr_last_attempt (record_of s ?t)"
    "s1 \<noteq> s \<Longrightarrow> status_of s1 ?t \<noteq> ''COMPLETED''"
    using assms(3,4)
    by (auto simp: record_of_set_task change_record_def no_changes_def status_of_def)
  show ?thesis
    using assms(1)
  proof (cases rule: recover_status_shape)
    case kept
    with ok one show ?thesis by (auto simp: recovered_task_def kept_completed_def)
  next
    case (written st rs ch)
    note w = recovered_task_write [OF ok(2) written(2,3), of rs]
    have "recovered_task ?t s s'" using w(1) one(1,2) by (simp add: recovered_task_def written(1))
    with ok w(2) show ?thesis by (simp add: start_ok_set_task kept_completed_def written(1))
  qed
qed

lemma recover_task_effect:
  assumes "recover_task cfg force owner load t s = Inr (s', accepted)" "start_ok cfg s" "node_id t \<in> task_ids s"
  shows "start_ok cfg s' \<and> recovered_task (node_id t) s s' \<and> kept_completed load force (node_id t) s s' accepted"
proof -
  let ?t = "node_id t"
  show ?thesis
  proof (cases "map_of (cfg_reservations cfg) ?t \<noteq> None \<and> tr_attempts (record_of s ?t) \<noteq> 0")
    case False
    then have "recover_status cfg force load t s = Inr (s', accepted)"
      using assms(1) by (auto simp: recover_task_def Let_def)
    from recover_status_effect [OF this assms(2,3)] show ?thesis by simp
  next
    case True
    show ?thesis
    proof (cases "owner ?t")
      case None
      define s1 where "s1 = (if tr_status (record_of s ?t) = ''BLOCKED'' \<and>
          starts_with (tr_reason (record_of s ?t)) owner_alive
        then set_task ?t ''INTERRUPTED'' ''previous controller owner has positive closure proof'' no_changes s
        else s)"
      have "recover_status cfg force load t s1 = Inr (s', accepted)"
        using assms(1) True None by (simp add: recover_task_def Let_def s1_def)
      moreover have "s1 = s \<or> (\<exists>rs. s1 = set_task ?t ''INTERRUPTED'' rs no_changes s)"
        unfolding s1_def by (simp split: if_split) blast
      ultimately show ?thesis using recover_status_effect assms(2,3) by blast
    next
      case (Some m)
      define s1 where "s1 = set_task ?t ''BLOCKED'' m no_changes s"
      have w: "recovered_task ?t s s1" "status_of s1 ?t \<noteq> ''COMPLETED''"
        unfolding s1_def using recovered_task_write [OF assms(3), of "''BLOCKED''" no_changes m] by simp_all
      have ok: "start_ok cfg s1" unfolding s1_def using assms(2) by (simp add: start_ok_set_task)
      have "(if starts_with m owner_alive then rbind (restore_reservation cfg t s1) (\<lambda>s2. Inr (s2, None))
          else Inr (s1, None)) = Inr (s', accepted)"
        using assms(1) True Some unfolding recover_task_def Let_def s1_def by simp
      then consider "restore_reservation cfg t s1 = Inr s'" | "s' = s1"
        by (auto simp: rbind_Inr_iff split: if_split_asm)
      then have "start_ok cfg s' \<and> record_of s' = record_of s1"
        using restore_reservationE [OF _ ok] ok by cases auto
      with w show ?thesis by (simp add: recovered_task_def kept_completed_def status_of_def)
    qed
  qed
qed

text \<open>
  What the loader was asked for when a task was accepted: the record the task still has, the last
  attempts of all tasks, and attempts that are all among the reused ones.
\<close>

definition verified :: "loader \<Rightarrow> sched \<Rightarrow> attempt dict \<Rightarrow> string \<Rightarrow> attempt \<Rightarrow> bool" where
  "verified load s reused u a \<longleftrightarrow>
     (\<exists>s1 prior. load s1 prior u = Inr a \<and> map_of prior \<subseteq>\<^sub>m map_of reused \<and>
        record_of s1 u = record_of s u \<and>
        (\<forall>v. tr_last_attempt (record_of s1 v) = tr_last_attempt (record_of s v)))"

lemma verified_before:
  assumes "verified load s1 reused u a" "recovered_task v s s1" "u \<noteq> v"
  shows "verified load s reused u a"
proof -
  have "record_of s1 u = record_of s u" "\<And>w. tr_last_attempt (record_of s1 w) = tr_last_attempt (record_of s w)"
    using assms(2,3) unfolding recovered_task_def by metis+
  with assms(1) show ?thesis by (simp add: verified_def)
qed

definition recovered_tasks ::
  "loader \<Rightarrow> bool \<Rightarrow> string set \<Rightarrow> sched \<Rightarrow> attempt dict \<Rightarrow> sched \<Rightarrow> attempt dict \<Rightarrow> bool" where
  "recovered_tasks load force ids s reused s' reused' \<longleftrightarrow>
     map_of reused \<subseteq>\<^sub>m map_of reused' \<and>
     (\<forall>u. u \<notin> ids \<longrightarrow> record_of s' u = record_of s u) \<and>
     (\<forall>u. tr_last_attempt (record_of s' u) = tr_last_attempt (record_of s u)) \<and>
     (\<forall>u \<in> ids. status_of s' u \<noteq> ''RUNNING'' \<and>
        (status_of s' u = ''COMPLETED'' \<longrightarrow> record_of s' u = record_of s u \<and>
           (\<exists>a. map_of reused' u = Some a \<and> verified load s reused' u a \<and> \<not> force)))"

lemma recover_tasks_effect:
  assumes "recover_tasks cfg force owner load reused ts s = Inr (s', reused')" "start_ok cfg s"
    and "\<forall>t \<in> set ts. node_id t \<in> ids_of cfg" "distinct (map node_id ts)"
    and "\<forall>t \<in> set ts. map_of reused (node_id t) = None"
  shows "start_ok cfg s' \<and> recovered_tasks load force (node_id ` set ts) s reused s' reused'"
  using assms
proof (induction ts arbitrary: s reused)
  case Nil
  then show ?case by (simp add: recovered_tasks_def)
next
  case (Cons t ts)
  let ?t = "node_id t"
  from Cons.prems(1) obtain s1 x where
      r: "recover_task cfg force owner (load s reused) t s = Inr (s1, x)"
        "recover_tasks cfg force owner load
          (case x of None \<Rightarrow> reused | Some a \<Rightarrow> AList.update ?t a reused) ts s1 = Inr (s', reused')"
    by (auto simp: rbind_Inr_iff)
  let ?r1 = "case x of None \<Rightarrow> reused | Some a \<Rightarrow> AList.update ?t a reused"
  have t: "?t \<in> task_ids s" "?t \<notin> node_id ` set ts" "map_of reused ?t = None"
    using Cons.prems(2-5) by (simp_all add: start_ok_def)
  note e = recover_task_effect [OF r(1) Cons.prems(2) t(1)]
  have rest: "start_ok cfg s' \<and> recovered_tasks load force (node_id ` set ts) s1 ?r1 s' reused'"
  proof (rule Cons.IH [OF r(2)])
    show "\<forall>u \<in> set ts. map_of ?r1 (node_id u) = None"
    proof
      fix u assume u: "u \<in> set ts"
      then have "node_id u \<noteq> ?t" using t(2) by (metis imageI)
      with u Cons.prems(5) show "map_of ?r1 (node_id u) = None" by (cases x) auto
    qed
  qed (use e Cons.prems(3,4) in auto)
  then have sub: "map_of ?r1 \<subseteq>\<^sub>m map_of reused'" by (simp add: recovered_tasks_def)
  have sub0: "map_of reused \<subseteq>\<^sub>m map_of reused'"
  proof -
    have "map_of reused \<subseteq>\<^sub>m map_of ?r1" using t(3) by (auto simp: map_le_def split: option.split)
    then show ?thesis using sub by (rule map_le_trans)
  qed
  have same: "record_of s' ?t = record_of s1 ?t" using rest t(2) by (simp add: recovered_tasks_def)
  have last: "tr_last_attempt (record_of s' u) = tr_last_attempt (record_of s u)" for u
    using rest e by (cases "u = ?t") (simp_all add: recovered_tasks_def recovered_task_def)
  have out: "record_of s' u = record_of s u" if "u \<notin> node_id ` set (t # ts)" for u
    using rest e that by (simp add: recovered_tasks_def recovered_task_def)
  have head: "status_of s' ?t \<noteq> ''RUNNING'' \<and>
      (status_of s' ?t = ''COMPLETED'' \<longrightarrow> record_of s' ?t = record_of s ?t \<and>
         (\<exists>a. map_of reused' ?t = Some a \<and> verified load s reused' ?t a \<and> \<not> force))"
  proof (intro conjI impI)
    show "status_of s' ?t \<noteq> ''RUNNING''" using e same by (simp add: recovered_task_def status_of_def)
    assume "status_of s' ?t = ''COMPLETED''"
    with e same obtain a where a: "record_of s' ?t = record_of s ?t" "x = Some a" "load s reused ?t = Inr a" "\<not> force"
      by (auto simp: kept_completed_def status_of_def)
    have "map_of ?r1 ?t = Some a" using a(2) by simp
    with sub have "map_of reused' ?t = Some a" by (metis domI map_le_def)
    moreover have "verified load s reused' ?t a" using a(3) sub0 unfolding verified_def by blast
    ultimately show "record_of s' ?t = record_of s ?t"
      "\<exists>a. map_of reused' ?t = Some a \<and> verified load s reused' ?t a \<and> \<not> force" using a by blast+
  qed
  have tail: "status_of s' u \<noteq> ''RUNNING'' \<and>
      (status_of s' u = ''COMPLETED'' \<longrightarrow> record_of s' u = record_of s u \<and>
         (\<exists>a. map_of reused' u = Some a \<and> verified load s reused' u a \<and> \<not> force))"
    if u: "u \<in> node_id ` set ts" for u
  proof -
    have ne: "u \<noteq> ?t" using u t(2) by blast
    then have "record_of s1 u = record_of s u" using e by (simp add: recovered_task_def)
    moreover have "verified load s1 reused' u a \<Longrightarrow> verified load s reused' u a" for a
      using verified_before e ne by blast
    ultimately show ?thesis using rest u unfolding recovered_tasks_def by metis
  qed
  show ?case using rest sub0 last out head tail unfolding recovered_tasks_def by simp
qed

lemma recover_completed_effect:
  assumes "config_ok cfg" "loaded_state cfg s" "recover_completed cfg force owner load s = Inr (s', reused)"
  shows "start_ok cfg s'" "u \<in> ids_of cfg \<Longrightarrow> status_of s' u \<noteq> ''RUNNING''"
    "u \<in> ids_of cfg \<Longrightarrow> status_of s' u = ''COMPLETED'' \<Longrightarrow> status_of s u = ''COMPLETED'' \<and>
       (\<exists>a. map_of reused u = Some a \<and> verified load s' reused u a \<and> \<not> force)"
proof -
  have start: "start_ok cfg s"
    using assms(1,2) new_coordinator_inv [of "cfg_allocation cfg"]
    by (simp add: loaded_state_def start_ok_def config_ok_def) (simp add: new_coordinator_def)
  have d: "distinct (map node_id (cfg_tasks cfg))" using assms(1) by (simp add: config_ok_def)
  from assms(3) obtain s1 where s1: "recover_tasks cfg force owner load [] (cfg_tasks cfg) s = Inr (s1, reused)"
    and s': "s' = recover_blocked (cfg_tasks cfg) (status_of s) s1"
    by (auto simp: recover_completed_def rbind_Inr_iff)
  have e: "start_ok cfg s1" "recovered_tasks load force (ids_of cfg) s [] s1 reused"
    using recover_tasks_effect [OF s1 start _ d] by auto
  have ids: "\<forall>t \<in> set (cfg_tasks cfg). node_id t \<in> task_ids s1" using e(1) by (simp add: start_ok_def)
  obtain c' where r: "reopened_from (blocked_candidates (cfg_tasks cfg) (status_of s)) s1 (c', s')"
    unfolding s' by (rule recover_blocked_fixpoint [OF ids])
  show "start_ok cfg s'" using r e(1) by (simp add: reopened_from_def start_ok_def)
  have re: "record_of s' v = record_of s1 v \<or> status_of s' v = ''PENDING''"
    "tr_last_attempt (record_of s' v) = tr_last_attempt (record_of s1 v)" for v
    using r by (auto simp: reopened_from_def)
  assume u: "u \<in> ids_of cfg"
  show "status_of s' u \<noteq> ''RUNNING''"
    using e(2) u re(1) [of u] by (auto simp: recovered_tasks_def status_of_def)
  assume c: "status_of s' u = ''COMPLETED''"
  then have rec: "record_of s' u = record_of s1 u" using re(1) [of u] by auto
  with c have "status_of s1 u = ''COMPLETED''" by (simp add: status_of_def)
  then obtain a where a: "record_of s1 u = record_of s u" "map_of reused u = Some a" "verified load s reused u a" "\<not> force"
    using e(2) u unfolding recovered_tasks_def by blast
  have "verified load s' reused u a"
    using a(1,3) rec re(2) e(2) by (simp add: verified_def recovered_tasks_def)
  then show "status_of s u = ''COMPLETED'' \<and>
       (\<exists>a. map_of reused u = Some a \<and> verified load s' reused u a \<and> \<not> force)"
    using a c rec by (auto simp: status_of_def)
qed

text \<open>
  Property C10. Recovery hands the loop a state it can start from. From any loaded state, if the
  recovery does not raise, the loop starts with the records of the workflow, a sound coordinator
  that holds exactly the restored controller reservations (and then a shutdown is requested), no
  record left RUNNING - and a record is COMPLETED only if it was so before, this invocation itself
  had \<open>_load_valid_attempt\<close> accept its attempt against records and attempts that are those of the
  state handed over, and new attempts were not forced.
\<close>

theorem recovery_establishes_start:
  assumes "config_ok cfg" "loaded_state cfg s" "recover_completed cfg force owner load s = Inr (s', reused)"
  shows "start_ok cfg s' \<and> (\<forall>u \<in> ids_of cfg. status_of s' u \<noteq> ''RUNNING'') \<and>
    (\<forall>u \<in> ids_of cfg. status_of s' u = ''COMPLETED'' \<longrightarrow>
       status_of s u = ''COMPLETED'' \<and>
       (\<exists>a. map_of reused u = Some a \<and> verified load s' reused u a \<and> \<not> force))"
  using recover_completed_effect [OF assms] by blast

section \<open>Examples\<close>

definition demo_retry :: sched where
  "demo_retry = demo_start\<lparr>records :=
     [(''a'', demo_record), (''b'', demo_record\<lparr>tr_status := ''BLOCKED''\<rparr>)]\<rparr>"

definition demo_persisted :: "string \<Rightarrow> string" where
  "demo_persisted u = (if u = ''a'' then ''FAILED'' else ''BLOCKED'')"


definition demo_crashed :: sched where
  "demo_crashed = demo_start\<lparr>records :=
     [(''a'', demo_record\<lparr>tr_status := ''RUNNING'', tr_attempts := 1\<rparr>), (''b'', demo_record)]\<rparr>"

theorem recovery_establishes_start_witness:
  "\<exists>s' reused. recover_completed demo_config False (\<lambda>u. None) (\<lambda>s r u. Inl (OSError u)) demo_crashed =
     Inr (s', reused) \<and> start_ok demo_config s' \<and> status_of s' ''a'' \<noteq> ''RUNNING''"
proof -
  have l: "loaded_state demo_config demo_crashed"
    by (simp add: loaded_state_def demo_crashed_def demo_start_def demo_config_def demo_node_def task_ids_def)
  have "case recover_completed demo_config False (\<lambda>u. None) (\<lambda>s r u. Inl (OSError u)) demo_crashed of
      Inl e \<Rightarrow> False | Inr p \<Rightarrow> status_of (fst p) ''a'' = ''INTERRUPTED''"
    by code_simp
  then obtain s' reused where r: "recover_completed demo_config False (\<lambda>u. None) (\<lambda>s r u. Inl (OSError u))
      demo_crashed = Inr (s', reused)"
    by (auto split: sum.splits)
  have "''a'' \<in> ids_of demo_config" by (simp add: demo_config_def demo_node_def)
  with recovery_establishes_start [OF demo_config_ok l r] r show ?thesis by blast
qed

end
