(* ===== verification/RuntimeState.thy ===== *)
theory RuntimeState
  imports RuntimeJournal Recovery
begin

text \<open>
  The records of the scheduler as the JSON state the runtime keeps and journals: the initial state,
  the checks on a loaded one, the mutation \<open>_set_task\<close> appends
  (\<open>src/qraft/execution/capability_runtime.py\<close>: \<open>_initial_state\<close>, \<open>_load_or_initialize_state\<close>,
  \<open>_set_task\<close>), and the proof that the durable state always stands for the scheduler's records.
\<close>

section \<open>The initial and the loaded state\<close>

definition initial_task :: "task_node \<Rightarrow> pyval" where
  "initial_task t =
     PDict [(''attempts'', PInt 0), (''depends_on'', PList (map PStr (node_dependencies t))),
            (''last_attempt'', PNone), (''manifest_sha256'', PNone), (''reason'', PStr ''not started''),
            (''status'', PStr ''PENDING'')]"

definition initial_state :: "string \<Rightarrow> string \<Rightarrow> task_node list \<Rightarrow> pyval dict" where
  "initial_state fingerprint wid ts =
     [(''allocation_history'', PList []), (''revision'', PInt 0),
      (''runtime_fingerprint'', PStr fingerprint), (''schema_version'', PStr ''1.0''),
      (''status'', PStr ''PENDING''),
      (''tasks'', PDict (sort_key fst (map (\<lambda>t. (node_id t, initial_task t)) ts))),
      (''workflow_id'', PStr wid)]"

definition stream_mutation :: "string \<Rightarrow> pyval dict" where
  "stream_mutation stream =
     [(''changes'', PDict [(''native_event_stream_id'', PStr stream)]), (''kind'', PStr ''state'')]"

text \<open>
  \<open>_load_or_initialize_state\<close>. \<open>ensure v\<close> is \<open>ensure_identity\<close> of the event stream when \<open>v\<close> is the
  identity the state expects. The result is the state and whether it came from the files.
\<close>

definition load_or_initialize ::
  "(rat \<Rightarrow> string) \<Rightarrow> (string \<Rightarrow> string) \<Rightarrow> string \<Rightarrow> string \<Rightarrow> task_node list \<Rightarrow> (pyval \<Rightarrow> string res) \<Rightarrow>
   string \<Rightarrow> pyval option \<Rightarrow> journal_line list option \<Rightarrow> pyval dict res" where
  "load_or_initialize fr sha fingerprint wid ts ensure now wrapper written =
     (case wrapper of
        None \<Rightarrow> rbind (ensure PNone) (\<lambda>stream.
          Inr (dput ''native_event_stream_id'' (PStr stream) (initial_state fingerprint wid ts)))
      | Some w \<Rightarrow>
          rbind (load_runtime_state_payload fr sha w written) (\<lambda>payload.
          if map_of payload ''runtime_fingerprint'' \<noteq> Some (PStr fingerprint)
          then Inl (ValueError ''workflow runtime identity mismatch'')
          else rbind (py_tuple (field_or (PDict []) payload ''tasks'')) (\<lambda>keys.
          if set keys \<noteq> PStr ` node_id ` set ts
          then Inl (ValueError ''workflow runtime task set mismatch'')
          else let expected = field_or PNone payload ''native_event_stream_id'' in
            rbind (ensure expected) (\<lambda>stream.
              if expected = PNone then apply_in_memory now (stream_mutation stream) payload
              else Inr payload))))"

section \<open>The mutation of a task\<close>

definition changes_json :: "string \<Rightarrow> string \<Rightarrow> task_changes \<Rightarrow> pyval dict" where
  "changes_json st rs ch =
     (case ch_attempts ch of None \<Rightarrow> [] | Some n \<Rightarrow> [(''attempts'', PInt n)]) @
     (case ch_last_attempt ch of None \<Rightarrow> [] | Some a \<Rightarrow> [(''last_attempt'', PStr a)]) @
     (case ch_manifest ch of
        None \<Rightarrow> [] | Some None \<Rightarrow> [(''manifest_sha256'', PNone)]
      | Some (Some m) \<Rightarrow> [(''manifest_sha256'', PStr m)]) @
     [(''reason'', PStr rs), (''status'', PStr st)]"

definition task_mutation :: "string \<Rightarrow> string \<Rightarrow> string \<Rightarrow> task_changes \<Rightarrow> pyval dict" where
  "task_mutation tid st rs ch =
     [(''changes'', PDict (changes_json st rs ch)), (''kind'', PStr ''task''), (''task_id'', PStr tid)]"

section \<open>The records a JSON state stands for\<close>

fun opt_text :: "pyval \<Rightarrow> string option option" where
  "opt_text PNone = Some None"
| "opt_text (PStr s) = Some (Some s)"
| "opt_text _ = None"

definition task_record_of :: "pyval dict \<Rightarrow> task_record option" where
  "task_record_of d =
     (case (map_of d ''status'', map_of d ''attempts'', map_of d ''reason'') of
        (Some (PStr st), Some (PInt n), Some (PStr rs)) \<Rightarrow>
          (case (Option.bind (map_of d ''last_attempt'') opt_text,
                 Option.bind (map_of d ''manifest_sha256'') opt_text) of
             (Some l, Some m) \<Rightarrow>
               Some \<lparr>tr_status = st, tr_attempts = n, tr_last_attempt = l, tr_manifest = m, tr_reason = rs\<rparr>
           | _ \<Rightarrow> None)
      | _ \<Rightarrow> None)"

definition state_rel :: "pyval dict \<Rightarrow> sched \<Rightarrow> bool" where
  "state_rel J s \<longleftrightarrow>
     canon (PDict J) \<and> revision J \<noteq> None \<and>
     (\<exists>T. map_of J ''tasks'' = Some (PDict T) \<and>
       (\<forall>u \<in> task_ids s. \<exists>d. map_of T u = Some (PDict d) \<and> task_record_of d = Some (record_of s u)))"

lemma canon_changes: "canon (PDict (task_mutation tid st rs ch))"
  by (cases "ch_attempts ch"; cases "ch_last_attempt ch"; cases "ch_manifest ch")
    (auto simp: task_mutation_def changes_json_def split: option.splits)

lemma task_record_change:
  assumes "sorted_dict d" "task_record_of d = Some r"
  shows "task_record_of (dupdate (changes_json st rs ch) d) = Some (change_record st rs ch r)"
proof -
  from assms(2) obtain st' n rs' l m where r:
    "map_of d ''status'' = Some (PStr st')" "map_of d ''attempts'' = Some (PInt n)"
    "map_of d ''reason'' = Some (PStr rs')" "Option.bind (map_of d ''last_attempt'') opt_text = Some l"
    "Option.bind (map_of d ''manifest_sha256'') opt_text = Some m"
    "r = \<lparr>tr_status = st', tr_attempts = n, tr_last_attempt = l, tr_manifest = m, tr_reason = rs'\<rparr>"
    by (auto simp: task_record_of_def split: option.splits pyval.splits)
  show ?thesis
    by (cases "ch_attempts ch"; cases "ch_last_attempt ch"; cases "ch_manifest ch")
      (simp_all add: changes_json_def task_record_of_def map_of_dput sorted_dput assms(1) r
        change_record_def split: option.splits)
qed

text \<open>One \<open>_set_task\<close>: the JSON mutation succeeds and does what the scheduler's write does.\<close>

lemma set_task_refines:
  assumes rel: "state_rel J s" and tid: "tid \<in> task_ids s"
  obtains J' where "apply_in_memory now (task_mutation tid st rs ch) J = Inr J'"
    "state_rel J' (set_task tid st rs ch s)"
proof -
  from rel obtain T n where J: "canon (PDict J)" "revision J = Some n" "map_of J ''tasks'' = Some (PDict T)"
    and T: "\<forall>u \<in> task_ids s. \<exists>d. map_of T u = Some (PDict d) \<and> task_record_of d = Some (record_of s u)"
    by (auto simp: state_rel_def)
  from T tid obtain d where d: "map_of T tid = Some (PDict d)" "task_record_of d = Some (record_of s tid)"
    by blast
  have cT: "canon (PDict T)" by (rule canon_lookup [OF J(1,3)])
  have cd: "canon (PDict d)" by (rule canon_lookup [OF cT d(1)])
  have sorted: "sorted_dict J" "sorted_dict T" "sorted_dict d" using J(1) cT cd by simp_all
  let ?d = "dupdate (changes_json st rs ch) d"
  let ?J1 = "dput ''tasks'' (PDict (dput tid (PDict ?d) T)) J"
  let ?J = "dput ''updated_at'' (PStr now) (dput ''revision'' (PInt (n + 1)) ?J1)"
  have a: "apply_in_memory now (task_mutation tid st rs ch) J = Inr ?J"
    using J(2,3) d(1)
    by (simp add: apply_in_memory_def revision_Some apply_state_mutation_def apply_task_mutation_def
        task_mutation_def field_or_def)
  have c: "canon (PDict ?J)" by (rule canon_in_memory [OF J(1) canon_changes a])
  have look: "map_of ?J ''tasks'' = Some (PDict (dput tid (PDict ?d) T))"
    "map_of ?J ''revision'' = Some (PInt (n + 1))"
    by (simp_all add: map_of_dput sorted_dput sorted)
  have "\<exists>e. map_of (dput tid (PDict ?d) T) u = Some (PDict e) \<and>
      task_record_of e = Some (record_of (set_task tid st rs ch s) u)" if "u \<in> task_ids s" for u
    using bspec [OF T that] task_record_change [OF sorted(3) d(2), of st rs ch]
    by (auto simp: map_of_dput sorted record_of_set_task [OF tid])
  with c look have "state_rel ?J (set_task tid st rs ch s)"
    by (simp add: state_rel_def revision_def del: canon.simps)
  with a that show thesis by blast
qed

section \<open>The durable state\<close>

record task_write =
  w_at :: string
  w_task :: string
  w_status :: string
  w_reason :: string
  w_changes :: task_changes

definition write_entry :: "task_write \<Rightarrow> mutation_entry" where
  "write_entry w = (w_at w, task_mutation (w_task w) (w_status w) (w_reason w) (w_changes w))"

definition write_task :: "task_write \<Rightarrow> sched \<Rightarrow> sched" where
  "write_task w = set_task (w_task w) (w_status w) (w_reason w) (w_changes w)"

lemma write_task_ids [simp]: "task_ids (write_task w s) = task_ids s"
  by (simp add: write_task_def)

lemma writes_refine:
  assumes "state_rel J s" "\<forall>w \<in> set ws. w_task w \<in> task_ids s"
  shows "\<exists>J'. apply_entries (map write_entry ws) J = Inr J' \<and> state_rel J' (fold write_task ws s)"
  using assms
proof (induction ws arbitrary: J s)
  case (Cons w ws)
  have t: "w_task w \<in> task_ids s" using Cons.prems(2) by simp
  obtain J1 where J1: "apply_in_memory (w_at w) (task_mutation (w_task w) (w_status w) (w_reason w) (w_changes w)) J = Inr J1"
    "state_rel J1 (write_task w s)"
    unfolding write_task_def by (rule set_task_refines [OF Cons.prems(1) t])
  from Cons.IH [OF J1(2)] Cons.prems(2) J1(1) show ?case by (simp add: write_entry_def)
qed simp

text \<open>
  Property C23. The journal refines the scheduler's records. Let a snapshot stand for the records of
  the scheduler. After any sequence of \<open>_set_task\<close> calls on tasks of the workflow, loading the
  snapshot with the journal those calls left succeeds, and the loaded state stands for the records
  the scheduler has in memory: status, attempt count, last attempt, manifest hash and reason of
  every task. So the state a new invocation recovers from is the one the loop was in.
\<close>

theorem durable_records_refine:
  assumes "state_rel J s" "revision J = Some r" "\<forall>w \<in> set ws. w_task w \<in> task_ids s"
  shows "\<exists>J'. load_runtime_state_payload fr sha (save_state fr sha J)
       (Some (entry_lines fr sha r (map write_entry ws))) = Inr J' \<and>
     state_rel J' (fold write_task ws s)"
proof -
  obtain J' where J': "apply_entries (map write_entry ws) J = Inr J'" "state_rel J' (fold write_task ws s)"
    using writes_refine [OF assms(1,3)] by blast
  have "canon (PDict J)" using assms(1) by (simp add: state_rel_def del: canon.simps)
  moreover have "entries_canon ([] @ map write_entry ws)"
    by (auto simp: entries_canon_def write_entry_def canon_changes simp del: canon.simps)
  ultimately have "load_runtime_state_payload fr sha (save_state fr sha J)
      (Some (entry_lines fr sha r ([] @ map write_entry ws))) = Inr J'"
    using load_written [of J r "[]" "map write_entry ws" J J'] assms(2) J'(1) by simp
  with J'(2) show ?thesis by auto
qed

text \<open>The initial state stands for the initial records.\<close>

lemma initial_state_rel:
  assumes "distinct (map node_id ts)" "task_ids s = node_id ` set ts"
    and "\<forall>u \<in> task_ids s. record_of s u = \<lparr>tr_status = ''PENDING'', tr_attempts = 0,
      tr_last_attempt = None, tr_manifest = None, tr_reason = ''not started''\<rparr>"
  shows "state_rel (initial_state fingerprint wid ts) s"
proof -
  let ?T = "sort_key fst (map (\<lambda>t. (node_id t, initial_task t)) ts)"
  have "distinct (map fst (map (\<lambda>t. (node_id t, initial_task t)) ts))" using assms(1) by (simp add: comp_def)
  then have d: "distinct (map fst ?T)" unfolding distinct_map set_sort distinct_sort .
  have "sorted (map fst ?T)" by simp
  with d have s: "sorted_dict ?T" unfolding strict_sorted_iff by simp
  have one: "canon (initial_task t)" for t
    by (simp add: initial_task_def canon_all_iff)
  have "canon_items ?T" unfolding canon_items_iff using one by auto
  with s have c: "canon (PDict (initial_state fingerprint wid ts))" by (simp add: initial_state_def)
  have "map_of ?T u = Some (initial_task t)" if "t \<in> set ts" "u = node_id t" for u t
    using d that by (intro map_of_is_SomeI) auto
  moreover have "\<exists>e. initial_task t = PDict e \<and> task_record_of e = Some \<lparr>tr_status = ''PENDING'',
      tr_attempts = 0, tr_last_attempt = None, tr_manifest = None, tr_reason = ''not started''\<rparr>" for t
    by (simp add: initial_task_def task_record_of_def)
  ultimately have "\<forall>u \<in> task_ids s. \<exists>e. map_of ?T u = Some (PDict e) \<and> task_record_of e = Some (record_of s u)"
    using assms(2,3) by fastforce
  then show ?thesis
    using c by (simp add: state_rel_def initial_state_def revision_def del: canon.simps)
qed

definition demo_write :: task_write where
  "demo_write = \<lparr>w_at = ''t1'', w_task = ''a'', w_status = ''RUNNING'', w_reason = ''attempt reserved'',
     w_changes = \<lparr>ch_attempts = Some 1, ch_last_attempt = Some ''attempt-0001'', ch_manifest = Some None\<rparr>\<rparr>"

theorem durable_records_refine_witness:
  "\<exists>J'. load_runtime_state_payload (\<lambda>q. []) (\<lambda>t. t)
       (save_state (\<lambda>q. []) (\<lambda>t. t) (initial_state ''f'' ''w'' (cfg_tasks demo_config)))
       (Some (entry_lines (\<lambda>q. []) (\<lambda>t. t) 0 (map write_entry [demo_write]))) = Inr J' \<and>
     state_rel J' (fold write_task [demo_write] demo_start)"
proof (rule durable_records_refine)
  show "state_rel (initial_state ''f'' ''w'' (cfg_tasks demo_config)) demo_start"
    by (rule initial_state_rel)
      (auto simp: demo_config_def demo_node_def task_ids_def demo_start_def record_of_def demo_record_def)
  show "revision (initial_state ''f'' ''w'' (cfg_tasks demo_config)) = Some 0"
    by (simp add: revision_def initial_state_def)
  show "\<forall>w \<in> set [demo_write]. w_task w \<in> task_ids demo_start"
    by (simp add: demo_write_def task_ids_def demo_start_def)
qed

end
