(* ===== verification/AttemptFiles.thy ===== *)
theory AttemptFiles
  imports Scheduler RuntimeJournal
begin

text \<open>
  The files of an attempt and the evidence that ties them together, from
  \<open>src/qraft/execution/capability_runtime.py\<close>: resolving and staging the inputs of a task
  (\<open>_resolve_inputs\<close>, \<open>_execute_task\<close>), closing an attempt and writing its manifest
  (\<open>_finalize_attempt\<close>), and accepting a persisted attempt again (\<open>_load_valid_attempt\<close>). A path is
  the list of its parts, a file system the contents of its regular files; directories and symbolic
  links are not represented. What the capability, the launcher and the controller supervision
  return is an argument of the functions that call them.
\<close>

section \<open>Files\<close>

type_synonym path = "string list"
type_synonym files = "path \<Rightarrow> string option"

text \<open>
  What the methods read of the runtime object: its roots, workflow and identities; \<open>rt_sha\<close> is
  SHA-256 of a content, \<open>rt_repr\<close> the \<open>repr\<close> of floats, \<open>rt_dump\<close> the text \<open>atomic_write_json\<close> writes
  and \<open>rt_parse\<close> what \<open>json.loads\<close> makes of a text.
\<close>

record runtime_env =
  rt_root :: path
  rt_source_root :: path
  rt_workflow :: compiled_workflow
  rt_fingerprint :: string
  rt_science :: "string dict"
  rt_execution :: "string dict"
  rt_controllers :: "string list"
  rt_generation :: "string option"
  rt_sha :: "string \<Rightarrow> string"
  rt_repr :: "rat \<Rightarrow> string"
  rt_dump :: "pyval \<Rightarrow> string"
  rt_parse :: "string \<Rightarrow> pyval res"

text \<open>\<open>_safe_relative\<close>, with the parts of the path as its result.\<close>

definition safe_parts :: "string \<Rightarrow> string \<Rightarrow> path res" where
  "safe_parts v field_name =
     (let raw = posix_slashes v; parts = path_parts raw in
      if v = [] \<or> hd raw = CHR ''/'' \<or> ''..'' \<in> set parts \<or> parts = []
      then Inl (ValueError (''unsafe relative path in '' @ field_name @ '': '' @ repr_str v))
      else Inr parts)"

text \<open>\<open>d[k]\<close>\<close>

definition get_map :: "'a dict \<Rightarrow> string \<Rightarrow> 'a res" where
  "get_map d k = (case map_of d k of None \<Rightarrow> Inl (KeyError k) | Some v \<Rightarrow> Inr v)"

definition sha_file :: "runtime_env \<Rightarrow> files \<Rightarrow> path \<Rightarrow> string res" where
  "sha_file env fs p = (case fs p of None \<Rightarrow> Inl (OSError ''No such file'') | Some c \<Rightarrow> Inr (rt_sha env c))"

definition attempt_path :: "runtime_env \<Rightarrow> string \<Rightarrow> string \<Rightarrow> path" where
  "attempt_path env tid aid = rt_root env @ [''work'', tid, aid]"

text \<open>\<open>not path.is_file() or _sha_file(path) != digest\<close>, negated.\<close>

definition file_matches :: "runtime_env \<Rightarrow> files \<Rightarrow> path \<Rightarrow> pyval \<Rightarrow> bool" where
  "file_matches env fs p digest = (case fs p of None \<Rightarrow> False | Some c \<Rightarrow> PStr (rt_sha env c) = digest)"

section \<open>Inputs\<close>

fun verify_externals :: "runtime_env \<Rightarrow> files \<Rightarrow> artifact_reference list \<Rightarrow> unit res" where
  "verify_externals env fs [] = Inr ()"
| "verify_externals env fs (a # as) =
     rbind (safe_parts (art_path a) ''external artifact'') (\<lambda>p.
     case fs (rt_source_root env @ p) of
       None \<Rightarrow> Inl (ValueError (''external artifact missing: '' @ art_path a))
     | Some c \<Rightarrow>
         if rt_sha env c \<noteq> art_sha256 a
         then Inl (ValueError (''external artifact hash mismatch: '' @ art_path a))
         else verify_externals env fs as)"

text \<open>One binding: its file, from the source tree or from the attempt of the task that produced it.\<close>

definition resolve_binding ::
  "runtime_env \<Rightarrow> files \<Rightarrow> (string \<Rightarrow> task_record) \<Rightarrow> attempt dict \<Rightarrow> task_node \<Rightarrow> input_binding \<Rightarrow> path res" where
  "resolve_binding env fs rec attempts t b =
     (let field_name = node_id t @ ''.'' @ in_name b in
      case in_external b of
        Some x \<Rightarrow>
          (case map_of (map (\<lambda>a. (art_id a, a)) (rev (wf_externals (rt_workflow env)))) x of
             None \<Rightarrow> Inl (KeyError x)
           | Some a \<Rightarrow>
               rbind (safe_parts (art_path a) field_name) (\<lambda>p.
               rbind (sha_file env fs (rt_source_root env @ p)) (\<lambda>h.
               if h \<noteq> art_sha256 a
               then Inl (ValueError (''external artifact hash mismatch: '' @ art_path a))
               else Inr (rt_source_root env @ p))))
      | None \<Rightarrow>
          (let parent = opt_str (in_source_task b) in
           case find (\<lambda>n. node_id n = parent) (rev (wf_tasks (rt_workflow env))) of
             None \<Rightarrow> Inl (KeyError parent)
           | Some n \<Rightarrow>
               (case find (\<lambda>p. Some (out_name p) = in_source_output b) (node_outputs n) of
                  None \<Rightarrow> Inl StopIteration
                | Some out \<Rightarrow>
                    rbind (safe_parts (out_path out) field_name) (\<lambda>p.
                    let file = attempt_path env parent (opt_str (tr_last_attempt (rec parent))) @ p in
                    case map_of attempts parent of
                      None \<Rightarrow> Inl (ValueError (''parent completion unavailable: '' @ parent))
                    | Some pa \<Rightarrow>
                        (case map_of (at_artifacts pa) (out_path out) of
                           None \<Rightarrow> Inl (ValueError (''parent artifact hash mismatch: '' @ parent @ ''.'' @ out_name out))
                         | Some h \<Rightarrow>
                             if file_matches env fs file (PStr h) then Inr file
                             else Inl (ValueError (''parent artifact hash mismatch: '' @ parent @ ''.'' @ out_name out)))))))"

fun resolve_bindings ::
  "runtime_env \<Rightarrow> files \<Rightarrow> (string \<Rightarrow> task_record) \<Rightarrow> attempt dict \<Rightarrow> task_node \<Rightarrow> input_binding list \<Rightarrow>
   path dict res" where
  "resolve_bindings env fs rec attempts t [] = Inr []"
| "resolve_bindings env fs rec attempts t (b # bs) =
     rbind (resolve_binding env fs rec attempts t b) (\<lambda>p.
     rbind (resolve_bindings env fs rec attempts t bs) (\<lambda>rest. Inr ((in_name b, p) # rest)))"

text \<open>The names of the bindings of a task are distinct, so the dictionary is the list of its items.\<close>

definition resolve_task_inputs ::
  "runtime_env \<Rightarrow> files \<Rightarrow> (string \<Rightarrow> task_record) \<Rightarrow> attempt dict \<Rightarrow> task_node \<Rightarrow> path dict res" where
  "resolve_task_inputs env fs rec attempts t =
     rbind (resolve_bindings env fs rec attempts t (node_inputs t)) (\<lambda>inputs.
     if inputs = [] then Inl (ValueError (''workflow task has no executable input: '' @ node_id t))
     else Inr inputs)"

text \<open>
  The capability's optional methods: \<open>select_primary_input\<close>, \<open>mutable_input_names\<close> (\<open>or ()\<close> applied to
  its result) and whether it has \<open>validate_consumed_inputs\<close>.
\<close>

definition select_primary_input ::
  "task_node \<Rightarrow> (path dict \<Rightarrow> input_binding list \<Rightarrow> pyobj \<Rightarrow> string) option \<Rightarrow> path dict \<Rightarrow> string res" where
  "select_primary_input t selector inputs =
     (if length inputs = 1 then Inr (fst (hd inputs))
      else (case selector of
              None \<Rightarrow> Inl (TypeError (''multi-input capability must explicitly select its primary input: ''
                             @ node_capability t))
            | Some f \<Rightarrow>
                let selected = f inputs (node_inputs t) (node_settings t) in
                if selected \<notin> fst ` set inputs
                then Inl (ValueError (''capability selected unknown primary input '' @ repr_str selected @
                            '' for '' @ node_id t))
                else Inr selected))"

definition mutable_input_names ::
  "task_node \<Rightarrow> (path dict \<Rightarrow> input_binding list \<Rightarrow> pyobj \<Rightarrow> string list) option \<Rightarrow> bool \<Rightarrow> path dict \<Rightarrow>
   string list res" where
  "mutable_input_names t declarer validates inputs =
     (case declarer of
        None \<Rightarrow> Inr []
      | Some f \<Rightarrow>
          let declared = f inputs (node_inputs t) (node_settings t);
              unknown = filter (\<lambda>n. n \<notin> fst ` set inputs) declared in
          if \<not> distinct declared then Inl (ValueError ''capability declared duplicate mutable inputs'')
          else if unknown \<noteq> []
          then Inl (ValueError (''capability declared unknown mutable inputs: '' @
                      py_repr (\<lambda>q. []) (PList (map PStr (sort unknown)))))
          else if declared \<noteq> [] \<and> \<not> validates
          then Inl (TypeError ''capability declaring mutable inputs must validate their consumption'')
          else Inr declared)"

section \<open>Staging\<close>

record staging =
  sg_files :: files
  sg_evidence :: "string dict"
  sg_sources :: "string dict"
  sg_working :: "string dict"
  sg_staged :: "path dict"

text \<open>\<open>mkdir(parents=True)\<close> of the directory of a file: no part of it is a regular file.\<close>

definition make_parents :: "files \<Rightarrow> path \<Rightarrow> unit res" where
  "make_parents fs p =
     (if list_ex (\<lambda>k. fs (take k p) \<noteq> None) [0..<length p] then Inl (OSError ''File exists'') else Inr ())"

definition copy_file :: "path \<Rightarrow> path \<Rightarrow> files \<Rightarrow> files res" where
  "copy_file src dst fs =
     (case fs src of
        None \<Rightarrow> Inl (OSError ''No such file'')
      | Some c \<Rightarrow> if src = dst then Inl (OSError ''are the same file'') else Inr (fs(dst \<mapsto> c)))"

definition as_posix :: "path \<Rightarrow> string" where
  "as_posix p = (if p = [] then ''.'' else join_with CHR ''/'' p)"

definition evidence_name :: "runtime_env \<Rightarrow> nat \<Rightarrow> string \<Rightarrow> path" where
  "evidence_name env i name =
     [''.qraft'', ''input-evidence'',
      replicate (3 - length (nat_str i)) CHR ''0'' @ nat_str i @ ''-'' @ take 12 (rt_sha env name)]"

definition stage_input ::
  "runtime_env \<Rightarrow> path \<Rightarrow> task_node \<Rightarrow> string list \<Rightarrow> nat \<Rightarrow> string \<times> path \<Rightarrow> staging \<Rightarrow> staging res" where
  "stage_input env aroot t mutables i item st =
     (case item of (name, source) \<Rightarrow>
        (case find (\<lambda>b. in_name b = name) (rev (node_inputs t)) of
           None \<Rightarrow> Inl (KeyError name)
         | Some b \<Rightarrow>
             rbind (safe_parts (in_destination b) (node_id t @ ''.'' @ name @ ''.destination'')) (\<lambda>dest.
             let evidence = evidence_name env i name in
             rbind (make_parents (sg_files st) (aroot @ evidence)) (\<lambda>_.
             rbind (copy_file source (aroot @ evidence) (sg_files st)) (\<lambda>fs1.
             rbind (make_parents fs1 (aroot @ dest)) (\<lambda>_.
             rbind (copy_file (aroot @ evidence) (aroot @ dest) fs1) (\<lambda>fs2.
             rbind (sha_file env fs2 (aroot @ evidence)) (\<lambda>digest.
             Inr \<lparr>sg_files = fs2,
                  sg_evidence = AList.update (as_posix evidence) digest (sg_evidence st),
                  sg_sources = AList.update name digest (sg_sources st),
                  sg_working = (if name \<in> set mutables then sg_working st
                                else AList.update (as_posix dest) digest (sg_working st)),
                  sg_staged = AList.update name (aroot @ dest) (sg_staged st)\<rparr>))))))))"

fun stage_inputs ::
  "runtime_env \<Rightarrow> path \<Rightarrow> task_node \<Rightarrow> string list \<Rightarrow> nat \<Rightarrow> path dict \<Rightarrow> staging \<Rightarrow> staging res" where
  "stage_inputs env aroot t mutables i [] st = Inr st"
| "stage_inputs env aroot t mutables i (item # items) st =
     rbind (stage_input env aroot t mutables i item st)
       (stage_inputs env aroot t mutables (Suc i) items)"

definition stage_task ::
  "runtime_env \<Rightarrow> path \<Rightarrow> task_node \<Rightarrow> string list \<Rightarrow> path dict \<Rightarrow> files \<Rightarrow> staging res" where
  "stage_task env aroot t mutables inputs fs =
     stage_inputs env aroot t mutables 1 (sort_key fst inputs)
       \<lparr>sg_files = fs, sg_evidence = [], sg_sources = [], sg_working = [], sg_staged = []\<rparr>"

text \<open>The command the capability built, with the arguments of its own executable.\<close>

definition full_command :: "execution_spec \<Rightarrow> string list \<Rightarrow> string list res" where
  "full_command e command =
     (case command of
        [] \<Rightarrow> Inl (ValueError ''capability returned an empty command'')
      | c # rest \<Rightarrow> Inr (if c = es_executable e then c # es_executable_arguments e @ rest else command))"

record launch_spec =
  ls_task :: string
  ls_attempt :: string
  ls_workdir :: path
  ls_stdout :: path
  ls_stderr :: path
  ls_processes :: int
  ls_cpus_per_process :: int
  ls_executable :: string
  ls_arguments :: "string list"
  ls_environment :: "string dict"
  ls_hosts :: "string list"
  ls_processes_per_node :: int
  ls_nodes :: int

definition build_launch_spec ::
  "runtime_env \<Rightarrow> execution_spec \<Rightarrow> string \<Rightarrow> string \<Rightarrow> string list \<Rightarrow> string list \<Rightarrow> launch_spec" where
  "build_launch_spec env e tid aid command assigned =
     \<lparr>ls_task = tid, ls_attempt = aid, ls_workdir = attempt_path env tid aid,
      ls_stdout = attempt_path env tid aid @ [''stdout.txt''],
      ls_stderr = attempt_path env tid aid @ [''stderr.txt''],
      ls_processes = es_mpi_ranks e, ls_cpus_per_process = es_cpus_per_rank e,
      ls_executable = hd command, ls_arguments = tl command, ls_environment = es_environment e,
      ls_hosts = assigned, ls_processes_per_node = ranks_per_node e, ls_nodes = es_nodes e\<rparr>"

section \<open>The verdict on an attempt\<close>

text \<open>
  What a capability's \<open>classify_result\<close> returns: a \<open>TechnicalValidation\<close>, or an object of its own
  with the attributes \<open>normalize_technical_validation\<close> looks for. An attribute is an enum member or
  a plain value; \<open>None\<close> is a missing attribute.
\<close>

datatype attr = Enum pyval | Plain pyval

fun attr_value :: "attr \<Rightarrow> pyval" where
  "attr_value (Enum v) = v"
| "attr_value (Plain v) = v"

record classified =
  cl_type :: string
  cl_status :: "attr option"
  cl_classification :: "attr option"
  cl_reasons :: "pyval option"
  cl_reason :: "pyval option"
  cl_evidence :: "pyval option"
  cl_fields :: "pyval dict option"

datatype classification = Technical technical_validation | Owned classified

fun py_truthy :: "pyval \<Rightarrow> bool" where
  "py_truthy PNone = False"
| "py_truthy (PBool b) = b"
| "py_truthy (PInt n) = (n \<noteq> 0)"
| "py_truthy (PFloat q) = (q \<noteq> 0)"
| "py_truthy (PStr s) = (s \<noteq> [])"
| "py_truthy (PList xs) = (xs \<noteq> [])"
| "py_truthy (PDict d) = (d \<noteq> [])"

definition own_reason :: "(rat \<Rightarrow> string) \<Rightarrow> classified \<Rightarrow> pyval list res" where
  "own_reason fr c =
     (let reason = (case cl_reason c of None \<Rightarrow> PNone | Some r \<Rightarrow> r) in
      if py_truthy reason then Inr [PStr (py_str fr reason)]
      else py_tuple (case cl_evidence c of None \<Rightarrow> PList [] | Some e \<Rightarrow> e))"

definition reasons_of :: "(rat \<Rightarrow> string) \<Rightarrow> classified \<Rightarrow> pyval list res" where
  "reasons_of fr c =
     (case cl_reasons c of
        None \<Rightarrow> own_reason fr c
      | Some PNone \<Rightarrow> own_reason fr c
      | Some (PStr s) \<Rightarrow> Inr [PStr s]
      | Some v \<Rightarrow> py_tuple v)"

definition normalize_technical_validation ::
  "(rat \<Rightarrow> string) \<Rightarrow> classification \<Rightarrow> technical_validation res" where
  "normalize_technical_validation fr v =
     (case v of
        Technical t \<Rightarrow> Inr t
      | Owned c \<Rightarrow>
          (case map_option attr_value (cl_status c) of
             None \<Rightarrow> Inl (TypeError ''capability classification must expose status'')
           | Some s \<Rightarrow>
               if s = PNone then Inl (TypeError ''capability classification must expose status'')
               else rbind (reasons_of fr c) (\<lambda>reasons.
                 technical_validation (py_str fr s)
                   (case cl_classification c of None \<Rightarrow> cl_type c | Some a \<Rightarrow> py_str fr (attr_value a))
                   (map (\<lambda>r. PStr (py_str fr r)) reasons)
                   (case cl_fields c of None \<Rightarrow> [] | Some d \<Rightarrow> d))))"


section \<open>Closing an attempt\<close>

record step_outcome =
  so_task :: string
  so_attempt :: string
  so_command :: "string list"
  so_exit_code :: int
  so_elapsed :: rat
  so_terminated :: bool

definition execution_state_of :: "string \<Rightarrow> string res" where
  "execution_state_of status =
     get_map [(''PASS'', ''COMPLETED''), (''FAIL'', ''FAILED''), (''BLOCKED'', ''BLOCKED''), (''REVIEW'', ''INCOMPLETE'')] status"

definition judge_outcome ::
  "step_outcome \<Rightarrow> technical_validation \<Rightarrow> (technical_validation \<times> string) res" where
  "judge_outcome out technical =
     (if so_terminated out
      then Inr (\<lparr>tv_status = ''BLOCKED'', tv_classification = ''INTERRUPTED'',
                  tv_reasons = [PStr ''launcher interrupted attempt''], tv_parser_summary = []\<rparr>, ''INTERRUPTED'')
      else if so_exit_code out \<noteq> 0
      then Inr (\<lparr>tv_status = ''FAIL'', tv_classification = ''PROCESS_EXIT_NONZERO'',
                  tv_reasons = [PStr (''process exit code '' @ int_str (so_exit_code out))],
                  tv_parser_summary = tv_parser_summary technical\<rparr>, ''FAILED'')
      else rbind (execution_state_of (tv_status technical)) (\<lambda>state. Inr (technical, state)))"

text \<open>\<open>resolve()\<close> without symbolic links.\<close>

fun resolve_parts :: "path \<Rightarrow> path \<Rightarrow> path" where
  "resolve_parts acc [] = rev acc"
| "resolve_parts acc (p # ps) = resolve_parts (if p = ''..'' then tl acc else p # acc) ps"

definition relative_to :: "path \<Rightarrow> path \<Rightarrow> path option" where
  "relative_to base p = (if take (length base) p = base then Some (drop (length base) p) else None)"

text \<open>One artifact the capability reports: the path it gives and its digest.\<close>

definition artifact_parts :: "path \<Rightarrow> string \<Rightarrow> path res" where
  "artifact_parts aroot reported =
     (if reported \<noteq> [] \<and> hd reported = CHR ''/''
      then (case relative_to aroot (resolve_parts [] (path_parts reported)) of
              None \<Rightarrow> Inl (ValueError (''capability artifact escapes attempt: '' @ reported))
            | Some p \<Rightarrow> Inr p)
      else safe_parts (as_posix (path_parts reported)) ''discovered artifact'')"

fun check_discovered ::
  "runtime_env \<Rightarrow> files \<Rightarrow> path \<Rightarrow> (string \<times> string) list \<Rightarrow> string dict \<Rightarrow> string dict res" where
  "check_discovered env fs aroot [] acc = Inr acc"
| "check_discovered env fs aroot ((reported, digest) # items) acc =
     rbind (artifact_parts aroot reported) (\<lambda>p.
     if file_matches env fs (aroot @ p) (PStr digest)
     then check_discovered env fs aroot items (AList.update (as_posix p) digest acc)
     else Inl (ValueError (''capability artifact evidence mismatch: '' @ as_posix p)))"

text \<open>The declared outputs: the digests of those present, and the required ones that are missing.\<close>

fun collect_outputs ::
  "runtime_env \<Rightarrow> files \<Rightarrow> path \<Rightarrow> string dict \<Rightarrow> output_port list \<Rightarrow> string dict \<Rightarrow> string list \<Rightarrow>
   (string dict \<times> string list) res" where
  "collect_outputs env fs aroot discovered [] found missing = Inr (found, missing)"
| "collect_outputs env fs aroot discovered (out # outs) found missing =
     rbind (safe_parts (out_path out) ''workflow output'') (\<lambda>p.
     case fs (aroot @ p) of
       Some c \<Rightarrow>
         if map_of discovered (out_path out) \<notin> {None, Some (rt_sha env c)}
         then Inl (ValueError (''capability/workflow artifact hash mismatch: '' @ out_path out))
         else collect_outputs env fs aroot discovered outs
                (AList.update (out_path out) (rt_sha env c) found) missing
     | None \<Rightarrow>
         collect_outputs env fs aroot discovered outs found
           (if out_required out then missing @ [out_path out] else missing))"

definition apply_missing ::
  "string list \<Rightarrow> technical_validation \<times> string \<Rightarrow> technical_validation \<times> string" where
  "apply_missing missing v =
     (if missing \<noteq> [] \<and> snd v \<noteq> ''INTERRUPTED''
      then (\<lparr>tv_status = ''FAIL'', tv_classification = ''REQUIRED_ARTIFACT_MISSING'',
              tv_reasons = map (\<lambda>p. PStr (''required artifact missing: '' @ p)) missing,
              tv_parser_summary = tv_parser_summary (fst v)\<rparr>, ''FAILED'')
      else v)"

text \<open>The supervision of a controller task may replace the verdict.\<close>

definition apply_controller ::
  "bool \<Rightarrow> technical_validation option \<Rightarrow> step_outcome \<Rightarrow> technical_validation \<times> string \<Rightarrow>
   technical_validation \<times> string" where
  "apply_controller controlled validation out v =
     (if \<not> controlled then v
      else (case validation of
              None \<Rightarrow> v
            | Some t \<Rightarrow>
                (t, if tv_classification t = ''CONTROLLER_CLOSURE_UNKNOWN'' then ''INTERRUPTED''
                    else if so_exit_code out = 75 then ''BLOCKED'' else ''FAILED'')))"

definition touch :: "path \<Rightarrow> files \<Rightarrow> files" where
  "touch p fs = (case fs p of None \<Rightarrow> fs(p \<mapsto> []) | Some c \<Rightarrow> fs)"

definition manifest_payload ::
  "runtime_env \<Rightarrow> task_node \<Rightarrow> string list \<Rightarrow> staging \<Rightarrow> string list \<Rightarrow> string dict \<Rightarrow> attempt \<Rightarrow> pyval dict" where
  "manifest_payload env t command st mutables evidence a =
     [(''runtime_fingerprint'', PStr (rt_fingerprint env)),
      (''capability_id'', PStr (node_capability t)),
      (''command'', PList (map PStr command)),
      (''input_evidence'', PDict (str_dict (sg_evidence st))),
      (''input_sources'', PDict (str_dict (sg_sources st))),
      (''working_input_evidence'', PDict (str_dict (sg_working st))),
      (''mutable_inputs'', PList (map PStr (sort mutables))),
      (''evidence_files'', PDict (str_dict evidence)),
      (''attempt'', PDict (attempt_to_dict a))] @
     (case rt_generation env of None \<Rightarrow> [] | Some g \<Rightarrow> [(''controller_authority_generation'', PStr g)])"

definition manifest_wrapper :: "runtime_env \<Rightarrow> pyval dict \<Rightarrow> pyval" where
  "manifest_wrapper env payload =
     PDict [(''schema_version'', PStr ''1.0''), (''payload'', PDict payload),
            (''sha256'', checksum (rt_repr env) (rt_sha env) (PDict payload))]"

text \<open>
  \<open>_finalize_attempt\<close>. \<open>authorize\<close> is \<open>check_authority\<close> at the named boundary; \<open>classify\<close> is what the
  capability makes of the text of stdout and stderr, \<open>discovered\<close> what it reports as artifacts;
  \<open>validation\<close> and \<open>extra\<close> are the controller supervision's verdict and evidence files.
\<close>

definition finalize_attempt ::
  "runtime_env \<Rightarrow> (string \<Rightarrow> unit res) \<Rightarrow> (string \<Rightarrow> string \<Rightarrow> classification res) \<Rightarrow> (string \<times> string) list \<Rightarrow>
   technical_validation option \<Rightarrow> string dict \<Rightarrow> task_node \<Rightarrow> string \<Rightarrow> step_outcome \<Rightarrow> string \<Rightarrow> string \<Rightarrow>
   string list \<Rightarrow> staging \<Rightarrow> string list \<Rightarrow> files \<Rightarrow> (attempt \<times> files) res" where
  "finalize_attempt env authorize classify discovered validation extra t aid out started finished
     command st mutables fs =
     (let aroot = attempt_path env (node_id t) aid;
          controlled = node_id t \<in> set (rt_controllers env) in
      rbind (authorize ''finalize_attempt'') (\<lambda>_.
      let fs1 = touch (aroot @ [''stderr.txt'']) (touch (aroot @ [''stdout.txt'']) fs) in
      rbind (classify (the (fs1 (aroot @ [''stdout.txt'']))) (the (fs1 (aroot @ [''stderr.txt''])))) (\<lambda>c.
      rbind (normalize_technical_validation (rt_repr env) c) (\<lambda>technical.
      rbind (judge_outcome out technical) (\<lambda>verdict.
      rbind (check_discovered env fs1 aroot discovered []) (\<lambda>hashes.
      rbind (collect_outputs env fs1 aroot hashes (node_outputs t) [] []) (\<lambda>(artifacts, missing).
      let v = apply_controller controlled validation out (apply_missing missing verdict) in
      rbind (get_map (rt_science env) (node_id t)) (\<lambda>science.
      rbind (get_map (rt_execution env) (node_id t)) (\<lambda>execution.
      rbind (node_result (snd v) (fst v) NOT_EVALUATED) (\<lambda>result.
      rbind (attempt (rt_repr env) (node_id t) aid science execution started finished ''stdout.txt''
               ''stderr.txt'' (PInt (so_exit_code out)) (str_dict artifacts) result) (\<lambda>a.
      rbind (sha_file env fs1 (aroot @ [''stdout.txt''])) (\<lambda>h1.
      rbind (sha_file env fs1 (aroot @ [''stderr.txt''])) (\<lambda>h2.
      let evidence = AList.updates (if controlled then map fst extra else [])
                       (if controlled then map snd extra else []) [(''stdout.txt'', h1), (''stderr.txt'', h2)] in
      rbind (authorize ''publish_attempt'') (\<lambda>_.
      Inr (a, fs1(aroot @ [''attempt.json''] \<mapsto>
                    rt_dump env (manifest_wrapper env (manifest_payload env t command st mutables evidence a))))))))))))))))))"

section \<open>Accepting a persisted attempt\<close>

text \<open>One loop over recorded files: \<open>label\<close> is the field of \<open>_safe_relative\<close>, \<open>msg\<close> the error.\<close>

fun check_evidence ::
  "runtime_env \<Rightarrow> files \<Rightarrow> path \<Rightarrow> string \<Rightarrow> string \<Rightarrow> pyval dict \<Rightarrow> unit res" where
  "check_evidence env fs aroot label msg [] = Inr ()"
| "check_evidence env fs aroot label msg ((relative, digest) # items) =
     rbind (safe_parts relative label) (\<lambda>p.
     if file_matches env fs (aroot @ p) digest
     then check_evidence env fs aroot label msg items
     else Inl (ValueError (msg @ '': '' @ relative)))"

text \<open>\<open>payload.get(key, {}).items()\<close>\<close>

definition items_of :: "pyval dict \<Rightarrow> string \<Rightarrow> pyval dict res" where
  "items_of d k = (case field_or (PDict []) d k of PDict e \<Rightarrow> Inr e | _ \<Rightarrow> Inl (AttributeError ''items''))"

fun check_sources :: "runtime_env \<Rightarrow> files \<Rightarrow> pyval dict \<Rightarrow> path dict \<Rightarrow> unit res" where
  "check_sources env fs recorded [] = Inr ()"
| "check_sources env fs recorded ((name, p) # items) =
     rbind (sha_file env fs p) (\<lambda>h.
     if map_of recorded name \<noteq> Some (PStr h)
     then Inl (ValueError (''attempt input source mismatch: '' @ name))
     else check_sources env fs recorded items)"

definition check_input_sources ::
  "runtime_env \<Rightarrow> files \<Rightarrow> (string \<Rightarrow> task_record) \<Rightarrow> attempt dict \<Rightarrow> task_node \<Rightarrow> pyval dict \<Rightarrow> unit res" where
  "check_input_sources env fs rec attempts t payload =
     (case field_or PNone payload ''input_sources'' of
        PNone \<Rightarrow> Inr ()
      | PDict recorded \<Rightarrow>
          rbind (resolve_task_inputs env fs rec attempts t) (\<lambda>current.
          if fst ` set current \<noteq> fst ` set recorded
          then Inl (ValueError ''attempt input source set mismatch'')
          else check_sources env fs recorded current)
      | _ \<Rightarrow> Inl (ValueError ''attempt input source evidence invalid''))"

text \<open>The manifest behind its hashes: the payload when it is the one the record names.\<close>

definition read_manifest :: "runtime_env \<Rightarrow> files \<Rightarrow> path \<Rightarrow> string \<Rightarrow> pyval dict res" where
  "read_manifest env fs aroot expected =
     (case fs (aroot @ [''attempt.json'']) of
        None \<Rightarrow> Inl (ValueError ''attempt manifest missing'')
      | Some text \<Rightarrow>
          if rt_sha env text \<noteq> expected then Inl (ValueError ''attempt manifest hash mismatch'')
          else rbind (rt_parse env text) (\<lambda>wrapper.
            case wrapper of
              PDict w \<Rightarrow>
                (case field_or PNone w ''payload'' of
                   PDict payload \<Rightarrow>
                     if map_of w ''schema_version'' \<noteq> Some (PStr ''1.0'')
                     then Inl (ValueError ''attempt manifest schema invalid'')
                     else if checksum (rt_repr env) (rt_sha env) (PDict payload) \<noteq> field_or PNone w ''sha256''
                     then Inl (ValueError ''attempt manifest checksum mismatch'')
                     else if map_of payload ''runtime_fingerprint'' \<noteq> Some (PStr (rt_fingerprint env))
                     then Inl (ValueError ''attempt runtime identity mismatch'')
                     else Inr payload
                 | _ \<Rightarrow> Inl (ValueError ''attempt manifest schema invalid''))
            | _ \<Rightarrow> Inl (AttributeError ''get'')))"

definition text_or_empty :: "string option \<Rightarrow> string" where
  "text_or_empty s = (case s of None \<Rightarrow> [] | Some t \<Rightarrow> t)"

definition load_valid_attempt ::
  "runtime_env \<Rightarrow> files \<Rightarrow> (string \<Rightarrow> task_record) \<Rightarrow> attempt dict \<Rightarrow> task_node \<Rightarrow> task_record \<Rightarrow> attempt res" where
  "load_valid_attempt env fs rec attempts t r =
     (let aid = text_or_empty (tr_last_attempt r); aroot = attempt_path env (node_id t) aid in
      if aid = [] then Inl (ValueError ''completed task lacks attempt identity'')
      else rbind (read_manifest env fs aroot (text_or_empty (tr_manifest r))) (\<lambda>payload.
        rbind (get_item payload ''attempt'') (\<lambda>v.
        rbind (attempt_from_dict (rt_repr env) v) (\<lambda>a.
        if at_node_id a \<noteq> node_id t \<or> at_attempt_id a \<noteq> aid
        then Inl (ValueError ''attempt identity mismatch'')
        else if nr_execution_state (at_result a) \<noteq> ''COMPLETED'' \<or> tv_status (nr_technical (at_result a)) \<noteq> ''PASS''
        then Inl (ValueError ''attempt is not technically completed'')
        else
          rbind (check_evidence env fs aroot ''attempt artifact'' ''attempt artifact mismatch''
                   (str_dict (at_artifacts a))) (\<lambda>_.
          rbind (items_of payload ''input_evidence'') (\<lambda>inputs.
          rbind (check_evidence env fs aroot ''input evidence'' ''attempt input evidence mismatch'' inputs) (\<lambda>_.
          rbind (items_of payload ''working_input_evidence'') (\<lambda>working.
          rbind (check_evidence env fs aroot ''working input evidence'' ''attempt working input mismatch'' working) (\<lambda>_.
          rbind (check_input_sources env fs rec attempts t payload) (\<lambda>_.
          rbind (items_of payload ''evidence_files'') (\<lambda>evidence.
          rbind (check_evidence env fs aroot ''attempt evidence'' ''attempt evidence mismatch'' evidence) (\<lambda>_.
          Inr a))))))))))))"

end
