(* ===== verification/AttemptEvidence.thy ===== *)
theory AttemptEvidence
  imports AttemptFiles
begin

text \<open>
  What the evidence of an attempt proves: staging records the files it copies, a manifest written
  by \<open>_finalize_attempt\<close> is accepted again by \<open>_load_valid_attempt\<close> as long as nothing it names has
  changed, and an accepted attempt has its artifacts on disk as recorded.
\<close>

section \<open>Digests\<close>

definition hex_digest :: "string \<Rightarrow> bool" where
  "hex_digest h \<longleftrightarrow> length h = 64 \<and> list_all is_hex_lower h"

text \<open>The documented form of \<open>hashlib.sha256(_).hexdigest()\<close>.\<close>

definition sha_ok :: "runtime_env \<Rightarrow> bool" where
  "sha_ok env \<longleftrightarrow> (\<forall>c. hex_digest (rt_sha env c))"

lemma hex_lower_char:
  assumes "is_hex_lower c"
  shows "hex_digit c" "\<not> is_py_space c" "lower_char c = c" "c \<notin> set ''_-+xX/.:''" "c \<noteq> CHR 92"
proof -
  have n: "(48 \<le> (of_char c :: nat) \<and> (of_char c :: nat) \<le> 57) \<or> (97 \<le> (of_char c :: nat) \<and> (of_char c :: nat) \<le> 102)"
    using assms by (auto simp: is_hex_lower_def is_digit_def)
  show low: "lower_char c = c" using n by (auto simp: lower_char_def is_upper_def)
  then show "hex_digit c" using assms by (simp add: hex_digit_def)
  show "\<not> is_py_space c" using n by (auto simp: is_py_space_def)
  show "c \<notin> set ''_-+xX/.:''" "c \<noteq> CHR 92" using n by auto
qed

lemma hex_digits_hex: "list_all is_hex_lower s \<Longrightarrow> s \<noteq> [] \<Longrightarrow> hex_digits_ok s"
proof (induction s rule: hex_digits_ok.induct)
  case (3 c d cs)
  then have "d \<noteq> CHR ''_''" using hex_lower_char(4) [of d] by auto
  with 3 show ?case using hex_lower_char(1) [of c] by simp
qed (simp_all add: hex_lower_char(1))

lemma py_lower_hex: "list_all is_hex_lower h \<Longrightarrow> py_lower h = h"
  unfolding py_lower_def by (rule map_idI) (auto simp: list_all_iff hex_lower_char(3))

lemma sha256_field_hex:
  assumes "hex_digest h"
  shows "sha256_field h name = Inr h"
proof -
  have len: "length h = 64" and all: "list_all is_hex_lower h" using assms by (simp_all add: hex_digest_def)
  obtain c d cs where h: "h = c # d # cs" using len by (cases h; cases "tl h") auto
  have strip: "py_strip h = h"
    by (rule py_strip_id) (use h all last_in_set [of h] in \<open>auto simp: list_all_iff hex_lower_char(2)\<close>)
  have "c \<noteq> CHR ''-''" "c \<noteq> CHR ''+''" "d \<noteq> CHR ''x''" "d \<noteq> CHR ''X''"
    using hex_lower_char(4) [of c] hex_lower_char(4) [of d] all h by auto
  then have "py_int16_ok h"
    using hex_digits_hex [OF all] h strip by (simp add: py_int16_ok_def)
  with strip len py_lower_hex [OF all] show ?thesis by (simp add: sha256_field_def)
qed

section \<open>Sorted dictionaries\<close>

lemma map_of_sort_key: "dict_ok d \<Longrightarrow> map_of (sort_key fst d) = map_of d"
  by (subst map_of_inject_set) (simp_all add: distinct_map)

lemma keys_sort_items [simp]: "map fst (sort_items d) = map fst d"
  by (induction d) auto

lemma map_of_sort_items: "map_of (sort_items d) k = map_option sort_keys (map_of d k)"
  by (induction d) auto

lemma map_of_sorted:
  "dict_ok d \<Longrightarrow> map_of (sort_key fst (sort_items d)) k = map_option sort_keys (map_of d k)"
  by (simp add: map_of_sort_key map_of_sort_items)

lemma sort_items_fixed: "\<forall>p \<in> set d. sort_keys (snd p) = snd p \<Longrightarrow> sort_items d = d"
  by (induction d) auto

lemma sort_keys_idem:
  "sort_keys (sort_keys v) = sort_keys v" "sort_all (sort_all xs) = sort_all xs"
  "\<forall>p \<in> set (sort_items d). sort_keys (snd p) = snd p"
proof (induction v and xs and d rule: sort_keys_sort_all_sort_items.induct)
  case (2 d)
  then have "sort_items (sort_key fst (sort_items d)) = sort_key fst (sort_items d)"
    by (intro sort_items_fixed) simp
  then show ?case by (simp add: sort_key_id_if_sorted)
qed simp_all

lemma checksum_sorted: "checksum fr sha (sort_keys v) = checksum fr sha v"
  by (simp add: checksum_def sort_keys_idem(1))

section \<open>Recorded files\<close>

definition clean_path :: "path \<Rightarrow> bool" where
  "clean_path p \<longleftrightarrow> p \<noteq> [] \<and>
     (\<forall>x \<in> set p. x \<noteq> [] \<and> x \<noteq> ''.'' \<and> x \<noteq> ''..'' \<and> CHR ''/'' \<notin> set x \<and> CHR 92 \<notin> set x)"

lemma safe_parts_clean:
  assumes "safe_parts v l = Inr p"
  shows "clean_path p"
proof -
  from assms have p: "p = path_parts (posix_slashes v)" "''..'' \<notin> set p" "p \<noteq> []"
    by (auto simp: safe_parts_def Let_def split: if_splits)
  have "x \<noteq> [] \<and> x \<noteq> ''.'' \<and> x \<noteq> ''..'' \<and> CHR ''/'' \<notin> set x \<and> CHR 92 \<notin> set x" if "x \<in> set p" for x
  proof -
    have "x \<noteq> [] \<and> x \<noteq> ''.'' \<and> CHR ''/'' \<notin> set x \<and> set x \<subseteq> set (posix_slashes v)"
      using path_parts_clean that unfolding p(1) by blast
    moreover have "x \<noteq> ''..''" using that p(2) by metis
    ultimately show ?thesis using posix_slashes_no_backslash [of v] by blast
  qed
  with p(3) show ?thesis by (simp add: clean_path_def)
qed

lemma safe_parts_label: "safe_parts v l = Inr p \<Longrightarrow> safe_parts v m = Inr p"
  by (simp add: safe_parts_def Let_def split: if_splits)

lemma safe_parts_as_posix:
  assumes "clean_path p"
  shows "safe_parts (as_posix p) l = Inr p"
proof -
  obtain x xs where p: "p = x # xs" using assms by (cases p) (auto simp: clean_path_def)
  have parts: "\<forall>y \<in> set p. y \<noteq> [] \<and> y \<noteq> ''.'' \<and> CHR ''/'' \<notin> set y \<and> CHR 92 \<notin> set y"
    and dots: "''..'' \<notin> set p" "p \<noteq> []"
    using assms unfolding clean_path_def by blast+
  have x: "x \<noteq> []" "CHR ''/'' \<notin> set x" using parts p by simp_all
  then have x2: "hd x \<noteq> CHR ''/''" by (metis hd_in_set)
  have "CHR 92 \<notin> set (join_with CHR ''/'' p)"
    using set_join_with [of "CHR ''/''" p] parts by fastforce
  then have id: "posix_slashes (join_with CHR ''/'' p) = join_with CHR ''/'' p" by (rule posix_slashes_id)
  have "path_parts (join_with CHR ''/'' p) = p"
    by (rule path_parts_join) (use parts dots in blast)+
  moreover have "join_with CHR ''/'' p \<noteq> []" "hd (join_with CHR ''/'' p) \<noteq> CHR ''/''"
    using x(1) x2 by (simp_all add: p join_with_nonempty join_with_head)
  ultimately show ?thesis
    using dots by (simp add: safe_parts_def id as_posix_def)
qed

text \<open>Every recorded path is a safe one and its file has the recorded digest.\<close>

definition recorded_ok :: "runtime_env \<Rightarrow> files \<Rightarrow> path \<Rightarrow> pyval dict \<Rightarrow> bool" where
  "recorded_ok env fs aroot d \<longleftrightarrow>
     (\<forall>(rel, digest) \<in> set d. \<exists>p. safe_parts rel [] = Inr p \<and> file_matches env fs (aroot @ p) digest)"

lemma check_evidence_iff: "check_evidence env fs aroot l m d = Inr () \<longleftrightarrow> recorded_ok env fs aroot d"
proof (induction env fs aroot l m d rule: check_evidence.induct)
  case (2 env fs aroot l m rel digest d)
  show ?case
  proof (cases "safe_parts rel l")
    case (Inl e)
    then have "safe_parts rel [] \<noteq> Inr p" for p using safe_parts_label [of rel "[]" p l] by auto
    with Inl show ?thesis by (simp add: recorded_ok_def)
  next
    case (Inr p)
    then have "safe_parts rel [] = Inr p" by (rule safe_parts_label)
    with Inr 2 [of p] show ?thesis by (auto simp: recorded_ok_def)
  qed
qed (simp add: recorded_ok_def)

lemma recorded_ok_set: "set d = set e \<Longrightarrow> recorded_ok env fs aroot d \<longleftrightarrow> recorded_ok env fs aroot e"
  by (simp add: recorded_ok_def)

section \<open>Staging\<close>

text \<open>The part of the name before the dash is the index, so distinct indices give distinct files.\<close>

lemma dec_val_zeros: "dec_val (replicate n CHR ''0'' @ s) = dec_val s"
proof -
  have "foldl (\<lambda>v c. 10 * v + digit_val c) 0 (replicate n CHR ''0'') = 0"
    by (induction n) (simp_all add: digit_val_def)
  then show ?thesis by (simp add: dec_val_def)
qed

lemma evidence_name_inj:
  assumes "evidence_name env i m = evidence_name env j n"
  shows "i = j"
proof -
  let ?d = "\<lambda>i. replicate (3 - length (nat_str i)) CHR ''0'' @ nat_str i"
  have digits: "\<forall>c \<in> set (?d i). is_digit c" for i using nat_str_digits [of i] by (auto simp: is_digit_def)
  have dash: "\<not> is_digit CHR ''-''" by (simp add: is_digit_def)
  have tw: "takeWhile is_digit (?d i @ CHR ''-'' # r) = ?d i" for i r
    using digits [of i] dash by (simp add: takeWhile_append)
  have "?d i @ CHR ''-'' # take 12 (rt_sha env m) = ?d j @ CHR ''-'' # take 12 (rt_sha env n)"
    using assms by (simp add: evidence_name_def)
  then have "?d i = ?d j" using tw by metis
  then show ?thesis by (metis dec_val_zeros dec_val_nat_str)
qed

lemma dash_not_dots: "CHR ''-'' \<in> set f \<Longrightarrow> f \<noteq> [] \<and> f \<noteq> ''.'' \<and> f \<noteq> ''..''"
  by auto

lemma evidence_name_clean:
  assumes "sha_ok env"
  shows "clean_path (evidence_name env i name)"
proof -
  define f where "f = replicate (3 - length (nat_str i)) CHR ''0'' @ nat_str i @ ''-'' @ take 12 (rt_sha env name)"
  have hex: "\<forall>c \<in> set (take 12 (rt_sha env name)). is_hex_lower c"
    using assms in_set_takeD by (fastforce simp: sha_ok_def hex_digest_def list_all_iff)
  have no: "\<not> is_digit CHR ''/''" "\<not> is_digit CHR 92" "\<not> is_hex_lower CHR ''/''" "\<not> is_hex_lower CHR 92"
    by (simp_all add: is_digit_def is_hex_lower_def)
  have sub: "set f \<subseteq> {CHR ''0'', CHR ''-''} \<union> set (nat_str i) \<union> set (take 12 (rt_sha env name))"
    unfolding f_def by auto
  have other: "d \<notin> set f" if "\<not> is_digit d" "\<not> is_hex_lower d" "d \<noteq> CHR ''0''" "d \<noteq> CHR ''-''" for d
    using that sub hex nat_str_digits [of i] by blast
  have "CHR ''/'' \<notin> set f" "CHR 92 \<notin> set f" by (rule other; use no in simp)+
  moreover have "f \<noteq> [] \<and> f \<noteq> ''.'' \<and> f \<noteq> ''..''"
    by (rule dash_not_dots) (simp add: f_def)
  moreover have "evidence_name env i name = [''.qraft'', ''input-evidence'', f]"
    unfolding evidence_name_def f_def by (rule refl)
  ultimately show ?thesis by (simp add: clean_path_def)
qed

lemma evidence_name_hd: "hd (evidence_name env i name) = ''.qraft''"
  by (simp add: evidence_name_def)

definition dest_parts :: "input_binding \<Rightarrow> path" where
  "dest_parts b = path_parts (posix_slashes (in_destination b))"

text \<open>
  What the workflow contract gives of a task's bindings (distinct names and destinations), and that
  no destination lies in the runtime's own directory.
\<close>

definition staging_ok :: "task_node \<Rightarrow> bool" where
  "staging_ok t \<longleftrightarrow>
     inj_on dest_parts (set (node_inputs t)) \<and> distinct (map in_name (node_inputs t)) \<and>
     (\<forall>b \<in> set (node_inputs t). hd (dest_parts b) \<noteq> ''.qraft'')"

text \<open>The inputs staged so far: their contents, digests and working copies.\<close>

definition staged_ok :: "runtime_env \<Rightarrow> path \<Rightarrow> task_node \<Rightarrow> files \<Rightarrow> path dict \<Rightarrow> staging \<Rightarrow> bool" where
  "staged_ok env aroot t fs0 staged st \<longleftrightarrow>
     (\<forall>(name, source) \<in> set staged. \<exists>b c. b \<in> set (node_inputs t) \<and> in_name b = name \<and>
        fs0 source = Some c \<and> map_of (sg_sources st) name = Some (rt_sha env c) \<and>
        map_of (sg_staged st) name = Some (aroot @ dest_parts b) \<and>
        sg_files st (aroot @ dest_parts b) = Some c)"

definition recorded_in :: "runtime_env \<Rightarrow> path \<Rightarrow> (path \<Rightarrow> bool) \<Rightarrow> files \<Rightarrow> string dict \<Rightarrow> bool" where
  "recorded_in env aroot P fs d \<longleftrightarrow>
     (\<forall>(rel, h) \<in> set d. \<exists>p c. P p \<and> clean_path p \<and> rel = as_posix p \<and>
        fs (aroot @ p) = Some c \<and> h = rt_sha env c)"

definition evidence_below :: "runtime_env \<Rightarrow> nat \<Rightarrow> path \<Rightarrow> bool" where
  "evidence_below env i p \<longleftrightarrow> (\<exists>j n. j < i \<and> p = evidence_name env j n)"

definition destination_of :: "task_node \<Rightarrow> string set \<Rightarrow> path \<Rightarrow> bool" where
  "destination_of t names p \<longleftrightarrow> (\<exists>b \<in> set (node_inputs t). in_name b \<in> names \<and> p = dest_parts b)"

definition staging_inv :: "runtime_env \<Rightarrow> path \<Rightarrow> task_node \<Rightarrow> files \<Rightarrow> nat \<Rightarrow> path dict \<Rightarrow> staging \<Rightarrow> bool" where
  "staging_inv env aroot t fs0 i staged st \<longleftrightarrow>
     staged_ok env aroot t fs0 staged st \<and>
     recorded_in env aroot (evidence_below env i) (sg_files st) (sg_evidence st) \<and>
     recorded_in env aroot (destination_of t (fst ` set staged)) (sg_files st) (sg_working st) \<and>
     fst ` set (sg_sources st) = fst ` set staged \<and> dict_ok (sg_sources st) \<and>
     (\<forall>q. take (length aroot) q \<noteq> aroot \<longrightarrow> sg_files st q = fs0 q)"

lemma recorded_in_ok:
  assumes "recorded_in env aroot P fs d"
  shows "recorded_ok env fs aroot (str_dict d)"
  using assms safe_parts_as_posix
  by (fastforce simp: recorded_in_def recorded_ok_def str_dict_def file_matches_def)

lemma recorded_in_write:
  assumes "recorded_in env aroot P fs d" "\<not> P p" "\<And>q. P q \<Longrightarrow> Q q"
  shows "recorded_in env aroot Q (fs(aroot @ p \<mapsto> c)) d"
  using assms unfolding recorded_in_def by (fastforce split: prod.splits)

lemma recorded_in_update:
  assumes "recorded_in env aroot P fs d" "P p" "clean_path p" "fs (aroot @ p) = Some c"
  shows "recorded_in env aroot P fs (AList.update (as_posix p) (rt_sha env c) d)"
  unfolding recorded_in_def
proof (clarify)
  fix rel h assume "(rel, h) \<in> set (AList.update (as_posix p) (rt_sha env c) d)"
  then consider "rel = as_posix p \<and> h = rt_sha env c" | "(rel, h) \<in> set d"
    using in_set_update by fast
  then show "\<exists>p c. P p \<and> clean_path p \<and> rel = as_posix p \<and> fs (aroot @ p) = Some c \<and> h = rt_sha env c"
    using assms unfolding recorded_in_def by cases blast+
qed

lemma safe_dest: "safe_parts (in_destination b) l = Inr p \<Longrightarrow> p = dest_parts b"
  by (simp add: safe_parts_def Let_def dest_parts_def split: if_splits)

lemma copy_fileE:
  "copy_file src dst fs = Inr fs' \<Longrightarrow> \<exists>c. fs src = Some c \<and> src \<noteq> dst \<and> fs' = fs(dst \<mapsto> c)"
  by (auto simp: copy_file_def split: option.splits if_splits)

lemma find_in: "find P xs = Some x \<Longrightarrow> x \<in> set xs \<and> P x"
  by (induction xs) (auto split: if_splits)

lemma stage_inputE:
  assumes "stage_input env aroot t mutables i (name, source) st = Inr st'"
  obtains b c where "b \<in> set (node_inputs t)" "in_name b = name" "clean_path (dest_parts b)"
    "sg_files st source = Some c"
    "sg_files st' = (sg_files st)(aroot @ evidence_name env i name \<mapsto> c, aroot @ dest_parts b \<mapsto> c)"
    "sg_evidence st' = AList.update (as_posix (evidence_name env i name)) (rt_sha env c) (sg_evidence st)"
    "sg_sources st' = AList.update name (rt_sha env c) (sg_sources st)"
    "sg_working st' = (if name \<in> set mutables then sg_working st
       else AList.update (as_posix (dest_parts b)) (rt_sha env c) (sg_working st))"
    "sg_staged st' = AList.update name (aroot @ dest_parts b) (sg_staged st)"
proof -
  let ?e = "aroot @ evidence_name env i name"
  from assms obtain b dest fs1 fs2 digest where
    b: "find (\<lambda>b. in_name b = name) (rev (node_inputs t)) = Some b"
    and dest: "safe_parts (in_destination b) (node_id t @ ''.'' @ name @ ''.destination'') = Inr dest"
    and c1: "copy_file source ?e (sg_files st) = Inr fs1"
    and c2: "copy_file ?e (aroot @ dest) fs1 = Inr fs2"
    and digest: "sha_file env fs2 ?e = Inr digest"
    and st': "st' = \<lparr>sg_files = fs2,
                  sg_evidence = AList.update (as_posix (evidence_name env i name)) digest (sg_evidence st),
                  sg_sources = AList.update name digest (sg_sources st),
                  sg_working = (if name \<in> set mutables then sg_working st
                                else AList.update (as_posix dest) digest (sg_working st)),
                  sg_staged = AList.update name (aroot @ dest) (sg_staged st)\<rparr>"
    by (simp add: stage_input_def rbind_Inr_iff Let_def split: option.splits) metis
  have in_b: "b \<in> set (node_inputs t)" "in_name b = name"
    using find_in [OF b] by simp_all
  have d: "dest = dest_parts b" "clean_path dest" using safe_dest [OF dest] safe_parts_clean [OF dest] by simp_all
  obtain c where c: "sg_files st source = Some c" "fs1 = (sg_files st)(?e \<mapsto> c)"
    using copy_fileE [OF c1] by blast
  obtain c' where c': "fs1 ?e = Some c'" "fs2 = fs1(aroot @ dest \<mapsto> c')" "?e \<noteq> aroot @ dest"
    using copy_fileE [OF c2] by blast
  have "c' = c" using c c' by simp
  moreover have "digest = rt_sha env c" using digest c c' by (simp add: sha_file_def)
  ultimately show thesis using that [OF in_b] d c c' st' by simp
qed

lemma evidence_not_destination:
  assumes "staging_ok t" "destination_of t names p"
  shows "p \<noteq> evidence_name env i n"
proof
  assume p: "p = evidence_name env i n"
  from assms(2) obtain b where "b \<in> set (node_inputs t)" "p = dest_parts b" by (auto simp: destination_of_def)
  with assms(1) have "hd p \<noteq> ''.qraft''" by (auto simp: staging_ok_def)
  then show False unfolding p evidence_name_hd by (rule notE) (rule refl)
qed

lemma staged_ok_write:
  assumes "staged_ok env aroot t fs0 staged st" "name \<notin> fst ` set staged"
    and "sg_sources st' = AList.update name h (sg_sources st)"
    and "sg_staged st' = AList.update name q (sg_staged st)"
    and "\<And>b. b \<in> set (node_inputs t) \<Longrightarrow> in_name b \<noteq> name \<Longrightarrow>
      sg_files st' (aroot @ dest_parts b) = sg_files st (aroot @ dest_parts b)"
  shows "staged_ok env aroot t fs0 staged st'"
  unfolding staged_ok_def
proof (clarify)
  fix n src assume m: "(n, src) \<in> set staged"
  with assms(2) have ne: "n \<noteq> name" by force
  from m assms(1) obtain b c where b: "b \<in> set (node_inputs t)" "in_name b = n" "fs0 src = Some c"
    "map_of (sg_sources st) n = Some (rt_sha env c)" "map_of (sg_staged st) n = Some (aroot @ dest_parts b)"
    "sg_files st (aroot @ dest_parts b) = Some c"
    unfolding staged_ok_def by fastforce
  with ne assms(3-5) show "\<exists>b c. b \<in> set (node_inputs t) \<and> in_name b = n \<and> fs0 src = Some c \<and>
      map_of (sg_sources st') n = Some (rt_sha env c) \<and>
      map_of (sg_staged st') n = Some (aroot @ dest_parts b) \<and> sg_files st' (aroot @ dest_parts b) = Some c"
    by (intro exI [of _ b] exI [of _ c]) simp
qed

lemma stage_input_inv:
  assumes inv: "staging_inv env aroot t fs0 i staged st" and ok: "staging_ok t" "sha_ok env"
    and run: "stage_input env aroot t mutables i (name, source) st = Inr st'"
    and new: "name \<notin> fst ` set staged" and outside: "take (length aroot) source \<noteq> aroot"
  shows "staging_inv env aroot t fs0 (Suc i) (staged @ [(name, source)]) st'"
proof -
  obtain b c where b: "b \<in> set (node_inputs t)" "in_name b = name" "clean_path (dest_parts b)"
    and c: "sg_files st source = Some c"
    and fs: "sg_files st' = (sg_files st)(aroot @ evidence_name env i name \<mapsto> c, aroot @ dest_parts b \<mapsto> c)"
    and ev: "sg_evidence st' = AList.update (as_posix (evidence_name env i name)) (rt_sha env c) (sg_evidence st)"
    and so: "sg_sources st' = AList.update name (rt_sha env c) (sg_sources st)"
    and wo: "sg_working st' = (if name \<in> set mutables then sg_working st
       else AList.update (as_posix (dest_parts b)) (rt_sha env c) (sg_working st))"
    and sg: "sg_staged st' = AList.update name (aroot @ dest_parts b) (sg_staged st)"
    using run by (rule stage_inputE)
  let ?e = "evidence_name env i name" and ?d = "dest_parts b" and ?old = "fst ` set staged"
  have dest: "destination_of t (insert name ?old) ?d" "\<not> destination_of t ?old ?d"
  proof -
    show "destination_of t (insert name ?old) ?d" using b by (auto simp: destination_of_def)
    show "\<not> destination_of t ?old ?d"
      using b ok(1) new by (auto simp: destination_of_def staging_ok_def dest: inj_onD)
  qed
  have apart: "?d \<noteq> ?e" by (rule evidence_not_destination [OF ok(1) dest(1)])
  have not_ev: "\<not> evidence_below env k ?d" for k
    using evidence_not_destination [OF ok(1) dest(1)] by (auto simp: evidence_below_def)
  have not_dest: "\<not> destination_of t N ?e" for N
    using evidence_not_destination [OF ok(1)] by blast
  have fresh: "\<not> evidence_below env i ?e" using evidence_name_inj by (fastforce simp: evidence_below_def)
  have here: "evidence_below env (Suc i) ?e" by (auto simp: evidence_below_def)
  have fs0: "fs0 source = Some c" using inv outside c by (simp add: staging_inv_def)
  have old: "staged_ok env aroot t fs0 staged st'"
  proof (rule staged_ok_write [OF _ new so sg])
    show "staged_ok env aroot t fs0 staged st" using inv by (simp add: staging_inv_def)
    fix b' assume b': "b' \<in> set (node_inputs t)" "in_name b' \<noteq> name"
    then have "destination_of t {in_name b'} (dest_parts b')" by (auto simp: destination_of_def)
    then have "dest_parts b' \<noteq> ?e" by (rule evidence_not_destination [OF ok(1)])
    moreover have "dest_parts b' \<noteq> ?d"
      using b b' ok(1) by (auto simp: staging_ok_def dest: inj_onD)
    ultimately show "sg_files st' (aroot @ dest_parts b') = sg_files st (aroot @ dest_parts b')"
      by (simp add: fs)
  qed
  have "staged_ok env aroot t fs0 [(name, source)] st'"
    using b fs0 by (auto simp: staged_ok_def so sg fs)
  with old have one: "staged_ok env aroot t fs0 (staged @ [(name, source)]) st'"
    by (auto simp: staged_ok_def)
  have "recorded_in env aroot (evidence_below env i) (sg_files st) (sg_evidence st)"
    using inv by (simp add: staging_inv_def)
  then have "recorded_in env aroot (evidence_below env (Suc i)) ((sg_files st)(aroot @ ?e \<mapsto> c)) (sg_evidence st)"
    by (rule recorded_in_write) (use fresh in \<open>auto simp: evidence_below_def less_Suc_eq\<close>)
  then have "recorded_in env aroot (evidence_below env (Suc i)) (sg_files st') (sg_evidence st)"
    unfolding fs by (rule recorded_in_write) (use not_ev in auto)
  then have two: "recorded_in env aroot (evidence_below env (Suc i)) (sg_files st') (sg_evidence st')"
    unfolding ev
    by (rule recorded_in_update) (use here evidence_name_clean [OF ok(2)] apart in \<open>simp_all add: fs\<close>)
  have "recorded_in env aroot (destination_of t ?old) (sg_files st) (sg_working st)"
    using inv by (simp add: staging_inv_def)
  then have "recorded_in env aroot (destination_of t ?old) ((sg_files st)(aroot @ ?e \<mapsto> c)) (sg_working st)"
    by (rule recorded_in_write) (use not_dest in auto)
  then have w: "recorded_in env aroot (destination_of t (insert name ?old)) (sg_files st') (sg_working st)"
    unfolding fs by (rule recorded_in_write) (use dest(2) in \<open>auto simp: destination_of_def\<close>)
  then have "recorded_in env aroot (destination_of t (insert name ?old)) (sg_files st')
      (AList.update (as_posix ?d) (rt_sha env c) (sg_working st))"
    by (rule recorded_in_update) (use dest(1) b(3) in \<open>simp_all add: fs\<close>)
  with w have three: "recorded_in env aroot (destination_of t (insert name ?old)) (sg_files st') (sg_working st')"
    unfolding wo by simp
  have four: "fst ` set (sg_sources st') = insert name ?old" "dict_ok (sg_sources st')"
    using inv by (simp_all add: so staging_inv_def dom_update)
  have "sg_files st' q = fs0 q" if "take (length aroot) q \<noteq> aroot" for q
    using inv that by (auto simp: fs staging_inv_def)
  with one two three four show ?thesis by (simp add: staging_inv_def)
qed

lemma stage_inputs_inv:
  assumes "staging_inv env aroot t fs0 i staged st" "staging_ok t" "sha_ok env"
    and "stage_inputs env aroot t mutables i items st = Inr st'"
    and "dict_ok (staged @ items)" "\<forall>p \<in> set items. take (length aroot) (snd p) \<noteq> aroot"
  shows "staging_inv env aroot t fs0 (i + length items) (staged @ items) st'"
  using assms
proof (induction items arbitrary: i staged st)
  case (Cons item items)
  obtain name source where item: "item = (name, source)" by (cases item)
  from Cons.prems(4) obtain st1 where st1: "stage_input env aroot t mutables i (name, source) st = Inr st1"
    "stage_inputs env aroot t mutables (Suc i) items st1 = Inr st'"
    by (auto simp: item rbind_Inr_iff)
  have "staging_inv env aroot t fs0 (Suc i) (staged @ [(name, source)]) st1"
    by (rule stage_input_inv [OF Cons.prems(1-3) st1(1)]) (use Cons.prems(5,6) in \<open>auto simp: item\<close>)
  from Cons.IH [OF this Cons.prems(2,3) st1(2)] Cons.prems(5,6) show ?case by (simp add: item)
qed simp

lemma stage_task_inv:
  assumes "stage_task env aroot t mutables inputs fs0 = Inr st" "staging_ok t" "sha_ok env"
    and "dict_ok inputs" "\<forall>p \<in> set inputs. take (length aroot) (snd p) \<noteq> aroot"
  obtains i where "staging_inv env aroot t fs0 i (sort_key fst inputs) st"
proof -
  let ?st = "\<lparr>sg_files = fs0, sg_evidence = [], sg_sources = [], sg_working = [], sg_staged = []\<rparr>"
  have "staging_inv env aroot t fs0 1 [] ?st"
    by (simp add: staging_inv_def staged_ok_def recorded_in_def)
  from stage_inputs_inv [OF this assms(2,3) assms(1) [unfolded stage_task_def]] assms(4,5)
  show thesis using that by (simp add: distinct_map)
qed

section \<open>Reading an attempt with sorted keys\<close>

lemma item_of_sorted:
  "dict_ok d \<Longrightarrow> item_of (sort_keys (PDict d)) k =
     (case map_of d k of None \<Rightarrow> Inl (KeyError k) | Some v \<Rightarrow> Inr (sort_keys v))"
  by (auto simp: item_of_def get_item_def map_of_sorted split: option.splits)

lemma get_or_sorted:
  "dict_ok d \<Longrightarrow> get_or z (sort_keys (PDict d)) k =
     Inr (case map_of d k of None \<Rightarrow> z | Some v \<Rightarrow> sort_keys v)"
  by (auto simp: get_or_def field_or_def map_of_sorted split: option.splits)

lemma py_tuple_sorted: "canon (PList xs) \<Longrightarrow> py_tuple (sort_keys (PList xs)) = Inr xs"
  by (simp add: canon_sort_keys(2))

lemma py_dict_sorted: "canon (PDict d) \<Longrightarrow> py_dict (sort_keys (PDict d)) = Inr d"
  using canon_sort_keys(1) [of "PDict d"] by simp

lemma technical_from_sorted:
  assumes "technical_validation st c rs summ = Inr t"
    and "canon (PList (tv_reasons t))" "canon (PDict (tv_parser_summary t))"
  shows "technical_from_dict fr (sort_keys (PDict (technical_to_dict t))) = Inr t"
proof -
  have "dict_ok (technical_to_dict t)" by (simp add: technical_to_dict_def)
  then show ?thesis
    unfolding technical_from_dict_def str_item_def
    by (simp add: item_of_sorted get_or_sorted technical_to_dict_def py_tuple_sorted [OF assms(2)]
        py_dict_sorted [OF assms(3)] technical_validation_again [OF assms(1)] del: sort_keys.simps(1,2))
qed

lemma result_from_sorted:
  assumes "technical_validation st c rs summ = Inr t" "node_result state t d = Inr r"
    and "canon (PList (tv_reasons t))" "canon (PDict (tv_parser_summary t))"
  shows "result_from_dict fr (sort_keys (PDict (result_to_dict r))) = Inr r"
proof -
  have r: "py_strip state \<noteq> []" "r = \<lparr>nr_execution_state = state, nr_technical = t, nr_decision = d\<rparr>"
    using assms(2) by (simp_all add: node_result_def split: if_splits)
  have "dict_ok (result_to_dict r)" by (simp add: result_to_dict_def)
  then show ?thesis
    unfolding result_from_dict_def str_item_def
    by (simp add: item_of_sorted get_or_sorted result_to_dict_def r(2)
        technical_from_sorted [OF assms(1,3,4)] node_result_def r(1) del: sort_keys.simps(1,2))
qed

lemma attempt_from_sorted:
  assumes "technical_validation st c rs summ = Inr t" "node_result state t d = Inr r"
    and "attempt fr node aid sc ex started finished out err (PInt code) arts r = Inr a" "dict_ok arts"
    and "canon (PList (tv_reasons t))" "canon (PDict (tv_parser_summary t))"
  shows "attempt_from_dict fr (sort_keys (PDict (attempt_to_dict a))) = Inr a"
proof -
  have code: "at_exit_code a = PInt code" and arts: "sha_items fr ''artifact'' arts = Inr (at_artifacts a)"
    using assms(3) by (auto simp: attempt_def rbind_Inr_iff split: if_splits)
  have "canon (PDict (str_dict (at_artifacts a)))"
    using sha_items_sorted(2) [OF arts assms(4)]
    by (auto simp: str_dict_def comp_def case_prod_unfold canon_items_iff)
  note art = py_dict_sorted [OF this]
  have res: "at_result a = r" using assms(3) by (rule attempt_result)
  show ?thesis
    unfolding attempt_from_dict_def str_item_def
    using attempt_again [OF assms(3,4)] result_from_sorted [OF assms(1,2,5,6)] res code
    by (simp add: item_of_sorted get_or_sorted attempt_to_dict_def art
        del: sort_keys.simps(1,2))
qed

section \<open>The artifacts of a closed attempt\<close>

lemma collect_outputs_found:
  assumes "collect_outputs env fs aroot hashes outs found missing = Inr (found', missing')"
    and "dict_ok found" "\<forall>(rel, h) \<in> set found. \<exists>p c. safe_parts rel [] = Inr p \<and> fs (aroot @ p) = Some c \<and> h = rt_sha env c"
  shows "dict_ok found' \<and>
    (\<forall>(rel, h) \<in> set found'. \<exists>p c. safe_parts rel [] = Inr p \<and> fs (aroot @ p) = Some c \<and> h = rt_sha env c)"
  using assms
proof (induction outs arbitrary: found missing)
  case (Cons out outs)
  from Cons.prems(1) obtain p where p: "safe_parts (out_path out) ''workflow output'' = Inr p"
    by (auto simp: rbind_Inr_iff)
  show ?case
  proof (cases "fs (aroot @ p)")
    case None
    with Cons.prems(1) p have "collect_outputs env fs aroot hashes outs found
        (if out_required out then missing @ [out_path out] else missing) = Inr (found', missing')" by simp
    then show ?thesis by (rule Cons.IH [OF _ Cons.prems(2,3)])
  next
    case (Some c)
    let ?f = "AList.update (out_path out) (rt_sha env c) found"
    have "collect_outputs env fs aroot hashes outs ?f missing = Inr (found', missing')"
      using Cons.prems(1) p Some by (auto split: if_splits)
    moreover have "\<forall>(rel, h) \<in> set ?f. \<exists>p c. safe_parts rel [] = Inr p \<and> fs (aroot @ p) = Some c \<and> h = rt_sha env c"
      using Cons.prems(3) Some safe_parts_label [OF p] in_set_update by fast
    ultimately show ?thesis using Cons.prems(2) by (intro Cons.IH) simp_all
  qed
qed simp

lemma sha_items_hex:
  assumes "\<forall>p \<in> set d. hex_digest (snd p)"
  shows "sha_items fr name (str_dict d) = Inr (sort_key fst d)"
proof -
  have s: "sort_key fst (str_dict d) = str_dict (sort_key fst d)"
  proof -
    have "sort_key fst (map (\<lambda>(k, v). (k, PStr v)) d) = map (\<lambda>(k, v). (k, PStr v)) (sort_key fst d)"
    proof (induction d)
      case (Cons p d)
      have ins: "insort_key fst ((\<lambda>(k, v). (k, PStr v)) p) (map (\<lambda>(k, v). (k, PStr v)) e) =
          map (\<lambda>(k, v). (k, PStr v)) (insort_key fst p e)" for e
        by (induction e) (auto simp: case_prod_unfold)
      with Cons show ?case by (simp add: ins)
    qed simp
    then show ?thesis by (simp add: str_dict_def)
  qed
  have "map_res (sha_entry fr name) (str_dict e) = Inr e" if "\<forall>p \<in> set e. hex_digest (snd p)" for e
    using that by (induction e) (auto simp: str_dict_def sha_entry_def sha256_field_hex)
  then show ?thesis using assms by (simp add: sha_items_def s)
qed

section \<open>A closed attempt is accepted again\<close>

definition output_parts :: "output_port \<Rightarrow> path" where
  "output_parts out = path_parts (posix_slashes (out_path out))"

text \<open>No declared file is the manifest itself.\<close>

definition manifest_reserved :: "task_node \<Rightarrow> bool" where
  "manifest_reserved t \<longleftrightarrow>
     (\<forall>b \<in> set (node_inputs t). dest_parts b \<noteq> [''attempt.json'']) \<and>
     (\<forall>out \<in> set (node_outputs t). output_parts out \<noteq> [''attempt.json''])"

text \<open>The manifest \<open>_finalize_attempt\<close> writes for a task without controller supervision.\<close>

definition closing_manifest ::
  "runtime_env \<Rightarrow> task_node \<Rightarrow> string list \<Rightarrow> staging \<Rightarrow> string list \<Rightarrow> files \<Rightarrow> attempt \<Rightarrow> pyval" where
  "closing_manifest env t command st mutables fs a =
     (let aroot = attempt_path env (node_id t) (at_attempt_id a);
          sha = (\<lambda>name. rt_sha env (the (fs (aroot @ [name])))) in
      manifest_wrapper env (manifest_payload env t command st mutables
        [(''stdout.txt'', sha ''stdout.txt''), (''stderr.txt'', sha ''stderr.txt'')] a))"

lemma collect_outputs_paths:
  "collect_outputs env fs aroot hashes outs found missing = Inr (found', missing') \<Longrightarrow>
   fst ` set found' \<subseteq> fst ` set found \<union> out_path ` set outs"
proof (induction outs arbitrary: found missing)
  case (Cons out outs)
  from Cons.prems obtain found1 missing1 where
    "collect_outputs env fs aroot hashes outs found1 missing1 = Inr (found', missing')"
    "fst ` set found1 \<subseteq> insert (out_path out) (fst ` set found)"
    by (auto simp: rbind_Inr_iff dom_update split: option.splits if_splits)
  with Cons.IH [of found1 missing1] show ?case by auto
qed simp

lemma judge_completed:
  assumes "judge_outcome out technical = Inr verdict" "v = apply_missing missing verdict" "snd v = ''COMPLETED''"
  shows "fst v = technical \<and> tv_status technical = ''PASS''"
  using assms
  by (auto simp: judge_outcome_def apply_missing_def execution_state_of_def get_map_def rbind_Inr_iff
      split: if_splits option.splits)

lemma finalizeE:
  assumes "finalize_attempt env authorize classify discovered validation extra t aid out started finished
      command st mutables fs = Inr (a, fs2)"
    and "node_id t \<notin> set (rt_controllers env)" "nr_execution_state (at_result a) = ''COMPLETED''"
  obtains fs1 hashes artifacts missing technical science execution result h1 h2 where
    "fs1 = touch (attempt_path env (node_id t) aid @ [''stderr.txt''])
             (touch (attempt_path env (node_id t) aid @ [''stdout.txt'']) fs)"
    "collect_outputs env fs1 (attempt_path env (node_id t) aid) hashes (node_outputs t) [] [] = Inr (artifacts, missing)"
    "node_result ''COMPLETED'' technical NOT_EVALUATED = Inr result" "tv_status technical = ''PASS''"
    "attempt (rt_repr env) (node_id t) aid science execution started finished ''stdout.txt''
       ''stderr.txt'' (PInt (so_exit_code out)) (str_dict artifacts) result = Inr a"
    "sha_file env fs1 (attempt_path env (node_id t) aid @ [''stdout.txt'']) = Inr h1"
    "sha_file env fs1 (attempt_path env (node_id t) aid @ [''stderr.txt'']) = Inr h2"
    "fs2 = fs1(attempt_path env (node_id t) aid @ [''attempt.json''] \<mapsto>
       rt_dump env (manifest_wrapper env (manifest_payload env t command st mutables
         [(''stdout.txt'', h1), (''stderr.txt'', h2)] a)))"
proof -
  let ?ar = "attempt_path env (node_id t) aid"
  define fs1 where "fs1 = touch (?ar @ [''stderr.txt'']) (touch (?ar @ [''stdout.txt'']) fs)"
  from assms(1,2) obtain technical verdict hashes artifacts missing science execution result h1 h2 where
    j: "judge_outcome out technical = Inr verdict"
    and co: "collect_outputs env fs1 ?ar hashes (node_outputs t) [] [] = Inr (artifacts, missing)"
    and nr: "node_result (snd (apply_missing missing verdict)) (fst (apply_missing missing verdict)) NOT_EVALUATED = Inr result"
    and at: "attempt (rt_repr env) (node_id t) aid science execution started finished ''stdout.txt''
       ''stderr.txt'' (PInt (so_exit_code out)) (str_dict artifacts) result = Inr a"
    and h: "sha_file env fs1 (?ar @ [''stdout.txt'']) = Inr h1" "sha_file env fs1 (?ar @ [''stderr.txt'']) = Inr h2"
    and fs2: "fs2 = fs1(?ar @ [''attempt.json''] \<mapsto>
       rt_dump env (manifest_wrapper env (manifest_payload env t command st mutables
         [(''stdout.txt'', h1), (''stderr.txt'', h2)] a)))"
    unfolding finalize_attempt_def Let_def rbind_Inr_iff fs1_def [symmetric] apply_controller_def
    by (clarsimp split: prod.splits simp: rbind_Inr_iff)
  have "at_result a = result" using at by (rule attempt_result)
  moreover have "nr_execution_state result = snd (apply_missing missing verdict)"
    using nr by (auto simp: node_result_def split: if_splits)
  ultimately have done': "snd (apply_missing missing verdict) = ''COMPLETED''" using assms(3) by simp
  from judge_completed [OF j refl this] have v: "fst (apply_missing missing verdict) = technical"
    "tv_status technical = ''PASS''" by simp_all
  show thesis by (rule that [OF fs1_def co _ v(2) at h fs2]) (use nr v(1) done' in simp)
qed

lemma touch_keeps: "fs p = Some c \<Longrightarrow> touch q fs p = Some c"
  by (auto simp: touch_def split: option.splits)

lemma recorded_ok_mono:
  assumes "recorded_ok env fs aroot d"
    and "\<And>rel h p. (rel, h) \<in> set d \<Longrightarrow> safe_parts rel [] = Inr p \<Longrightarrow>
      fs (aroot @ p) \<noteq> None \<Longrightarrow> fs' (aroot @ p) = fs (aroot @ p)"
  shows "recorded_ok env fs' aroot d"
  using assms unfolding recorded_ok_def file_matches_def by (fastforce split: option.splits)

lemma file_matches_present: "file_matches env fs p h \<Longrightarrow> fs p \<noteq> None"
  by (auto simp: file_matches_def split: option.splits)

text \<open>The payload as it is read back, and what the loader looks up in it.\<close>

definition loaded_payload ::
  "runtime_env \<Rightarrow> task_node \<Rightarrow> string list \<Rightarrow> staging \<Rightarrow> string list \<Rightarrow> string dict \<Rightarrow> attempt \<Rightarrow> pyval dict" where
  "loaded_payload env t command st mutables evidence a =
     sort_key fst (sort_items (manifest_payload env t command st mutables evidence a))"

lemma loaded_payload_lookup:
  "map_of (loaded_payload env t command st mutables evidence a) k =
     map_option sort_keys (map_of (manifest_payload env t command st mutables evidence a) k)"
  unfolding loaded_payload_def
  by (rule map_of_sorted) (auto simp: manifest_payload_def split: option.split)

lemma read_manifest_written:
  assumes "fs (aroot @ [''attempt.json'']) = Some text" "rt_sha env text = expected"
    and "rt_parse env text = Inr (sort_keys (manifest_wrapper env (manifest_payload env t command st mutables evidence a)))"
  shows "read_manifest env fs aroot expected = Inr (loaded_payload env t command st mutables evidence a)"
proof -
  let ?p = "manifest_payload env t command st mutables evidence a"
  have w: "sort_keys (manifest_wrapper env ?p) =
      PDict [(''payload'', PDict (loaded_payload env t command st mutables evidence a)),
             (''schema_version'', PStr ''1.0''),
             (''sha256'', checksum (rt_repr env) (rt_sha env) (PDict ?p))]"
    by (simp add: manifest_wrapper_def sort_key_def checksum_def loaded_payload_def)
  have "map_of (loaded_payload env t command st mutables evidence a) ''runtime_fingerprint'' =
      Some (PStr (rt_fingerprint env))"
    by (simp add: loaded_payload_lookup manifest_payload_def)
  moreover have "checksum (rt_repr env) (rt_sha env) (PDict (loaded_payload env t command st mutables evidence a)) =
      checksum (rt_repr env) (rt_sha env) (PDict ?p)"
    using checksum_sorted [of "rt_repr env" "rt_sha env" "PDict ?p"] by (simp add: loaded_payload_def)
  ultimately show ?thesis
    using assms by (simp add: read_manifest_def w field_or_def)
qed

lemma items_loaded:
  assumes "map_of (manifest_payload env t command st mutables evidence a) k = Some (PDict (str_dict d))"
  shows "items_of (loaded_payload env t command st mutables evidence a) k = Inr (sort_key fst (str_dict d))"
  using assms by (simp add: items_of_def field_or_def loaded_payload_lookup)

lemma check_sources_ok:
  assumes "\<forall>(n, p) \<in> set items. \<exists>c. fs p = Some c \<and> map_of recorded n = Some (PStr (rt_sha env c))"
  shows "check_sources env fs recorded items = Inr ()"
  using assms by (induction env fs recorded items rule: check_sources.induct) (auto simp: sha_file_def)

lemma map_of_str_dict: "map_of (str_dict d) k = map_option PStr (map_of d k)"
  by (induction d) (auto simp: str_dict_def)

lemma keys_str_dict [simp]: "map fst (str_dict d) = map fst d" "fst ` set (str_dict d) = fst ` set d"
  by (auto simp: str_dict_def comp_def case_prod_unfold image_image)

lemma check_input_sources_ok:
  assumes "staging_inv env aroot t fs0 i (sort_key fst inputs) st"
    and "resolve_task_inputs env fs rec attempts t = Inr inputs"
    and "\<forall>p \<in> set inputs. fs (snd p) = fs0 (snd p)"
  shows "check_input_sources env fs rec attempts t (loaded_payload env t command st mutables evidence a) = Inr ()"
proof -
  let ?r = "sort_key fst (str_dict (sg_sources st))"
  have p: "field_or PNone (loaded_payload env t command st mutables evidence a) ''input_sources'' = PDict ?r"
    by (simp add: field_or_def loaded_payload_lookup manifest_payload_def)
  have d: "dict_ok (str_dict (sg_sources st))" using assms(1) by (simp add: staging_inv_def)
  have keys: "fst ` set inputs = fst ` set ?r" using assms(1) by (simp add: staging_inv_def)
  have "\<exists>c. fs q = Some c \<and> map_of ?r n = Some (PStr (rt_sha env c))" if "(n, q) \<in> set inputs" for n q
  proof -
    have "(n, q) \<in> set (sort_key fst inputs)" using that by simp
    with assms(1) obtain c where c: "fs0 q = Some c" "map_of (sg_sources st) n = Some (rt_sha env c)"
      unfolding staging_inv_def staged_ok_def by fast
    then show ?thesis using assms(3) that by (force simp: map_of_sort_key [OF d] map_of_str_dict)
  qed
  then have "check_sources env fs ?r inputs = Inr ()" by (intro check_sources_ok) auto
  then show ?thesis by (simp add: check_input_sources_def p assms(2) keys)
qed

text \<open>
  One attempt from staging to a later load, for a task without controller supervision. The launched
  program may write anywhere in the attempt's directory except over the files recorded at staging,
  the directory and the sources do not change after the attempt was closed, and the inputs resolve
  to the same files.
\<close>

record attempt_run =
  ar_task :: task_node
  ar_attempt :: string
  ar_mutables :: "string list"
  ar_inputs :: "path dict"
  ar_before :: files
  ar_staging :: staging
  ar_launched :: files
  ar_closed :: files
  ar_later :: files

definition run_ok :: "runtime_env \<Rightarrow> attempt_run \<Rightarrow> bool" where
  "run_ok env u \<longleftrightarrow>
     (let t = ar_task u; aroot = attempt_path env (node_id t) (ar_attempt u) in
      staging_ok t \<and> manifest_reserved t \<and> node_id t \<notin> set (rt_controllers env) \<and>
      dict_ok (ar_inputs u) \<and> (\<forall>p \<in> set (ar_inputs u). take (length aroot) (snd p) \<noteq> aroot) \<and>
      stage_task env aroot t (ar_mutables u) (ar_inputs u) (ar_before u) = Inr (ar_staging u) \<and>
      (\<forall>p h. (as_posix p, h) \<in> set (sg_evidence (ar_staging u)) \<union> set (sg_working (ar_staging u)) \<longrightarrow>
         ar_launched u (aroot @ p) = sg_files (ar_staging u) (aroot @ p)) \<and>
      (\<forall>p. ar_later u (aroot @ p) = ar_closed u (aroot @ p)) \<and>
      (\<forall>p \<in> set (ar_inputs u). ar_later u (snd p) = ar_before u (snd p)))"

lemma staged_files_recorded:
  assumes "run_ok env u" "sha_ok env"
    and "aroot = attempt_path env (node_id (ar_task u)) (ar_attempt u)"
  obtains i where "staging_inv env aroot (ar_task u) (ar_before u) i (sort_key fst (ar_inputs u)) (ar_staging u)"
    "recorded_in env aroot (\<lambda>p. p \<noteq> [''attempt.json'']) (ar_launched u) (sg_evidence (ar_staging u))"
    "recorded_in env aroot (\<lambda>p. p \<noteq> [''attempt.json'']) (ar_launched u) (sg_working (ar_staging u))"
proof -
  let ?st = "ar_staging u" and ?t = "ar_task u"
  obtain i where inv: "staging_inv env aroot ?t (ar_before u) i (sort_key fst (ar_inputs u)) ?st"
    using stage_task_inv [of env aroot ?t "ar_mutables u" "ar_inputs u" "ar_before u" ?st] assms
    by (auto simp: run_ok_def Let_def)
  have kept: "ar_launched u (aroot @ p) = sg_files ?st (aroot @ p)"
    if "(as_posix p, h) \<in> set (sg_evidence ?st) \<union> set (sg_working ?st)" for p h
    using assms(1,3) that unfolding run_ok_def Let_def by blast
  have ev: "p \<noteq> [''attempt.json'']" if "evidence_below env i p" for p
    using that by (auto simp: evidence_below_def evidence_name_def)
  have wo: "p \<noteq> [''attempt.json'']" if "destination_of ?t N p" for p N
    using that assms(1) by (auto simp: destination_of_def run_ok_def Let_def manifest_reserved_def)
  have "recorded_in env aroot (\<lambda>p. p \<noteq> [''attempt.json'']) (ar_launched u) (sg_evidence ?st)"
    using inv kept ev unfolding staging_inv_def recorded_in_def by fastforce
  moreover have "recorded_in env aroot (\<lambda>p. p \<noteq> [''attempt.json'']) (ar_launched u) (sg_working ?st)"
    using inv kept wo unfolding staging_inv_def recorded_in_def by fastforce
  ultimately show thesis using inv that by blast
qed

lemma recorded_after_close:
  assumes "recorded_in env aroot (\<lambda>p. p \<noteq> [''attempt.json'']) fs d"
    and "\<And>p c. p \<noteq> [''attempt.json''] \<Longrightarrow> fs (aroot @ p) = Some c \<Longrightarrow> fs' (aroot @ p) = Some c"
  shows "recorded_ok env fs' aroot (sort_key fst (str_dict d))"
proof -
  have "recorded_in env aroot (\<lambda>p. p \<noteq> [''attempt.json'']) fs' d"
    using assms unfolding recorded_in_def by fastforce
  from recorded_in_ok [OF this] show ?thesis by (simp add: recorded_ok_def)
qed

lemma output_files_recorded:
  assumes "sha_file env fs (aroot @ [''stdout.txt'']) = Inr h1" "sha_file env fs (aroot @ [''stderr.txt'']) = Inr h2"
  shows "recorded_in env aroot (\<lambda>p. p \<noteq> [''attempt.json'']) fs [(''stdout.txt'', h1), (''stderr.txt'', h2)]"
proof -
  have clean: "clean_path [''stdout.txt'']" "clean_path [''stderr.txt'']"
    by (simp_all add: clean_path_def)
  obtain c1 c2 where c: "fs (aroot @ [''stdout.txt'']) = Some c1" "h1 = rt_sha env c1"
    "fs (aroot @ [''stderr.txt'']) = Some c2" "h2 = rt_sha env c2"
    using assms by (simp add: sha_file_def split: option.splits)
  have "\<exists>p c. p \<noteq> [''attempt.json''] \<and> clean_path p \<and> ''stdout.txt'' = as_posix p \<and> fs (aroot @ p) = Some c \<and> h1 = rt_sha env c"
    by (intro exI [of _ "[''stdout.txt'']"] exI [of _ c1]) (simp add: c clean as_posix_def)
  moreover have "\<exists>p c. p \<noteq> [''attempt.json''] \<and> clean_path p \<and> ''stderr.txt'' = as_posix p \<and> fs (aroot @ p) = Some c \<and> h2 = rt_sha env c"
    by (intro exI [of _ "[''stderr.txt'']"] exI [of _ c2]) (simp add: c clean as_posix_def)
  ultimately show ?thesis by (simp add: recorded_in_def del: list.inject)
qed

lemma artifacts_recorded:
  assumes "collect_outputs env fs aroot hashes outs [] [] = Inr (artifacts, missing)" "sha_ok env"
    and "\<forall>out \<in> set outs. output_parts out \<noteq> [''attempt.json'']"
    and "attempt fr node aid science execution started finished so se code (str_dict artifacts) result = Inr a"
    and "\<And>p c. p \<noteq> [''attempt.json''] \<Longrightarrow> fs (aroot @ p) = Some c \<Longrightarrow> fs' (aroot @ p) = Some c"
  shows "recorded_ok env fs' aroot (str_dict (at_artifacts a))"
proof -
  have f: "\<forall>(rel, h) \<in> set artifacts. \<exists>p c. safe_parts rel [] = Inr p \<and> fs (aroot @ p) = Some c \<and> h = rt_sha env c"
    using collect_outputs_found [OF assms(1)] by simp
  have "\<forall>p \<in> set artifacts. hex_digest (snd p)"
    using f assms(2) unfolding sha_ok_def by fastforce
  from sha_items_hex [OF this] assms(4) have a: "at_artifacts a = sort_key fst artifacts"
    by (auto simp: attempt_def rbind_Inr_iff split: if_splits)
  have "\<exists>p. safe_parts rel [] = Inr p \<and> file_matches env fs' (aroot @ p) (PStr h)"
    if m: "(rel, h) \<in> set artifacts" for rel h
  proof -
    obtain p c where p: "safe_parts rel [] = Inr p" "fs (aroot @ p) = Some c" "h = rt_sha env c"
      using f m by blast
    obtain out where "out \<in> set outs" "rel = out_path out"
      using collect_outputs_paths [OF assms(1)] m by force
    moreover have "p = path_parts (posix_slashes rel)"
      using p(1) by (simp add: safe_parts_def Let_def split: if_splits)
    ultimately have "p \<noteq> [''attempt.json'']" using assms(3) by (auto simp: output_parts_def)
    from assms(5) [OF this p(2)] p show ?thesis by (simp add: file_matches_def)
  qed
  then show ?thesis by (auto simp: a recorded_ok_def str_dict_def)
qed


text \<open>A sample: one external input, one required output, a capability that classifies it as PASS.\<close>

definition demo_task :: task_node where
  "demo_task = \<lparr>node_id = ''relax'', node_kind = CALCULATION, node_capability = ''siesta.relax'',
     node_dependencies = [],
     node_inputs = [\<lparr>in_name = ''geometry'', in_destination = ''geometry.fdf'', in_media_type = ''text/plain'',
       in_external = Some ''x'', in_source_task = None, in_source_output = None\<rparr>],
     node_outputs = [\<lparr>out_name = ''xv'', out_path = ''out.xv'', out_artifact_type = ''siesta.xv'',
       out_media_type = ''text/plain'', out_required = True\<rparr>],
     node_resources = OMap [], node_settings = OMap []\<rparr>"

definition demo_workflow :: compiled_workflow where
  "demo_workflow = \<lparr>wf_id = ''w'', wf_project = ''p'', wf_definition_sha256 = sample_sha,
     wf_tasks = [demo_task], wf_edges = [],
     wf_externals = [\<lparr>art_id = ''x'', art_role = INPUT, art_path = ''in.fdf'', art_sha256 = sample_sha,
       art_size = 1, art_media_type = ''text/plain'', art_producer_task = None,
       art_producer_attempt = None, art_metadata = OMap []\<rparr>],
     wf_metadata = OMap []\<rparr>"

definition demo_attempt :: attempt where
  "demo_attempt = sample_attempt\<lparr>at_artifacts := [(''out.xv'', sample_sha)]\<rparr>"

definition demo_manifest :: pyval where
  "demo_manifest =
     PDict [(''payload'', PDict
        [(''attempt'', sort_keys (PDict (attempt_to_dict demo_attempt))),
         (''capability_id'', PStr ''siesta.relax''), (''command'', PList [PStr ''siesta'']),
         (''evidence_files'', PDict [(''stderr.txt'', PStr sample_sha), (''stdout.txt'', PStr sample_sha)]),
         (''input_evidence'', PDict [(''.qraft/input-evidence/001-001122334455'', PStr sample_sha)]),
         (''input_sources'', PDict [(''geometry'', PStr sample_sha)]),
         (''mutable_inputs'', PList []), (''runtime_fingerprint'', PStr ''f''),
         (''working_input_evidence'', PDict [(''geometry.fdf'', PStr sample_sha)])]),
       (''schema_version'', PStr ''1.0''), (''sha256'', PStr sample_sha)]"

definition demo_env :: runtime_env where
  "demo_env = \<lparr>rt_root = [''r''], rt_source_root = [''s''], rt_workflow = demo_workflow,
     rt_fingerprint = ''f'', rt_science = [(''relax'', sample_sha)], rt_execution = [(''relax'', sample_sha)],
     rt_controllers = [], rt_generation = None, rt_sha = (\<lambda>c. sample_sha), rt_repr = (\<lambda>q. []),
     rt_dump = (\<lambda>v. ''manifest''), rt_parse = (\<lambda>t. Inr demo_manifest)\<rparr>"

definition demo_root :: path where
  "demo_root = [''r'', ''work'', ''relax'', ''attempt-0001'']"

definition demo_inputs :: "path dict" where
  "demo_inputs = [(''geometry'', [''s'', ''in.fdf''])]"

definition demo_before :: files where
  "demo_before = [[''s'', ''in.fdf''] \<mapsto> ''G'']"

definition demo_staging :: staging where
  "demo_staging = projr (stage_task demo_env demo_root demo_task [] demo_inputs demo_before)"

definition demo_launched :: files where
  "demo_launched = (sg_files demo_staging)(demo_root @ [''out.xv''] \<mapsto> ''X'', demo_root @ [''stdout.txt''] \<mapsto> ''ok'')"

definition demo_outcome :: step_outcome where
  "demo_outcome = \<lparr>so_task = ''relax'', so_attempt = ''attempt-0001'', so_command = [''siesta''],
     so_exit_code = 0, so_elapsed = 1, so_terminated = False\<rparr>"

definition demo_close :: "(attempt \<times> files) res" where
  "demo_close = finalize_attempt demo_env (\<lambda>b. Inr ()) (\<lambda>so se. Inr (Technical sample_technical))
     [(''out.xv'', sample_sha)] None [] demo_task ''attempt-0001'' demo_outcome ''t0'' ''t1'' [''siesta'']
     demo_staging [] demo_launched"

definition demo_closed :: files where "demo_closed = snd (projr demo_close)"

definition demo_run :: attempt_run where
  "demo_run = \<lparr>ar_task = demo_task, ar_attempt = ''attempt-0001'', ar_mutables = [], ar_inputs = demo_inputs,
     ar_before = demo_before, ar_staging = demo_staging, ar_launched = demo_launched,
     ar_closed = demo_closed, ar_later = demo_closed\<rparr>"

lemma demo_closed_eq: "demo_close = Inr (demo_attempt, demo_closed)"
proof -
  have r: "\<not> isl demo_close" "fst (projr demo_close) = demo_attempt" by code_simp+
  then have "projr demo_close = (demo_attempt, demo_closed)" by (simp add: prod_eq_iff demo_closed_def)
  with sum.collapse(2) [OF r(1)] show ?thesis by simp
qed

lemma demo_staged_eq: "stage_task demo_env demo_root demo_task [] demo_inputs demo_before = Inr demo_staging"
proof -
  have "\<not> isl (stage_task demo_env demo_root demo_task [] demo_inputs demo_before)" by code_simp
  then show ?thesis unfolding demo_staging_def by (cases "stage_task demo_env demo_root demo_task [] demo_inputs demo_before") auto
qed

lemma demo_recorded:
  "sg_evidence demo_staging = [(''.qraft/input-evidence/001-001122334455'', sample_sha)]"
  "sg_working demo_staging = [(''geometry.fdf'', sample_sha)]"
  by code_simp+

lemma demo_closing:
  "sort_keys (closing_manifest demo_env demo_task [''siesta''] demo_staging [] demo_closed demo_attempt) = demo_manifest"
  "rt_parse demo_env t = Inr demo_manifest"
  by code_simp (simp add: demo_env_def)

lemma demo_run_ok: "sha_ok demo_env" "run_ok demo_env demo_run"
proof -
  have "hex_digest sample_sha" by code_simp
  then show "sha_ok demo_env" by (simp add: sha_ok_def demo_env_def)
  have root: "attempt_path demo_env (node_id demo_task) ''attempt-0001'' = demo_root" by code_simp
  have task: "staging_ok demo_task" "manifest_reserved demo_task" by code_simp+
  have kept: "demo_launched (demo_root @ p) = sg_files demo_staging (demo_root @ p)"
    if "(as_posix p, h) \<in> set (sg_evidence demo_staging) \<union> set (sg_working demo_staging)" for p h
  proof -
    have "p \<noteq> [''out.xv'']" "p \<noteq> [''stdout.txt'']"
      using that by (auto simp: demo_recorded as_posix_def)
    then show ?thesis by (simp add: demo_launched_def)
  qed
  have outside: "demo_closed [''s'', ''in.fdf''] = demo_before [''s'', ''in.fdf'']" by code_simp
  show "run_ok demo_env demo_run"
    unfolding run_ok_def Let_def
    using task kept outside demo_staged_eq
    by (simp add: demo_run_def root) (simp add: demo_inputs_def demo_root_def demo_env_def)
qed

definition demo_completed :: task_record where
  "demo_completed = \<lparr>tr_status = ''COMPLETED'', tr_attempts = 1, tr_last_attempt = Some ''attempt-0001'',
     tr_manifest = Some sample_sha, tr_reason = []\<rparr>"


end
