(* ===== verification/AttemptReuse.thy ===== *)
theory AttemptReuse
  imports AttemptEvidence Recovery
begin

text \<open>
  Recovery with the real loader: \<open>_recover_completed_nodes\<close> over \<open>_load_valid_attempt\<close>
  (\<open>src/qraft/execution/capability_runtime.py\<close>). A task that is COMPLETED when the loop starts has
  its evidence on disk.
\<close>

definition runtime_loader :: "runtime_env \<Rightarrow> files \<Rightarrow> loader" where
  "runtime_loader env fs s reused tid =
     (case find (\<lambda>t. node_id t = tid) (wf_tasks (rt_workflow env)) of
        None \<Rightarrow> Inl (KeyError tid)
      | Some t \<Rightarrow> load_valid_attempt env fs (record_of s) reused t (record_of s tid))"

section \<open>What an accepted attempt guarantees\<close>

definition attempt_backed ::
  "runtime_env \<Rightarrow> files \<Rightarrow> (string \<Rightarrow> task_record) \<Rightarrow> attempt dict \<Rightarrow> task_node \<Rightarrow> task_record \<Rightarrow> attempt \<Rightarrow> bool" where
  "attempt_backed env fs rec attempts t r a \<longleftrightarrow>
     at_node_id a = node_id t \<and> tr_last_attempt r = Some (at_attempt_id a) \<and>
     nr_execution_state (at_result a) = ''COMPLETED'' \<and> tv_status (nr_technical (at_result a)) = ''PASS'' \<and>
     recorded_ok env fs (attempt_path env (node_id t) (at_attempt_id a)) (str_dict (at_artifacts a)) \<and>
     (\<exists>payload. read_manifest env fs (attempt_path env (node_id t) (at_attempt_id a))
         (text_or_empty (tr_manifest r)) = Inr payload \<and>
       check_input_sources env fs rec attempts t payload = Inr ())"

lemma load_valid_attemptD:
  assumes "load_valid_attempt env fs rec attempts t r = Inr a"
  shows "attempt_backed env fs rec attempts t r a"
proof -
  obtain payload where r: "read_manifest env fs (attempt_path env (node_id t) (text_or_empty (tr_last_attempt r)))
      (text_or_empty (tr_manifest r)) = Inr payload"
    and id: "text_or_empty (tr_last_attempt r) \<noteq> []" "at_node_id a = node_id t"
      "at_attempt_id a = text_or_empty (tr_last_attempt r)"
    and res: "nr_execution_state (at_result a) = ''COMPLETED''" "tv_status (nr_technical (at_result a)) = ''PASS''"
    and ev: "check_evidence env fs (attempt_path env (node_id t) (text_or_empty (tr_last_attempt r)))
      ''attempt artifact'' ''attempt artifact mismatch'' (str_dict (at_artifacts a)) = Inr ()"
    and src: "check_input_sources env fs rec attempts t payload = Inr ()"
    using assms unfolding load_valid_attempt_def Let_def rbind_Inr_iff
    by (clarsimp split: if_split_asm simp: rbind_Inr_iff)
  have "tr_last_attempt r = Some (at_attempt_id a)"
    using id by (cases "tr_last_attempt r") (simp_all add: text_or_empty_def)
  then show ?thesis
    unfolding attempt_backed_def
    using r id(2) res ev src unfolding id(3) [symmetric] check_evidence_iff by blast
qed

text \<open>Later records and more attempts do not invalidate it: only last attempts and known parents matter.\<close>

lemma resolve_binding_mono:
  assumes "resolve_binding env fs rec attempts t b = Inr p"
    and "\<And>u. tr_last_attempt (rec' u) = tr_last_attempt (rec u)" "map_of attempts \<subseteq>\<^sub>m map_of attempts'"
  shows "resolve_binding env fs rec' attempts' t b = Inr p"
proof -
  show ?thesis
  proof (cases "in_external b")
    case (Some x)
    with assms(1) show ?thesis by (simp add: resolve_binding_def)
  next
    case None
    let ?parent = "opt_str (in_source_task b)"
    note def = resolve_binding_def Let_def None
    from assms(1) obtain n where n: "find (\<lambda>n. node_id n = ?parent) (rev (wf_tasks (rt_workflow env))) = Some n"
      by (cases "find (\<lambda>n. node_id n = ?parent) (rev (wf_tasks (rt_workflow env)))") (simp_all add: def)
    with assms(1) obtain out where out: "find (\<lambda>p. Some (out_name p) = in_source_output b) (node_outputs n) = Some out"
      by (cases "find (\<lambda>p. Some (out_name p) = in_source_output b) (node_outputs n)") (simp_all add: def)
    with assms(1) n obtain q where q: "safe_parts (out_path out) (node_id t @ ''.'' @ in_name b) = Inr q"
      by (cases "safe_parts (out_path out) (node_id t @ ''.'' @ in_name b)") (simp_all add: def)
    with assms(1) n out obtain pa where pa: "map_of attempts ?parent = Some pa"
      by (cases "map_of attempts ?parent") (simp_all add: def)
    with assms(1) n out q have rest: "(case map_of (at_artifacts pa) (out_path out) of
        None \<Rightarrow> Inl (ValueError (''parent artifact hash mismatch: '' @ ?parent @ ''.'' @ out_name out))
      | Some h \<Rightarrow>
          if file_matches env fs (attempt_path env ?parent (opt_str (tr_last_attempt (rec ?parent))) @ q) (PStr h)
          then Inr (attempt_path env ?parent (opt_str (tr_last_attempt (rec ?parent))) @ q)
          else Inl (ValueError (''parent artifact hash mismatch: '' @ ?parent @ ''.'' @ out_name out))) = Inr p"
      by (simp add: def)
    have "map_of attempts' ?parent = Some pa" using pa assms(3) by (metis domI map_le_def)
    with n out q rest show ?thesis by (simp add: def assms(2))
  qed
qed

lemma resolve_bindings_mono:
  assumes "resolve_bindings env fs rec attempts t bs = Inr inputs"
    and "\<And>u. tr_last_attempt (rec' u) = tr_last_attempt (rec u)" "map_of attempts \<subseteq>\<^sub>m map_of attempts'"
  shows "resolve_bindings env fs rec' attempts' t bs = Inr inputs"
  using assms(1)
proof (induction bs arbitrary: inputs)
  case (Cons b bs)
  then show ?case using resolve_binding_mono [OF _ assms(2,3)] by (auto simp: rbind_Inr_iff)
qed simp

lemma check_input_sources_mono:
  assumes "check_input_sources env fs rec attempts t payload = Inr ()"
    and "\<And>u. tr_last_attempt (rec' u) = tr_last_attempt (rec u)" "map_of attempts \<subseteq>\<^sub>m map_of attempts'"
  shows "check_input_sources env fs rec' attempts' t payload = Inr ()"
proof -
  have "resolve_task_inputs env fs rec attempts t = Inr x \<Longrightarrow> resolve_task_inputs env fs rec' attempts' t = Inr x" for x
    using resolve_bindings_mono [OF _ assms(2,3)]
    by (auto simp: resolve_task_inputs_def rbind_Inr_iff split: if_splits)
  then show ?thesis
    using assms(1) by (auto simp: check_input_sources_def rbind_Inr_iff split: pyval.splits if_splits)
qed


section \<open>Example\<close>

definition reuse_attempt :: attempt where
  "reuse_attempt = sample_attempt\<lparr>at_node_id := ''a'', at_artifacts := [(''out.xv'', sample_sha)]\<rparr>"

definition reuse_env :: runtime_env where
  "reuse_env = demo_env\<lparr>rt_workflow := demo_workflow\<lparr>wf_tasks := cfg_tasks demo_config\<rparr>,
     rt_parse := (\<lambda>t. Inr (PDict
       [(''payload'', PDict [(''attempt'', PDict (attempt_to_dict reuse_attempt)), (''runtime_fingerprint'', PStr ''f'')]),
        (''schema_version'', PStr ''1.0''), (''sha256'', PStr sample_sha)]))\<rparr>"

definition reuse_files :: files where
  "reuse_files = [[''r'', ''work'', ''a'', ''attempt-0001'', ''attempt.json''] \<mapsto> ''manifest'',
     [''r'', ''work'', ''a'', ''attempt-0001'', ''out.xv''] \<mapsto> ''X'']"

definition reuse_state :: sched where
  "reuse_state = demo_start\<lparr>records := [(''a'', demo_completed), (''b'', demo_record)]\<rparr>"


end
