(* ===== verification/Capabilities.thy ===== *)
theory Capabilities
  imports WorkflowLock AttemptFiles
begin

text \<open>
  The capabilities a runtime is composed of: the registrations of
  \<open>src/qraft/execution/capability_plugins.py\<close>, the generic command capability of
  \<open>execution/command_capability.py\<close>, and what \<open>CompiledWorkflowRuntime\<close> asks of the registry
  (\<open>_resolve_executable_capability\<close>, \<open>_capability_provenance\<close>, \<open>runtime_fingerprint\<close>).
\<close>

section \<open>The built-in capabilities\<close>

text \<open>The implementing classes and the methods their bodies define.\<close>

datatype builtin =
    SiestaEngineAdapter | SiestaRelaxationCapability | SiestaBandsCapability | SiestaDosCapability
  | SiestaPdosCapability | GenericCommandCapability

definition siesta_methods :: "string list" where
  "siesta_methods = [''inspect_input'', ''select_primary_input'', ''mutable_input_names'',
     ''validate_consumed_inputs'', ''validate_input'', ''prepare_task'', ''build_command'', ''parse_output'',
     ''discover_artifacts'', ''classify_result'']"

fun builtin_has :: "builtin \<Rightarrow> string \<Rightarrow> bool" where
  "builtin_has GenericCommandCapability m =
     (m \<in> set [''select_primary_input'', ''inspect_input'', ''validate_input'', ''prepare_task'',
        ''build_command'', ''parse_output'', ''discover_artifacts'', ''classify_result''])"
| "builtin_has _ m = (m \<in> set siesta_methods)"

definition qraft_descriptor ::
  "(rat \<Rightarrow> string) \<Rightarrow> string \<Rightarrow> capability_kind \<Rightarrow> string option \<Rightarrow> pyval dict \<Rightarrow> capability_descriptor res" where
  "qraft_descriptor fr cid kind engine metadata =
     capability_descriptor fr cid kind ''1.0.0'' [execution_request_ref] [execution_evidence_ref] engine metadata"

definition qraft_plugin :: "string \<Rightarrow> capability_descriptor list \<Rightarrow> plugin_descriptor res" where
  "qraft_plugin pid ds = plugin_descriptor pid ''1.0.0'' core_contract_version ds ''QRAFT'' []"

text \<open>\<open>registry.register\<close>, whose exception leaves the function.\<close>

definition register_or_raise ::
  "plugin_descriptor \<Rightarrow> builtin dict \<Rightarrow> builtin registry \<Rightarrow> builtin registry res" where
  "register_or_raise p impls reg =
     (case register_plugin builtin_has p impls reg of (Some e, _) \<Rightarrow> Inl e | (None, reg') \<Rightarrow> Inr reg')"

definition register_siesta_engine :: "(rat \<Rightarrow> string) \<Rightarrow> builtin registry \<Rightarrow> builtin registry res" where
  "register_siesta_engine fr reg =
     rbind (qraft_descriptor fr ''siestaflow.engine.siesta'' ENGINE (Some ''siesta'') []) (\<lambda>d.
     rbind (qraft_plugin ''siestaflow.plugin.siesta-engine'' [d]) (\<lambda>p.
       register_or_raise p [(cd_id d, SiestaEngineAdapter)] reg))"

definition register_siesta_relax :: "(rat \<Rightarrow> string) \<Rightarrow> builtin registry \<Rightarrow> builtin registry res" where
  "register_siesta_relax fr reg =
     rbind (qraft_descriptor fr ''qraft.siesta.relax'' ENGINE (Some ''siesta'')
       [(''scientific_operation'', PStr ''relaxation''), (''geometry_artifact_type'', PStr ''qraft.geometry''),
        (''fixed_cell'', PBool True)]) (\<lambda>d.
     rbind (qraft_plugin ''qraft.plugin.siesta-relax'' [d]) (\<lambda>p.
       register_or_raise p [(cd_id d, SiestaRelaxationCapability)] reg))"

definition property_descriptor :: "(rat \<Rightarrow> string) \<Rightarrow> string \<times> string \<Rightarrow> capability_descriptor res" where
  "property_descriptor fr q =
     qraft_descriptor fr (fst q) ENGINE (Some ''siesta'')
       [(''scientific_operation'', PStr (snd q)), (''parent_artifact_type'', PStr ''qraft.electronic-state'')]"

definition register_siesta_electronic_properties ::
  "(rat \<Rightarrow> string) \<Rightarrow> builtin registry \<Rightarrow> builtin registry res" where
  "register_siesta_electronic_properties fr reg =
     rbind (map_res (property_descriptor fr) [(''qraft.siesta.bands'', ''bands''),
         (''qraft.siesta.dos'', ''dos''), (''qraft.siesta.pdos'', ''pdos'')]) (\<lambda>ds.
     rbind (qraft_plugin ''qraft.plugin.siesta-electronic-properties'' ds) (\<lambda>p.
       register_or_raise p [(cd_id (ds ! 0), SiestaBandsCapability), (cd_id (ds ! 1), SiestaDosCapability),
         (cd_id (ds ! 2), SiestaPdosCapability)] reg))"

definition register_generic_command :: "(rat \<Rightarrow> string) \<Rightarrow> builtin registry \<Rightarrow> builtin registry res" where
  "register_generic_command fr reg =
     rbind (qraft_descriptor fr ''qraft.runtime.command'' EXECUTABLE None
       [(''scientific_semantics'', PBool False)]) (\<lambda>d.
     rbind (qraft_plugin ''qraft.plugin.generic-command'' [d]) (\<lambda>p.
       register_or_raise p [(cd_id d, GenericCommandCapability)] reg))"

section \<open>What the runtime asks of the registry\<close>

definition resolve_executable_capability ::
  "('i \<Rightarrow> string \<Rightarrow> bool) \<Rightarrow> 'i registry \<Rightarrow> task_node \<Rightarrow> 'i registered_capability res" where
  "resolve_executable_capability has reg t =
     rbind (resolve_capability reg (node_capability t) [execution_request_ref] [execution_evidence_ref]) (\<lambda>c.
       let missing = missing_methods has (rc_implementation c) executable_methods in
       if missing \<noteq> []
       then Inl (TypeError (''runtime capability lacks executable contract methods: '' @ repr_strs missing))
       else Inr c)"

definition task_provenance :: "'i registry \<Rightarrow> task_node \<Rightarrow> (string \<times> pyval) res" where
  "task_provenance reg t =
     (case resolve_capability reg (node_capability t) [] [] of
        Inl (KeyError _) \<Rightarrow> Inr (node_id t, PDict [(''capability_id'', PStr (node_capability t))])
      | Inl e \<Rightarrow> Inl e
      | Inr c \<Rightarrow> Inr (node_id t, PDict
          [(''capability_id'', PStr (cd_id (rc_descriptor c))),
           (''implementation_version'', PStr (cd_version (rc_descriptor c))),
           (''plugin_id'', PStr (pd_id (rc_plugin c))),
           (''plugin_version'', PStr (pd_version (rc_plugin c)))]))"

text \<open>The task ids of a compiled workflow are distinct, so the dictionary is the list of its items.\<close>

definition capability_provenance :: "'i registry \<Rightarrow> compiled_workflow \<Rightarrow> pyval dict res" where
  "capability_provenance reg w = map_res (task_provenance reg) (sort_key node_id (wf_tasks w))"

definition fingerprints :: "('v \<Rightarrow> string) \<Rightarrow> 'v dict \<Rightarrow> pyval" where
  "fingerprints f d = PDict (map (\<lambda>(k, v). (k, PStr (f v))) (sort_key fst d))"

definition fingerprint_payload ::
  "pyval \<Rightarrow> pyval \<Rightarrow> pyval \<Rightarrow> pyval dict \<Rightarrow> controller_reservation dict \<Rightarrow> pyval dict" where
  "fingerprint_payload workflow science execution provenance reservations =
     [(''workflow'', workflow), (''scientific'', science), (''execution'', execution),
      (''capability_provenance'', PDict provenance)] @
     (if reservations = [] then []
      else [(''controller_reservations'',
             PDict (map (\<lambda>(k, v). (k, PDict (reservation_to_mapping v))) (sort_key fst reservations)))])"

definition fingerprint_value ::
  "(rat \<Rightarrow> string) \<Rightarrow> (string \<Rightarrow> string) \<Rightarrow> 'i registry \<Rightarrow> compiled_workflow \<Rightarrow> scientific_identity dict \<Rightarrow>
   execution_spec dict \<Rightarrow> controller_reservation dict \<Rightarrow> pyval dict res" where
  "fingerprint_value fr sha reg w science specs reservations =
     rbind (workflow_payload w) (\<lambda>p.
     rbind (capability_provenance reg w) (\<lambda>provenance.
       Inr (fingerprint_payload p (fingerprints (identity_fingerprint fr sha) science)
              (fingerprints (spec_fingerprint fr sha) specs) provenance reservations)))"

definition runtime_fingerprint ::
  "(rat \<Rightarrow> string) \<Rightarrow> (string \<Rightarrow> string) \<Rightarrow> 'i registry \<Rightarrow> compiled_workflow \<Rightarrow> scientific_identity dict \<Rightarrow>
   execution_spec dict \<Rightarrow> controller_reservation dict \<Rightarrow> string res" where
  "runtime_fingerprint fr sha reg w science specs reservations =
     rbind (fingerprint_value fr sha reg w science specs reservations) (\<lambda>v. Inr (digest_of fr sha v))"

section \<open>The generic command capability\<close>

definition path_text :: "path \<Rightarrow> string" where
  "path_text p = CHR ''/'' # join_with CHR ''/'' p"

definition command_primary_input :: "(rat \<Rightarrow> string) \<Rightarrow> path dict \<Rightarrow> pyval dict \<Rightarrow> string res" where
  "command_primary_input fr inputs settings =
     (let selected = py_str fr (field_or (PStr []) settings ''primary_input'') in
      if selected = [] \<or> selected \<notin> set (map fst inputs)
      then Inl (ValueError ''generic command requires an explicit primary_input'')
      else Inr selected)"

definition command_inspect :: "files \<Rightarrow> path \<Rightarrow> path res" where
  "command_inspect fs p =
     (case fs p of
        None \<Rightarrow> Inl (ValueError (''command input is missing: '' @ path_text p))
      | Some _ \<Rightarrow> Inr p)"

definition command_validate :: "path \<Rightarrow> technical_validation res" where
  "command_validate p =
     technical_validation ''PASS'' ''COMMAND_INPUT_PRESENT'' [PStr (''input present: '' @ last p)] []"

definition command_prepare :: "path \<Rightarrow> path \<Rightarrow> path res" where
  "command_prepare workspace p =
     (case relative_to (resolve_parts [] workspace) (resolve_parts [] p) of
        None \<Rightarrow> Inl (ValueError ''prepared command input escapes attempt workspace'')
      | Some _ \<Rightarrow> Inr p)"

definition command_argv :: "(rat \<Rightarrow> string) \<Rightarrow> pyval dict \<Rightarrow> string list res" where
  "command_argv fr settings =
     (case field_or (PList []) settings ''command'' of
        PList (x # xs) \<Rightarrow>
          (let command = map (py_str fr) (x # xs) in
           if list_ex (\<lambda>c. c = []) command
           then Inl (ValueError ''generic command argv contains an empty value'')
           else Inr command)
      | _ \<Rightarrow> Inl (ValueError ''generic command capability requires declared argv''))"

definition command_parse :: "string list \<Rightarrow> string \<Rightarrow> step_outcome \<Rightarrow> pyval dict" where
  "command_parse lines stderr out =
     [(''stdout'', PStr (concat lines)), (''stderr'', PStr stderr), (''exit_code'', PInt (so_exit_code out))]"

text \<open>\<open>workspace / text\<close>: an absolute text replaces the workspace.\<close>

definition join_path :: "path \<Rightarrow> string \<Rightarrow> path" where
  "join_path base text =
     resolve_parts [] (if text \<noteq> [] \<and> hd text = CHR ''/'' then path_parts text else base @ path_parts text)"

definition command_artifact :: "runtime_env \<Rightarrow> files \<Rightarrow> path \<Rightarrow> string \<Rightarrow> (string \<times> string) list" where
  "command_artifact env fs workspace relative =
     (case fs (join_path workspace relative) of None \<Rightarrow> [] | Some c \<Rightarrow> [(relative, rt_sha env c)])"

definition command_discover ::
  "runtime_env \<Rightarrow> files \<Rightarrow> path \<Rightarrow> pyval dict \<Rightarrow> (string \<times> string) list res" where
  "command_discover env fs workspace settings =
     rbind (py_tuple (field_or (PList []) settings ''declared_outputs'')) (\<lambda>declared.
       Inr (concat (map (\<lambda>v. command_artifact env fs workspace (py_str (rt_repr env) v)) declared)))"

definition command_classify :: "(rat \<Rightarrow> string) \<Rightarrow> pyval dict \<Rightarrow> technical_validation res" where
  "command_classify fr parsed =
     (let code = field_or PNone parsed ''exit_code''; passed = py_eq code (PInt 0) in
      technical_validation (if passed then ''PASS'' else ''FAIL'')
        (if passed then ''COMMAND_COMPLETED'' else ''COMMAND_FAILED'')
        [PStr (if passed then ''declared command exited successfully''
               else ''declared command exit code '' @ py_str fr code)]
        [(''exit_code'', code)])"

text \<open>A command attempt is judged by the exit code of its process and by nothing else.\<close>

lemma command_verdict:
  assumes "command_classify fr (command_parse lines stderr out) = Inr t" "judge_outcome out t = Inr (t', state)"
  shows "state = (if so_terminated out then ''INTERRUPTED'' else if so_exit_code out = 0 then ''COMPLETED'' else ''FAILED'')"
proof -
  have up: "py_upper ''PASS'' = ''PASS''" by code_simp
  have e: "field_or PNone (command_parse lines stderr out) ''exit_code'' = PInt (so_exit_code out)"
    by (simp add: command_parse_def field_or_def)
  have p: "tv_status t = ''PASS''" if "so_exit_code out = 0"
  proof -
    have "py_eq (PInt (so_exit_code out)) (PInt 0)" using that by simp
    with assms(1) e up show ?thesis
      by (simp only: command_classify_def Let_def technical_validation_def if_True)
        auto
  qed
  have c: "execution_state_of ''PASS'' = Inr ''COMPLETED''" by code_simp
  show ?thesis
  proof (cases "so_terminated out \<or> so_exit_code out \<noteq> 0")
    case True
    with assms(2) show ?thesis unfolding judge_outcome_def by (cases "so_terminated out") simp_all
  next
    case False
    with assms(2) p c show ?thesis unfolding judge_outcome_def by simp
  qed
qed

section \<open>The fingerprint identifies the plan\<close>

lemma sorted_fields:
  assumes "sort_keys (PDict d) = sort_keys (PDict e)" "dict_ok d" "dict_ok e"
  shows "map_option sort_keys (map_of d k) = map_option sort_keys (map_of e k)"
proof -
  have "map_of (sort_key fst (sort_items d)) k = map_of (sort_key fst (sort_items e)) k"
    using assms(1) by simp
  then show ?thesis
    using assms(2,3) by (simp add: sort_key_lookup sort_items_keys sort_items_lookup)
qed

lemma task_kind_value_inj: "task_kind_value a = task_kind_value b \<longleftrightarrow> a = b"
  by (cases a; cases b) simp_all

lemma kind_str_inj: "kind_str a = kind_str b \<longleftrightarrow> a = b"
  by (cases a; cases b) simp_all

lemma sort_keys_opt_val [simp]: "sort_keys (opt_val a) = opt_val a"
  by (cases a) (simp_all add: opt_val_def)

lemma opt_val_inj: "opt_val a = opt_val b \<longleftrightarrow> a = b"
  by (cases a; cases b) (simp_all add: opt_val_def)

lemma vals_ok: "dict_ok (binding_val b)" "dict_ok (port_val p)" "dict_ok (edge_val e)" "dict_ok (node_val n)"
  "dict_ok (workflow_val w)"
  by (simp_all add: binding_val_def port_val_def edge_val_def node_val_def workflow_val_def)

text \<open>A part of a value that two values with the same canonical text share.\<close>

lemma same_field:
  assumes "sort_keys (PDict d) = sort_keys (PDict e)" "dict_ok d" "dict_ok e"
    and "map_of d k = Some v" "map_of e k = Some w"
  shows "sort_keys v = sort_keys w"
  using sorted_fields [OF assms(1-3), of k] assms(4,5) by simp

lemma binding_val_inj:
  assumes "sort_keys (PDict (binding_val b)) = sort_keys (PDict (binding_val c))"
  shows "b = c"
proof -
  note f = sorted_fields [OF assms vals_ok(1) vals_ok(1)]
  have "in_name b = in_name c" using f [of "''name''"] by (simp add: binding_val_def)
  moreover have "in_destination b = in_destination c" using f [of "''destination''"] by (simp add: binding_val_def)
  moreover have "in_media_type b = in_media_type c" using f [of "''media_type''"] by (simp add: binding_val_def)
  moreover have "in_external b = in_external c"
    using f [of "''external_artifact_id''"] by (simp add: binding_val_def opt_val_inj)
  moreover have "in_source_task b = in_source_task c"
    using f [of "''source_task_id''"] by (simp add: binding_val_def opt_val_inj)
  moreover have "in_source_output b = in_source_output c"
    using f [of "''source_output_name''"] by (simp add: binding_val_def opt_val_inj)
  ultimately show ?thesis by simp
qed

lemma port_val_inj:
  assumes "sort_keys (PDict (port_val p)) = sort_keys (PDict (port_val q))"
  shows "p = q"
proof -
  note f = sorted_fields [OF assms vals_ok(2) vals_ok(2)]
  have "out_name p = out_name q" using f [of "''name''"] by (simp add: port_val_def)
  moreover have "out_path p = out_path q" using f [of "''relative_path''"] by (simp add: port_val_def)
  moreover have "out_artifact_type p = out_artifact_type q" using f [of "''artifact_type''"] by (simp add: port_val_def)
  moreover have "out_media_type p = out_media_type q" using f [of "''media_type''"] by (simp add: port_val_def)
  moreover have "out_required p = out_required q" using f [of "''required''"] by (simp add: port_val_def)
  ultimately show ?thesis by simp
qed

lemma edge_val_inj:
  assumes "sort_keys (PDict (edge_val d)) = sort_keys (PDict (edge_val e))"
  shows "d = e"
proof -
  note f = sorted_fields [OF assms vals_ok(3) vals_ok(3)]
  have "e_source d = e_source e" using f [of "''source_task_id''"] by (simp add: edge_val_def)
  moreover have "e_target d = e_target e" using f [of "''target_task_id''"] by (simp add: edge_val_def)
  moreover have "e_kind d = e_kind e" using f [of "''kind''"] by (simp add: edge_val_def kind_str_inj)
  moreover have "e_output d = e_output e" using f [of "''source_output_name''"] by (simp add: edge_val_def opt_val_inj)
  moreover have "e_input d = e_input e" using f [of "''target_input_name''"] by (simp add: edge_val_def opt_val_inj)
  ultimately show ?thesis by simp
qed

lemma map_same:
  assumes "map sort_keys (map (PDict \<circ> f) xs) = map sort_keys (map (PDict \<circ> f) ys)"
    and "\<And>x y. sort_keys (PDict (f x)) = sort_keys (PDict (f y)) \<Longrightarrow> g x = g y"
  shows "map g xs = map g ys"
proof (rule nth_equalityI)
  show len: "length (map g xs) = length (map g ys)"
    using arg_cong [OF assms(1), of length] by simp
  fix i assume i: "i < length (map g xs)"
  have "sort_keys (PDict (f (xs ! i))) = sort_keys (PDict (f (ys ! i)))"
    using arg_cong [OF assms(1), of "\<lambda>l. l ! i"] i len by (simp del: sort_keys.simps)
  from assms(2) [OF this] i len show "map g xs ! i = map g ys ! i" by simp
qed

text \<open>Everything of a task but its open mappings.\<close>

definition task_plan ::
  "task_node \<Rightarrow> string \<times> workflow_task_kind \<times> string \<times> string list \<times> input_binding list \<times> output_port list" where
  "task_plan n = (node_id n, node_kind n, node_capability n, node_dependencies n, node_inputs n, node_outputs n)"

lemma node_val_inj:
  assumes "sort_keys (PDict (node_val m)) = sort_keys (PDict (node_val n))"
  shows "task_plan m = task_plan n"
proof -
  note f = sorted_fields [OF assms vals_ok(4) vals_ok(4)]
  have "node_id m = node_id n" using f [of "''task_id''"] by (simp add: node_val_def)
  moreover have "node_kind m = node_kind n" using f [of "''kind''"] by (simp add: node_val_def task_kind_value_inj)
  moreover have "node_capability m = node_capability n" using f [of "''capability_id''"] by (simp add: node_val_def)
  moreover have "node_dependencies m = node_dependencies n"
    using f [of "''dependencies''"] by (simp add: node_val_def sort_all_map comp_def inj_map_eq_map inj_def)
  moreover have "map id (node_inputs m) = map id (node_inputs n)"
    by (rule map_same [of binding_val])
      (use f [of "''inputs''"] binding_val_inj in \<open>simp_all add: node_val_def sort_all_map\<close>)
  moreover have "map id (node_outputs m) = map id (node_outputs n)"
    by (rule map_same [of port_val])
      (use f [of "''outputs''"] port_val_inj in \<open>simp_all add: node_val_def sort_all_map\<close>)
  ultimately show ?thesis by (simp add: task_plan_def)
qed

lemma fingerprints_lookup:
  assumes "dict_ok d"
  shows "map_of (map (\<lambda>(k, v). (k, PStr (f v))) (sort_key fst d)) k = map_option (\<lambda>v. PStr (f v)) (map_of d k)"
  using sort_key_lookup [OF assms] by (simp add: map_of_map)

lemma fingerprints_same:
  assumes "sort_keys (fingerprints f d) = sort_keys (fingerprints f e)" "dict_ok d" "dict_ok e"
  shows "map_option f (map_of d k) = map_option f (map_of e k)"
proof -
  let ?x = "\<lambda>d. map (\<lambda>(k, v). (k, PStr (f v))) (sort_key fst d)"
  have ok: "dict_ok (?x d)" if "dict_ok d" for d
  proof -
    have "mset (map fst (sort_key fst d)) = mset (map fst d)" by simp
    with that have "dict_ok (sort_key fst d)" by (metis mset_eq_imp_distinct_iff)
    then show ?thesis by (simp add: comp_def case_prod_beta)
  qed
  from sorted_fields [OF assms(1) [unfolded fingerprints_def] ok [OF assms(2)] ok [OF assms(3)], of k]
  show ?thesis
    unfolding fingerprints_lookup [OF assms(2)] fingerprints_lookup [OF assms(3)]
    by (cases "map_of d k"; cases "map_of e k") simp_all
qed


section \<open>Concrete registries\<close>

theorem support_mapping_roundtrip_witness:
  "\<exists>s. capability_support [PStr ''GPU'', PStr ''CPU_2''] [SLURM, SSH_HOST] CANCEL_SCHEDULER NATIVE_VERIFIED
     [PStr ''tests/a.py''] (PStr ''1.0'') = Inr s \<and>
   support_from_mapping (\<lambda>_. []) (PDict (support_to_mapping s)) = Inr s"
proof -
  let ?c = "capability_support [PStr ''GPU'', PStr ''CPU_2''] [SLURM, SSH_HOST] CANCEL_SCHEDULER NATIVE_VERIFIED
     [PStr ''tests/a.py''] (PStr ''1.0'')"
  have "case ?c of Inl _ \<Rightarrow> False | Inr _ \<Rightarrow> True" by code_simp
  then obtain s where s: "?c = Inr s" by (auto split: sum.splits)
  from support_mapping_roundtrip [OF s] s show ?thesis by blast
qed

definition sample_descriptor :: capability_descriptor where
  "sample_descriptor = \<lparr>cd_id = ''siesta.scf'', cd_kind = EXECUTABLE, cd_version = ''1.0.0'',
     cd_inputs = [execution_request_ref], cd_outputs = [execution_evidence_ref], cd_engine = None,
     cd_metadata = []\<rparr>"

definition sample_plugin :: plugin_descriptor where
  "sample_plugin = \<lparr>pd_id = ''qraft.plugin.sample'', pd_version = ''1.0.0'', pd_core = core_contract_version,
     pd_capabilities = [sample_descriptor], pd_provider = ''QRAFT'', pd_metadata = []\<rparr>"

definition sample_events :: "builtin registry_event list" where
  "sample_events = [Register sample_plugin [(''siesta.scf'', GenericCommandCapability)], Freeze,
     Register sample_plugin [(''siesta.scf'', SiestaEngineAdapter)]]"

definition sample_registry :: "builtin registry" where
  "sample_registry = fold (registry_step builtin_has) sample_events (new_registry core_contract_version)"

theorem resolved_capability_sound_and_stable_witness:
  "\<exists>c. resolve_capability sample_registry ''siesta.scf'' [execution_request_ref] [] = Inr c \<and>
     rc_implementation c = GenericCommandCapability \<and>
     builtin_has (rc_implementation c) ''build_command''"
proof -
  have e: "list_all event_ok sample_events" by code_simp
  have "case resolve_capability sample_registry ''siesta.scf'' [execution_request_ref] [] of
      Inl _ \<Rightarrow> False | Inr c \<Rightarrow> cd_kind (rc_descriptor c) = EXECUTABLE \<and> rc_implementation c = GenericCommandCapability"
    by code_simp
  then obtain c where c: "resolve_capability sample_registry ''siesta.scf'' [execution_request_ref] [] = Inr c"
    "cd_kind (rc_descriptor c) = EXECUTABLE" "rc_implementation c = GenericCommandCapability"
    by (auto split: sum.splits)
  from resolved_capability_sound_and_stable [OF e c(1) [unfolded sample_registry_def]] c show ?thesis
    by (auto simp: executable_methods_def)
qed


lemma sample_registry_resolves:
  "\<exists>c. resolve_executable_capability builtin_has sample_registry
     (sample_node ''relax'' [] [] []) = Inr c \<and> rc_plugin c = sample_plugin"
proof -
  have "case resolve_executable_capability builtin_has sample_registry (sample_node ''relax'' [] [] []) of
      Inl _ \<Rightarrow> False | Inr c \<Rightarrow> rc_plugin c = sample_plugin"
    by code_simp
  then show ?thesis by (auto split: sum.splits)
qed


end
