(* ===== verification/Json.thy ===== *)
theory Json
  imports Serialization
begin

text \<open>
  Reading JSON: what \<open>json.loads\<close> of the standard library does with the options the code passes
  (\<open>parse_constant\<close> raising on \<open>NaN\<close> and the infinities, and an object hook). A text is a string of
  UTF-8 bytes and \<open>None\<close> is any exception of the reader; the callers turn every one into one error
  of their own. Not represented: rejecting bytes that are not UTF-8, the detection of UTF-16 and
  UTF-32, the recursion limit, the limit on the digits of an integer, and the rounding of a decimal
  number to a binary float. The main result is that the reader inverts the encoder.
\<close>

section \<open>Strings\<close>

definition json_space :: "char \<Rightarrow> bool" where
  "json_space c \<longleftrightarrow> c = CHR 32 \<or> c = CHR 9 \<or> c = CHR 10 \<or> c = CHR 13"

definition skip_space :: "string \<Rightarrow> string" where
  "skip_space s = dropWhile json_space s"

definition hex_value :: "char \<Rightarrow> nat option" where
  "hex_value c =
     (let n = (of_char c :: nat) in
      if 48 \<le> n \<and> n \<le> 57 then Some (n - 48)
      else if 97 \<le> n \<and> n \<le> 102 then Some (n - 87)
      else if 65 \<le> n \<and> n \<le> 70 then Some (n - 55)
      else None)"

text \<open>\<open>_decode_uXXXX\<close>: the value of four hexadecimal digits.\<close>

fun hex4 :: "string \<Rightarrow> (nat \<times> string) option" where
  "hex4 (a # b # c # d # r) =
     (case (hex_value a, hex_value b, hex_value c, hex_value d) of
        (Some w, Some x, Some y, Some z) \<Rightarrow> Some (w * 4096 + x * 256 + y * 16 + z, r)
      | _ \<Rightarrow> None)"
| "hex4 _ = None"

text \<open>The second half of a surrogate pair, when one follows.\<close>

definition low_half :: "string \<Rightarrow> (nat \<times> string) option" where
  "low_half s =
     (case s of
        b # u # r \<Rightarrow>
          if b = CHR 92 \<and> u = CHR ''u''
          then (case hex4 r of
                  Some (n, t) \<Rightarrow> if 56320 \<le> n \<and> n \<le> 57343 then Some (n, t) else None
                | None \<Rightarrow> None)
          else None
      | _ \<Rightarrow> None)"

definition utf8 :: "nat \<Rightarrow> string" where
  "utf8 n =
     (if n < 128 then [char_of n]
      else if n < 2048 then [char_of (192 + n div 64), char_of (128 + n mod 64)]
      else if n < 65536
      then [char_of (224 + n div 4096), char_of (128 + n div 64 mod 64), char_of (128 + n mod 64)]
      else [char_of (240 + n div 262144), char_of (128 + n div 4096 mod 64),
            char_of (128 + n div 64 mod 64), char_of (128 + n mod 64)])"

text \<open>What follows \<open>\u\<close>: a code unit, or the two halves of a pair.\<close>

definition scan_unicode :: "string \<Rightarrow> (string \<times> string) option" where
  "scan_unicode s =
     (case hex4 s of
        None \<Rightarrow> None
      | Some (n, r) \<Rightarrow>
          (case (if 55296 \<le> n \<and> n \<le> 56319 then low_half r else None) of
             Some (m, t) \<Rightarrow> Some (utf8 (65536 + (n - 55296) * 1024 + (m - 56320)), t)
           | None \<Rightarrow> Some (utf8 n, r)))"

definition unescape :: "char \<Rightarrow> string option" where
  "unescape c =
     (if c = CHR 34 \<or> c = CHR 92 \<or> c = CHR ''/'' then Some [c]
      else if c = CHR ''b'' then Some [CHR 8]
      else if c = CHR ''f'' then Some [CHR 12]
      else if c = CHR ''n'' then Some [CHR 10]
      else if c = CHR ''r'' then Some [CHR 13]
      else if c = CHR ''t'' then Some [CHR 9]
      else None)"

text \<open>One character of a string literal and the text after it; the closing quote is not one.\<close>

definition scan_char :: "char \<Rightarrow> string \<Rightarrow> (string \<times> string) option" where
  "scan_char c cs =
     (if c = CHR 92
      then (case cs of
              [] \<Rightarrow> None
            | e # ds \<Rightarrow>
                if e = CHR ''u'' then scan_unicode ds
                else (case unescape e of None \<Rightarrow> None | Some x \<Rightarrow> Some (x, ds)))
      else if (of_char c :: nat) < 32 then None
      else Some ([c], cs))"

lemma hex4_shorter: "hex4 s = Some (n, r) \<Longrightarrow> length r < length s"
  by (induction s rule: hex4.induct) (auto split: option.splits)

lemma low_half_shorter: "low_half s = Some (n, r) \<Longrightarrow> length r < length s"
  using hex4_shorter
  by (fastforce simp: low_half_def split: list.splits if_splits option.splits)

lemma scan_unicode_shorter: "scan_unicode s = Some (x, r) \<Longrightarrow> length r < length s"
  by (auto simp: scan_unicode_def dest!: hex4_shorter low_half_shorter split: option.splits if_splits)

lemma scan_char_shorter: "scan_char c cs = Some (x, r) \<Longrightarrow> length r \<le> length cs"
  by (auto simp: scan_char_def dest!: scan_unicode_shorter split: if_splits list.splits option.splits)

text \<open>The text after the opening quote.\<close>

function scan_string :: "string \<Rightarrow> (string \<times> string) option" where
  "scan_string [] = None"
| "scan_string (c # cs) =
     (if c = CHR 34 then Some ([], cs)
      else case scan_char c cs of
             None \<Rightarrow> None
           | Some (x, r) \<Rightarrow>
               (case scan_string r of None \<Rightarrow> None | Some (y, t) \<Rightarrow> Some (x @ y, t)))"
  by pat_completeness auto
termination
  by (relation "measure length") (auto dest: scan_char_shorter)

lemma scan_string_shorter: "scan_string s = Some (x, r) \<Longrightarrow> length r < length s"
proof (induction s arbitrary: x r rule: scan_string.induct)
  case (2 c cs)
  then show ?case
    by (fastforce split: if_splits option.splits dest: scan_char_shorter)
qed simp

section \<open>Numbers\<close>

text \<open>\<open>-?(?:0|[1-9][0-9]*)\<close>, the digits of the integer part.\<close>

definition scan_digits :: "string \<Rightarrow> (string \<times> string) option" where
  "scan_digits s =
     (case s of
        [] \<Rightarrow> None
      | c # cs \<Rightarrow>
          if c = CHR ''0'' then Some ([c], cs)
          else if is_digit c then Some (takeWhile is_digit s, dropWhile is_digit s)
          else None)"

text \<open>\<open>(\.[0-9]+)?\<close> and \<open>([eE][-+]?[0-9]+)?\<close>; what does not match is left in the text.\<close>

definition scan_fraction :: "string \<Rightarrow> string \<times> string" where
  "scan_fraction s =
     (case s of
        d # r \<Rightarrow>
          if d = CHR ''.'' \<and> takeWhile is_digit r \<noteq> []
          then (takeWhile is_digit r, dropWhile is_digit r) else ([], s)
      | [] \<Rightarrow> ([], s))"

definition scan_exponent :: "string \<Rightarrow> int option \<times> string" where
  "scan_exponent s =
     (case s of
        e # r \<Rightarrow>
          if e = CHR ''e'' \<or> e = CHR ''E''
          then (let (negative, t) =
                  (case r of
                     c # t \<Rightarrow> if c = CHR ''-'' then (True, t) else if c = CHR ''+'' then (False, t) else (False, r)
                   | [] \<Rightarrow> (False, r)) in
                if takeWhile is_digit t = [] then (None, s)
                else (Some ((if negative then -1 else 1) * dec_int (takeWhile is_digit t)),
                      dropWhile is_digit t))
          else (None, s)
      | [] \<Rightarrow> (None, s))"

definition ten_to :: "int \<Rightarrow> rat" where
  "ten_to e = (if 0 \<le> e then 10 ^ nat e else 1 / 10 ^ nat (- e))"

definition number_of :: "bool \<Rightarrow> string \<Rightarrow> string \<Rightarrow> int option \<Rightarrow> pyval" where
  "number_of negative digits fraction exponent =
     (if fraction = [] \<and> exponent = None
      then PInt ((if negative then -1 else 1) * dec_int digits)
      else PFloat ((if negative then -1 else 1) * of_int (dec_int (digits @ fraction)) *
             ten_to ((case exponent of None \<Rightarrow> 0 | Some e \<Rightarrow> e) - int (length fraction))))"

definition scan_number :: "string \<Rightarrow> (pyval \<times> string) option" where
  "scan_number s =
     (let (negative, t) = (case s of c # r \<Rightarrow> if c = CHR ''-'' then (True, r) else (False, s)
                                   | [] \<Rightarrow> (False, s)) in
      case scan_digits t of
        None \<Rightarrow> None
      | Some (digits, r) \<Rightarrow>
          (let (fraction, r1) = scan_fraction r; (exponent, r2) = scan_exponent r1 in
           Some (number_of negative digits fraction exponent, r2)))"

section \<open>Values\<close>

text \<open>
  The reader of the standard library, on the text from the first character of a value. The hook
  gets the pairs of an object in their order. The tests on lengths only tell Isabelle that the
  text shrinks: \<open>scan_value_shorter\<close> below shows that none of them fails.
\<close>

definition scan_literal :: "string \<Rightarrow> (pyval \<times> string) option" where
  "scan_literal s =
     (if take 4 s = ''null'' then Some (PNone, drop 4 s)
      else if take 4 s = ''true'' then Some (PBool True, drop 4 s)
      else if take 5 s = ''false'' then Some (PBool False, drop 5 s)
      else scan_number s)"

lemma skip_space_le: "length (skip_space s) \<le> length s"
  by (simp add: skip_space_def length_dropWhile_le)

function (sequential) scan_value ::
  "(pyval dict \<Rightarrow> pyval dict option) \<Rightarrow> string \<Rightarrow> (pyval \<times> string) option"
and scan_elems :: "(pyval dict \<Rightarrow> pyval dict option) \<Rightarrow> string \<Rightarrow> (pyval list \<times> string) option"
and scan_members :: "(pyval dict \<Rightarrow> pyval dict option) \<Rightarrow> string \<Rightarrow> (pyval dict \<times> string) option" where
  "scan_value h [] = None"
| "scan_value h (c # cs) =
     (if c = CHR 34
      then (case scan_string cs of None \<Rightarrow> None | Some (s, r) \<Rightarrow> Some (PStr s, r))
      else if c = CHR ''['' then
        (if take 1 (skip_space cs) = '']'' then Some (PList [], drop 1 (skip_space cs))
         else if length (skip_space cs) < length (c # cs)
         then (case scan_elems h (skip_space cs) of None \<Rightarrow> None | Some (xs, r) \<Rightarrow> Some (PList xs, r))
         else None)
      else if c = CHR ''{'' then
        (if take 1 (skip_space cs) = ''}''
         then (case h [] of None \<Rightarrow> None | Some d \<Rightarrow> Some (PDict d, drop 1 (skip_space cs)))
         else if length (skip_space cs) < length (c # cs)
         then (case scan_members h (skip_space cs) of
                 None \<Rightarrow> None
               | Some (ps, r) \<Rightarrow> (case h ps of None \<Rightarrow> None | Some d \<Rightarrow> Some (PDict d, r)))
         else None)
      else scan_literal (c # cs))"
| "scan_elems h s =
     (case scan_value h s of
        None \<Rightarrow> None
      | Some (v, r) \<Rightarrow>
          (case skip_space r of
             [] \<Rightarrow> None
           | e # t \<Rightarrow>
               if e = CHR '']'' then Some ([v], t)
               else if e = CHR '','' \<and> length (skip_space t) < length s
               then (case scan_elems h (skip_space t) of
                       None \<Rightarrow> None | Some (vs, u) \<Rightarrow> Some (v # vs, u))
               else None))"
| "scan_members h [] = None"
| "scan_members h (q # s) =
     (if q \<noteq> CHR 34 then None
      else case scan_string s of
        None \<Rightarrow> None
      | Some (k, r) \<Rightarrow>
          (case skip_space r of
             [] \<Rightarrow> None
           | e # t \<Rightarrow>
               if e = CHR '':'' \<and> length (skip_space t) < length (q # s)
               then (case scan_value h (skip_space t) of
                 None \<Rightarrow> None
               | Some (v, u) \<Rightarrow>
                   (case skip_space u of
                      [] \<Rightarrow> None
                    | f # w \<Rightarrow>
                        if f = CHR ''}'' then Some ([(k, v)], w)
                        else if f = CHR '','' \<and> length (skip_space w) < length (q # s)
                        then (case scan_members h (skip_space w) of
                                None \<Rightarrow> None | Some (ps, z) \<Rightarrow> Some ((k, v) # ps, z))
                        else None))
               else None))"
  by pat_completeness auto
termination
  by (relation "measures [\<lambda>x. case x of Inl (h, s) \<Rightarrow> length s
        | Inr (Inl (h, s)) \<Rightarrow> length s | Inr (Inr (h, s)) \<Rightarrow> length s,
      \<lambda>x. case x of Inl _ \<Rightarrow> 0 | Inr _ \<Rightarrow> 1]") auto

text \<open>Without an object hook a repeated key keeps its first place and its last value.\<close>

definition pairs_to_dict :: "pyval dict \<Rightarrow> pyval dict option" where
  "pairs_to_dict ps = Some (fold (\<lambda>(k, v). AList.update k v) ps [])"

definition json_loads :: "(pyval dict \<Rightarrow> pyval dict option) \<Rightarrow> string \<Rightarrow> pyval option" where
  "json_loads h s =
     (case scan_value h (skip_space s) of
        Some (v, r) \<Rightarrow> if skip_space r = [] then Some v else None
      | None \<Rightarrow> None)"

section \<open>The reader never stops short\<close>

lemma drop_shorter: "take n s = x # xs \<Longrightarrow> 0 < n \<Longrightarrow> length (drop n s) < length s"
  by (cases s) auto

lemma scan_number_shorter: "scan_number s = Some (v, r) \<Longrightarrow> length r < length s"
proof -
  have d: "length r1 < length t" if "scan_digits t = Some (ds, r1)" for t ds r1
    using that by (cases t) (auto simp: scan_digits_def intro: le_imp_less_Suc length_dropWhile_le split: if_splits)
  have f: "length (snd (scan_fraction t)) \<le> length t" for t
    by (cases t) (auto simp: scan_fraction_def intro: le_SucI length_dropWhile_le)
  have e: "length (snd (scan_exponent t)) \<le> length t" for t
    by (cases t) (auto simp: scan_exponent_def Let_def split: list.splits
        intro!: le_SucI length_dropWhile_le)
  assume s: "scan_number s = Some (v, r)"
  define t where "t = (case s of c # r \<Rightarrow> if c = CHR ''-'' then r else s | [] \<Rightarrow> s)"
  obtain ds r1 where 1: "scan_digits t = Some (ds, r1)" "r = snd (scan_exponent (snd (scan_fraction r1)))"
    using s by (cases s) (auto simp: scan_number_def t_def Let_def split: if_splits option.splits prod.splits)
  have "length t \<le> length s" by (cases s) (auto simp: t_def)
  with d [OF 1(1)] e [of "snd (scan_fraction r1)"] f [of r1] 1(2) show ?thesis by simp
qed

lemma scan_literal_shorter: "scan_literal s = Some (v, r) \<Longrightarrow> length r < length s"
  using scan_number_shorter [of s v r]
  by (auto simp: scan_literal_def dest: drop_shorter split: if_splits)

lemma skip_space_Cons: "skip_space s = c # r \<Longrightarrow> length r < length s"
  using skip_space_le [of s] by simp

lemma scan_value_shorter:
  "scan_value h s = Some (v, r) \<Longrightarrow> length r < length s"
  "scan_elems h s = Some (xs, r) \<Longrightarrow> length r < length s"
  "scan_members h s = Some (ps, r) \<Longrightarrow> length r < length s"
proof (induction h s and h s and h s arbitrary: v r and xs r and ps r
    rule: scan_value_scan_elems_scan_members.induct)
  case (2 h c cs)
  have sp: "length (skip_space cs) \<le> length cs" by (rule skip_space_le)
  consider (quote) "c = CHR 34" | (list) "c = CHR ''[''" | (object) "c = CHR ''{''"
    | (other) "c \<noteq> CHR 34" "c \<noteq> CHR ''[''" "c \<noteq> CHR ''{''" by blast
  then show ?case
  proof cases
    case quote
    with 2(3) show ?thesis by (auto split: option.splits dest: scan_string_shorter)
  next
    case list
    with 2(3) 2(1) sp show ?thesis by (auto split: if_splits option.splits)
  next
    case object
    with 2(3) 2(2) sp show ?thesis by (auto split: if_splits option.splits)
  next
    case other
    with 2(3) show ?thesis by (auto dest: scan_literal_shorter)
  qed
next
  case (3 h s)
  obtain v r1 where v: "scan_value h s = Some (v, r1)" using 3(3) by (auto split: option.splits)
  then have l1: "length r1 < length s" by (rule 3(1))
  obtain e t where e: "skip_space r1 = e # t" using 3(3) v by (auto split: list.splits)
  then have l2: "length t < length s" using skip_space_Cons l1 by fastforce
  show ?case
  proof (cases "e = CHR '']''")
    case True
    with 3(3) v e l2 show ?thesis by simp
  next
    case False
    with 3(3) v e obtain vs where c: "e = CHR '',''" "length (skip_space t) < length s"
      "scan_elems h (skip_space t) = Some (vs, r)" by (auto split: if_splits option.splits)
    from 3(2) [OF v _ e False _ c(3)] c(1,2) have "length r < length (skip_space t)" by simp
    with c(2) show ?thesis by simp
  qed
next
  case (5 h q s)
  obtain k r1 where k: "q = CHR 34" "scan_string s = Some (k, r1)" using 5(3) by (auto split: option.splits if_splits)
  obtain e t where e: "skip_space r1 = e # t" using 5(3) k by (auto split: list.splits)
  obtain v u where v: "e = CHR '':''" "length (skip_space t) < length (q # s)"
    "scan_value h (skip_space t) = Some (v, u)" using 5(3) k e by (auto split: if_splits option.splits)
  have lu: "length u < length (skip_space t)" by (rule 5(1)) (use k e v in simp_all)
  obtain f w where f: "skip_space u = f # w" using 5(3) k e v by (auto split: list.splits)
  have lw: "length w < length u" using f by (rule skip_space_Cons)
  show ?case
  proof (cases "f = CHR ''}''")
    case True
    with 5(3) k e v f lu lw show ?thesis by simp
  next
    case False
    with 5(3) k e v f obtain ps where c: "f = CHR '',''" "length (skip_space w) < length (q # s)"
      "scan_members h (skip_space w) = Some (ps, r)" by (auto split: if_splits option.splits)
    have "length r < length (skip_space w)" by (rule 5(2)) (use k e v f False c in simp_all)
    with c(2) show ?thesis by simp
  qed
qed simp_all

text \<open>So the tests on lengths drop out of the equations.\<close>

lemma scan_elems_simp:
  "scan_elems h s =
     (case scan_value h s of
        None \<Rightarrow> None
      | Some (v, r) \<Rightarrow>
          (case skip_space r of
             [] \<Rightarrow> None
           | e # t \<Rightarrow>
               if e = CHR '']'' then Some ([v], t)
               else if e = CHR '',''
               then (case scan_elems h (skip_space t) of
                       None \<Rightarrow> None | Some (vs, u) \<Rightarrow> Some (v # vs, u))
               else None))"
proof -
  have "length (skip_space t) < length s" if "scan_value h s = Some (v, r)" "skip_space r = e # t" for v r e t
    using scan_value_shorter(1) [OF that(1)] skip_space_Cons [OF that(2)] skip_space_le [of t] by simp
  then show ?thesis
    by (subst scan_elems.simps) (simp split: option.split prod.split list.split)
qed

lemma scan_members_simp:
  "scan_members h (CHR 34 # s) =
     (case scan_string s of
        None \<Rightarrow> None
      | Some (k, r) \<Rightarrow>
          (case skip_space r of
             [] \<Rightarrow> None
           | e # t \<Rightarrow>
               if e = CHR '':''
               then (case scan_value h (skip_space t) of
                 None \<Rightarrow> None
               | Some (v, u) \<Rightarrow>
                   (case skip_space u of
                      [] \<Rightarrow> None
                    | f # w \<Rightarrow>
                        if f = CHR ''}'' then Some ([(k, v)], w)
                        else if f = CHR '',''
                        then (case scan_members h (skip_space w) of
                                None \<Rightarrow> None | Some (ps, z) \<Rightarrow> Some ((k, v) # ps, z))
                        else None))
               else None))"
proof -
  have t: "length (skip_space t) < Suc (length s)" if "scan_string s = Some (k, r)" "skip_space r = e # t" for k r e t
    using scan_string_shorter [OF that(1)] skip_space_Cons [OF that(2)] skip_space_le [of t] by simp
  have w: "length (skip_space w) < Suc (length s)"
    if "scan_string s = Some (k, r)" "skip_space r = e # t" "scan_value h (skip_space t) = Some (v, u)"
      "skip_space u = f # w" for k r e t v u f w
    using t [OF that(1,2)] scan_value_shorter(1) [OF that(3)] skip_space_Cons [OF that(4)] skip_space_le [of w]
    by simp
  show ?thesis
    by (subst scan_members.simps) (simp add: t w split: option.split prod.split list.split)
qed

section \<open>The reader inverts the encoder\<close>

lemma hex_value_char [simp]: "n < 16 \<Longrightarrow> hex_value (hex_char n) = Some n"
proof -
  have "\<forall>n \<in> set [0..<16]. hex_value (hex_char n) = Some n" by code_simp
  then show "n < 16 \<Longrightarrow> hex_value (hex_char n) = Some n" by simp
qed

lemma scan_char_escape:
  "\<exists>e es. json_escape c = e # es \<and> e \<noteq> CHR 34 \<and> scan_char e (es @ r) = Some ([c], r)"
proof -
  have z: "hex_value CHR ''0'' = Some 0" by code_simp
  have u: "scan_char CHR 92 (CHR ''u'' # CHR ''0'' # CHR ''0'' # hex_char (n div 16) # hex_char (n mod 16) # r)
      = Some ([c], r)" if "n = of_char c" "n < 32" for n :: nat
  proof -
    have "n div 16 < 16" "n mod 16 < 16" "n div 16 * 16 + n mod 16 = n" using that(2) by simp_all
    with that z show ?thesis by (simp add: scan_char_def scan_unicode_def utf8_def)
  qed
  show ?thesis
    using u [of "of_char c"] by (auto simp: json_escape_def scan_char_def unescape_def)
qed

lemma scan_string_text: "scan_string (concat (map json_escape s) @ CHR 34 # r) = Some (s, r)"
proof (induction s)
  case (Cons c s)
  obtain e es where e: "json_escape c = e # es" "e \<noteq> CHR 34"
      "scan_char e (es @ concat (map json_escape s) @ CHR 34 # r) =
         Some ([c], concat (map json_escape s) @ CHR 34 # r)"
    using scan_char_escape by blast
  with Cons show ?case by simp
qed simp

text \<open>Where a value may end: at the end of the text, at a blank, or where the container goes on.\<close>

definition json_stop :: "string \<Rightarrow> bool" where
  "json_stop r \<longleftrightarrow> r = [] \<or> json_space (hd r) \<or> hd r \<in> set '',]}''"

lemma json_stop_simps [simp]:
  "json_stop []" "json_stop (CHR '','' # r)" "json_stop (CHR '']'' # r)" "json_stop (CHR ''}'' # r)"
  "json_stop (CHR 10 # r)"
  by (simp_all add: json_stop_def json_space_def)

lemma json_stop_char:
  assumes "json_stop (c # r)"
  shows "\<not> is_digit c" "c \<noteq> CHR ''.''" "c \<noteq> CHR ''e''" "c \<noteq> CHR ''E''"
proof -
  have "c \<in> set [CHR 32, CHR 9, CHR 10, CHR 13, CHR '','', CHR '']'', CHR ''}'']"
    using assms by (auto simp: json_stop_def json_space_def)
  moreover have "\<forall>c \<in> set [CHR 32, CHR 9, CHR 10, CHR 13, CHR '','', CHR '']'', CHR ''}''].
      \<not> is_digit c \<and> c \<noteq> CHR ''.'' \<and> c \<noteq> CHR ''e'' \<and> c \<noteq> CHR ''E''" by code_simp
  ultimately show "\<not> is_digit c" "c \<noteq> CHR ''.''" "c \<noteq> CHR ''e''" "c \<noteq> CHR ''E''" by blast+
qed

lemma scan_digits_nat:
  assumes "json_stop r"
  shows "scan_digits (nat_str n @ r) = Some (nat_str n, r)"
proof -
  obtain c cs where c: "nat_str n = c # cs" using nat_str_nonempty by (cases "nat_str n") auto
  have d: "\<forall>x \<in> set (c # cs). is_digit x" using nat_str_digits [of n] c by simp
  have "takeWhile is_digit r = []" "dropWhile is_digit r = r"
    using assms by (cases r; simp add: json_stop_char)+
  moreover have "takeWhile is_digit ((c # cs) @ r) = (c # cs) @ takeWhile is_digit r"
    by (rule takeWhile_append2) (use d in blast)
  moreover have "dropWhile is_digit ((c # cs) @ r) = dropWhile is_digit r"
    by (rule dropWhile_append2) (use d in blast)
  ultimately have t: "takeWhile is_digit ((c # cs) @ r) = c # cs" "dropWhile is_digit ((c # cs) @ r) = r"
    by simp_all
  show ?thesis
  proof (cases "n = 0")
    case True
    have "nat_str 0 = ''0''" by code_simp
    with True show ?thesis by (simp add: scan_digits_def)
  next
    case False
    with nat_str_head [of n] c have "c \<noteq> CHR ''0''" by simp
    with c d t show ?thesis by (simp add: scan_digits_def)
  qed
qed

lemma scan_number_int:
  assumes "json_stop r"
  shows "scan_number (int_str n @ r) = Some (PInt n, r)"
proof -
  have f: "scan_fraction r = ([], r)" "scan_exponent r = (None, r)"
    using assms by (cases r; simp add: scan_fraction_def scan_exponent_def json_stop_char)+
  have v: "dec_int (nat_str m) = int m" for m by (simp add: dec_int_dec_val)
  show ?thesis
  proof (cases "n < 0")
    case True
    with f v scan_digits_nat [OF assms] show ?thesis
      by (simp add: scan_number_def int_str_def number_of_def)
  next
    case False
    obtain c cs where c: "nat_str (nat n) = c # cs" using nat_str_nonempty by (cases "nat_str (nat n)") auto
    have "\<not> is_digit CHR ''-''" by code_simp
    with nat_str_digits [of "nat n"] c have "c \<noteq> CHR ''-''" by auto
    with False c f v [of "nat n"] scan_digits_nat [OF assms, of "nat n"] show ?thesis
      by (simp add: scan_number_def int_str_def number_of_def)
  qed
qed

text \<open>What \<open>repr\<close> promises of the floats that occur: reading it back gives the number.\<close>

definition float_reads :: "(rat \<Rightarrow> string) \<Rightarrow> rat set \<Rightarrow> bool" where
  "float_reads fr F \<longleftrightarrow> (\<forall>q \<in> F. \<forall>r. json_stop r \<longrightarrow> scan_literal (fr q @ r) = Some (PFloat q, r))"

text \<open>What the reader sees first of the text of a value is not blank and not a bracket that closes.\<close>

lemma json_head:
  assumes "float_repr_ok fr F" "floats_in F v"
  obtains c cs where "json_text fr v = c # cs" "\<not> json_space c" "c \<noteq> CHR '']''" "c \<noteq> CHR ''}''"
proof -
  obtain c cs where c: "json_text fr v = c # cs" "head_kind c = value_kind v"
    using json_text_head [OF assms] by (cases "json_text fr v") auto
  have h: "head_kind x = 6" if "x \<in> set [CHR 32, CHR 9, CHR 10, CHR 13, CHR '']'', CHR ''}'']" for x
  proof -
    have "\<forall>x \<in> set [CHR 32, CHR 9, CHR 10, CHR 13, CHR '']'', CHR ''}'']. head_kind x = 6" by code_simp
    with that show ?thesis by blast
  qed
  have "c \<notin> set [CHR 32, CHR 9, CHR 10, CHR 13, CHR '']'', CHR ''}'']"
  proof
    assume x: "c \<in> set [CHR 32, CHR 9, CHR 10, CHR 13, CHR '']'', CHR ''}'']"
    with h c(2) obtain d where "v = PDict d" by (cases v) (auto split: if_splits)
    with c(1) x show False by auto
  qed
  then show ?thesis using that [OF c(1)] by (auto simp: json_space_def)
qed

declare scan_elems.simps [simp del]

lemma scan_literal_number:
  assumes "is_digit c \<or> c = CHR ''-''"
  shows "scan_literal (c # cs) = scan_number (c # cs)"
proof -
  have "c \<noteq> CHR ''n''" "c \<noteq> CHR ''t''" "c \<noteq> CHR ''f''" using assms is_digit_consts by auto
  then show ?thesis by (simp add: scan_literal_def)
qed

lemma scan_value_literal:
  assumes "head_kind c \<le> 3"
  shows "scan_value h (c # cs) = scan_literal (c # cs)"
proof -
  have "head_kind CHR 34 = 4" "head_kind CHR ''['' = 5" "head_kind CHR ''{'' = 6" by code_simp+
  with assms have "c \<noteq> CHR 34" "c \<noteq> CHR ''[''" "c \<noteq> CHR ''{''" by auto
  then show ?thesis by simp
qed

lemma skip_space_stop [simp]: "\<not> json_space c \<Longrightarrow> skip_space (c # r) = c # r"
  by (simp add: skip_space_def)

lemma not_space [simp]:
  "\<not> json_space CHR '',''" "\<not> json_space CHR '']''" "\<not> json_space CHR ''}''" "\<not> json_space CHR '':''"
  "\<not> json_space CHR 34" "\<not> json_space CHR ''{''" "\<not> json_space CHR ''[''"
  by (simp_all add: json_space_def)

lemma scan_value_text:
  shows "float_repr_ok fr F \<Longrightarrow> float_reads fr F \<Longrightarrow> (\<And>ps. dict_ok ps \<Longrightarrow> h ps = Some ps) \<Longrightarrow>
      floats_in F v \<Longrightarrow> dicts_ok v \<Longrightarrow> json_stop r \<Longrightarrow> scan_value h (json_text fr v @ r) = Some (v, r)"
    and "float_repr_ok fr F \<Longrightarrow> float_reads fr F \<Longrightarrow> (\<And>ps. dict_ok ps \<Longrightarrow> h ps = Some ps) \<Longrightarrow>
      floats_all F xs \<Longrightarrow> dicts_ok_list xs \<Longrightarrow> xs \<noteq> [] \<Longrightarrow> scan_elems h (json_elems fr xs @ r) = Some (xs, r)"
    and "float_repr_ok fr F \<Longrightarrow> float_reads fr F \<Longrightarrow> (\<And>ps. dict_ok ps \<Longrightarrow> h ps = Some ps) \<Longrightarrow>
      floats_items F d \<Longrightarrow> dicts_ok_items d \<Longrightarrow> d \<noteq> [] \<Longrightarrow>
      scan_members h (json_pairs fr d @ r) = Some (d, r)"
proof (induction fr v and fr xs and fr d arbitrary: r and r and r
    rule: json_text_json_elems_json_pairs.induct)
  case (1 fr)
  show ?case by (simp add: scan_literal_def)
next
  case (2 fr b)
  show ?case by (simp add: scan_literal_def)
next
  case (3 fr n)
  obtain c cs where c: "int_str n = c # cs" "is_digit c \<or> c = CHR ''-''"
    using int_str_head [of n] json_text_head [OF 3(1), of "PInt n"] by (cases "int_str n") auto
  with 3(6) scan_number_int [of r n] show ?case
    by (simp add: scan_value_literal scan_literal_number head_kind_number del: scan_value.simps)
next
  case (4 fr q)
  then have q: "q \<in> F" by simp
  obtain c cs where c: "fr q = c # cs" "is_digit c \<or> c = CHR ''-''"
    using 4(1) q by (cases "fr q") (auto simp: float_repr_ok_def)
  have "scan_literal (fr q @ r) = Some (PFloat q, r)" using 4(2,6) q by (simp add: float_reads_def)
  with c show ?case by (simp add: scan_value_literal head_kind_number del: scan_value.simps)
next
  case (5 fr s)
  then show ?case by (simp add: json_string_def scan_string_text)
next
  case (6 fr xs)
  show ?case
  proof (cases xs)
    case Nil
    then show ?thesis by simp
  next
    case (Cons x ys)
    with 6 have e: "scan_elems h (json_elems fr xs @ r) = Some (xs, r)" by simp
    have "floats_in F x" using 6(5) Cons by simp
    from json_head [OF 6(2) this] obtain c cs where c: "json_text fr x = c # cs" "\<not> json_space c" "c \<noteq> CHR '']''" .
    then obtain t where "json_elems fr xs @ r = c # t" using Cons by simp
    with e c show ?thesis by simp
  qed
next
  case (7 fr d)
  show ?case
  proof (cases d)
    case Nil
    with 7(4) [of "[]"] show ?thesis by simp
  next
    case (Cons p e)
    with 7 have e: "scan_members h (json_pairs fr d @ r) = Some (d, r)" by simp
    obtain t where t: "json_pairs fr d @ r = CHR 34 # t" using Cons by (cases p) (simp add: json_string_def)
    have "h d = Some d" using 7(4) 7(6) by simp
    with e t show ?thesis by simp
  qed
next
  case (8 fr)
  then show ?case by simp
next
  case (9 fr x xs)
  let ?r = "(if xs = [] then '']'' else CHR '','' # json_elems fr xs) @ r"
  have x: "scan_value h (json_text fr x @ ?r) = Some (x, ?r)" using 9 by simp
  show ?case
  proof (cases xs)
    case Nil
    with x show ?thesis by (simp add: scan_elems_simp)
  next
    case (Cons y ys)
    with 9 have e: "scan_elems h (json_elems fr xs @ r) = Some (xs, r)" by simp
    have "floats_in F y" using 9(6) Cons by simp
    from json_head [OF 9(3) this] obtain c cs where c: "json_text fr y = c # cs" "\<not> json_space c" .
    then have s: "skip_space (json_elems fr xs @ r) = json_elems fr xs @ r" using Cons by simp
    have k: "json_elems fr (x # xs) @ r = json_text fr x @ CHR '','' # json_elems fr xs @ r"
      using Cons by simp
    have "scan_value h (json_text fr x @ CHR '','' # json_elems fr xs @ r) =
        Some (x, CHR '','' # json_elems fr xs @ r)" using x Cons by simp
    then show ?thesis unfolding k by (subst scan_elems_simp) (simp only: option.case prod.case, simp add: s e)
  qed
next
  case (10 fr)
  then show ?case by simp
next
  case (11 fr k v d)
  let ?r = "(if d = [] then ''}'' else CHR '','' # json_pairs fr d) @ r"
  have v: "scan_value h (json_text fr v @ ?r) = Some (v, ?r)" using 11 by simp
  have "floats_in F v" using 11(6) by simp
  from json_head [OF 11(3) this] obtain c cs where c: "json_text fr v = c # cs" "\<not> json_space c" .
  then have s: "skip_space (json_text fr v @ ?r) = json_text fr v @ ?r" by simp
  have k: "json_pairs fr ((k, v) # d) @ r =
      CHR 34 # concat (map json_escape k) @ CHR 34 # CHR '':'' # json_text fr v @ ?r"
    by (simp add: json_string_def)
  show ?case
  proof (cases d)
    case Nil
    with v s show ?thesis unfolding k scan_members_simp scan_string_text by simp
  next
    case (Cons p e)
    with 11 have e: "scan_members h (json_pairs fr d @ r) = Some (d, r)" by simp
    obtain t where "json_pairs fr d @ r = CHR 34 # t" using Cons by (cases p) (simp add: json_string_def)
    then have "skip_space (json_pairs fr d @ r) = json_pairs fr d @ r" by simp
    with v s e Cons show ?thesis unfolding k scan_members_simp scan_string_text by simp
  qed
qed

lemma fold_update_dict: "dict_ok (d @ ps) \<Longrightarrow> fold (\<lambda>(k, v). AList.update k v) ps d = d @ ps"
  by (induction ps arbitrary: d) (auto simp: update_new)

lemma pairs_to_dict_ok: "dict_ok ps \<Longrightarrow> pairs_to_dict ps = Some ps"
  using fold_update_dict [of "[]" ps] by (simp add: pairs_to_dict_def)

text \<open>
  The reader gives back every value the encoder wrote, through whatever object hook keeps the
  dictionaries without repeated keys, and a line feed after the text does not matter.
\<close>

lemma json_loads_text:
  assumes "float_repr_ok fr F" "float_reads fr F" "\<And>ps. dict_ok ps \<Longrightarrow> h ps = Some ps"
    and "floats_in F v" "dicts_ok v" "list_all json_space blanks"
  shows "json_loads h (json_text fr v @ blanks) = Some v"
proof -
  obtain c cs where c: "json_text fr v = c # cs" "\<not> json_space c" using json_head [OF assms(1,4)] .
  have "json_stop blanks" using assms(6) by (cases blanks) (simp_all add: json_stop_def)
  then have "scan_value h (json_text fr v @ blanks) = Some (v, blanks)"
    by (intro scan_value_text(1) [of fr F]) (use assms in auto)
  moreover have "skip_space (json_text fr v @ blanks) = json_text fr v @ blanks" using c by simp
  moreover have "skip_space blanks = []" using assms(6) by (simp add: skip_space_def list_all_iff)
  ultimately show ?thesis by (simp add: json_loads_def)
qed

end
