(* ===== verification/Base64.thy ===== *)
theory Base64
  imports Prelude
begin

text \<open>
  The URL-safe base 64 codec the event cursors use: \<open>base64.urlsafe_b64encode\<close> and
  \<open>base64.b64decode(..., altchars=b'-_', validate=True)\<close> of the standard library on bytes.
\<close>

definition b64_char :: "nat \<Rightarrow> char" where
  "b64_char n = ''ABCDEFGHIJKLMNOPQRSTUVWXYZabcdefghijklmnopqrstuvwxyz0123456789-_'' ! n"

text \<open>The decoder translates the two alternative characters and still knows the standard ones.\<close>

definition b64_value :: "char \<Rightarrow> nat option" where
  "b64_value c =
     (let n = (of_char c :: int) in
      if 65 \<le> n \<and> n \<le> 90 then Some (nat (n - 65))
      else if 97 \<le> n \<and> n \<le> 122 then Some (nat (n - 71))
      else if 48 \<le> n \<and> n \<le> 57 then Some (nat (n + 4))
      else if c = CHR ''-'' \<or> c = CHR ''+'' then Some 62
      else if c = CHR ''_'' \<or> c = CHR ''/'' then Some 63
      else None)"

fun b64_encode :: "string \<Rightarrow> string" where
  "b64_encode [] = []"
| "b64_encode [a] =
     (let x = of_char a :: nat in [b64_char (x div 4), b64_char (x mod 4 * 16), CHR ''='', CHR ''=''])"
| "b64_encode [a, b] =
     (let x = of_char a :: nat; y = of_char b :: nat in
      [b64_char (x div 4), b64_char (x mod 4 * 16 + y div 16), b64_char (y mod 16 * 4), CHR ''=''])"
| "b64_encode (a # b # c # r) =
     (let x = of_char a :: nat; y = of_char b :: nat; z = of_char c :: nat in
      b64_char (x div 4) # b64_char (x mod 4 * 16 + y div 16) # b64_char (y mod 16 * 4 + z div 64) #
      b64_char (z mod 64) # b64_encode r)"

text \<open>
  Strict decoding: groups of four characters of the alphabet, padding only in the last group. The
  bits the padding leaves over are ignored.
\<close>

fun b64_decode :: "string \<Rightarrow> string option" where
  "b64_decode [] = Some []"
| "b64_decode (p # q # s # t # r) =
     (case (b64_value p, b64_value q) of
        (Some i, Some j) \<Rightarrow>
          if s = CHR ''='' \<and> t = CHR ''='' \<and> r = [] then Some [char_of (i * 4 + j div 16)]
          else (case b64_value s of
                  None \<Rightarrow> None
                | Some k \<Rightarrow>
                    if t = CHR ''='' \<and> r = []
                    then Some [char_of (i * 4 + j div 16), char_of (j mod 16 * 16 + k div 4)]
                    else (case b64_value t of
                            None \<Rightarrow> None
                          | Some l \<Rightarrow>
                              (case b64_decode r of
                                 None \<Rightarrow> None
                               | Some bytes \<Rightarrow>
                                   Some (char_of (i * 4 + j div 16) # char_of (j mod 16 * 16 + k div 4) #
                                         char_of (k mod 4 * 64 + l) # bytes))))
      | _ \<Rightarrow> None)"
| "b64_decode _ = None"

lemma b64_char_value:
  assumes "n < 64"
  shows "b64_value (b64_char n) = Some n" "b64_char n \<noteq> CHR ''=''"
proof -
  have "\<forall>n \<in> set [0..<64]. b64_value (b64_char n) = Some n \<and> b64_char n \<noteq> CHR ''=''" by code_simp
  with assms show "b64_value (b64_char n) = Some n" "b64_char n \<noteq> CHR ''=''" by simp_all
qed

lemma byte_bound: "(of_char c :: nat) < 256"
  by (metis mod_less_divisor of_char_mod_256 zero_less_numeral)

lemma sextets:
  fixes x y z :: nat
  assumes "x < 256" "y < 256" "z < 256"
  shows "x div 4 < 64" "x mod 4 * 16 < 64" "x mod 4 * 16 + y div 16 < 64" "y mod 16 * 4 < 64"
    "y mod 16 * 4 + z div 64 < 64" "z mod 64 < 64"
    "x div 4 * 4 + x mod 4 * 16 div 16 = x"
    "x div 4 * 4 + (x mod 4 * 16 + y div 16) div 16 = x"
    "(x mod 4 * 16 + y div 16) mod 16 * 16 + y mod 16 * 4 div 4 = y"
    "(x mod 4 * 16 + y div 16) mod 16 * 16 + (y mod 16 * 4 + z div 64) div 4 = y"
    "(y mod 16 * 4 + z div 64) mod 4 * 64 + z mod 64 = z"
proof -
  have q: "y div 16 < 16" "z div 64 < 4" using assms by auto
  then have d: "(x mod 4 * 16 + y div 16) div 16 = x mod 4" "(x mod 4 * 16 + y div 16) mod 16 = y div 16"
    "(y mod 16 * 4 + z div 64) div 4 = y mod 16" "(y mod 16 * 4 + z div 64) mod 4 = z div 64"
    by simp_all
  have m: "x mod 4 < 4" "y mod 16 < 16" by simp_all
  show "x div 4 < 64" using assms(1) by auto
  show "x mod 4 * 16 < 64" using m(1) by linarith
  show "x mod 4 * 16 + y div 16 < 64" using m(1) q(1) by linarith
  show "y mod 16 * 4 < 64" using m(2) by linarith
  show "y mod 16 * 4 + z div 64 < 64" using m(2) q(2) by linarith
  show "z mod 64 < 64" by simp
  show "x div 4 * 4 + x mod 4 * 16 div 16 = x" by simp
  show "x div 4 * 4 + (x mod 4 * 16 + y div 16) div 16 = x" unfolding d by simp
  show "(x mod 4 * 16 + y div 16) mod 16 * 16 + y mod 16 * 4 div 4 = y" unfolding d by simp
  show "(x mod 4 * 16 + y div 16) mod 16 * 16 + (y mod 16 * 4 + z div 64) div 4 = y" unfolding d by simp
  show "(y mod 16 * 4 + z div 64) mod 4 * 64 + z mod 64 = z" unfolding d by simp
qed

lemma b64_group:
  assumes "i < 64" "j < 64"
  shows "b64_decode [b64_char i, b64_char j, CHR ''='', CHR ''=''] = Some [char_of (i * 4 + j div 16)]"
    and "k < 64 \<Longrightarrow> b64_decode [b64_char i, b64_char j, b64_char k, CHR ''=''] =
      Some [char_of (i * 4 + j div 16), char_of (j mod 16 * 16 + k div 4)]"
    and "k < 64 \<Longrightarrow> l < 64 \<Longrightarrow> b64_decode r = Some bytes \<Longrightarrow>
      b64_decode (b64_char i # b64_char j # b64_char k # b64_char l # r) =
      Some (char_of (i * 4 + j div 16) # char_of (j mod 16 * 16 + k div 4) # char_of (k mod 4 * 64 + l) # bytes)"
  using assms by (simp_all add: b64_char_value)

lemma b64_roundtrip: "b64_decode (b64_encode s) = Some s"
proof (induction s rule: b64_encode.induct)
  case 1
  show ?case by simp
next
  case (2 a)
  note s = sextets [OF byte_bound [of a] byte_bound [of a] byte_bound [of a]]
  show ?case unfolding b64_encode.simps Let_def b64_group(1) [OF s(1,2)] s(7) by simp
next
  case (3 a b)
  note s = sextets [OF byte_bound [of a] byte_bound [of b] byte_bound [of b]]
  show ?case unfolding b64_encode.simps Let_def b64_group(2) [OF s(1,3,4)] s(8,9) by simp
next
  case (4 a b c r)
  note s = sextets [OF byte_bound [of a] byte_bound [of b] byte_bound [of c]]
  show ?case unfolding b64_encode.simps Let_def b64_group(3) [OF s(1,3,5,6) 4 [OF refl refl refl]] s(8,10,11) by simp
qed

end
