(* ===== verification/RuntimeAuthority.thy ===== *)
theory RuntimeAuthority
  imports Prelude
begin

text \<open>
  The fail-closed authority boundary of a runtime: \<open>src/qraft/execution/authority.py\<close>,
  \<open>CompiledWorkflowRuntime.check_authority\<close> of \<open>src/qraft/execution/capability_runtime.py\<close> and
  \<open>ShutdownRequest\<close> of \<open>src/qraft/execution/slurm_environment.py\<close>. The caller's verifier is a
  parameter: what it answers to its \<open>n\<close>-th call. The check is modelled twice: as one call, which the
  event stream uses, and as the steps of several threads that check at the same time.
\<close>

section \<open>Shutdown requests\<close>

record shutdown_request =
  sr_requested :: bool
  sr_reason :: "string option"
  sr_requested_at :: "nat option"

definition no_request :: shutdown_request where
  "no_request = \<lparr>sr_requested = False, sr_reason = None, sr_requested_at = None\<rparr>"

definition request :: "string \<Rightarrow> nat \<Rightarrow> shutdown_request \<Rightarrow> shutdown_request" where
  "request reason now r =
     (if sr_reason r = None then r\<lparr>sr_reason := Some reason, sr_requested_at := Some now\<rparr> else r)
       \<lparr>sr_requested := True\<rparr>"

definition elapsed_seconds :: "nat \<Rightarrow> shutdown_request \<Rightarrow> nat" where
  "elapsed_seconds now r = (case sr_requested_at r of None \<Rightarrow> 0 | Some t \<Rightarrow> now - t)"

lemma request_first_wins:
  "sr_requested (request reason now r)"
  "sr_reason (request reason now r) = Some (case sr_reason r of None \<Rightarrow> reason | Some first \<Rightarrow> first)"
  by (auto simp: request_def split: option.splits)

section \<open>One check\<close>

record authority_boundary =
  ab_fingerprint :: string
  ab_generation :: "string option"
  ab_action :: string
  ab_task :: "string option"
  ab_attempt :: "string option"

text \<open>What the verifier does: it returns \<open>True\<close>, returns something else, or raises.\<close>

datatype verdict = Accepted | Rejected | Raised

record authority =
  au_lost :: bool
  au_shutdown :: shutdown_request
  au_terminations :: nat
  au_calls :: nat
  au_clock :: nat

definition fresh_authority :: authority where
  "fresh_authority =
     \<lparr>au_lost = False, au_shutdown = no_request, au_terminations = 0, au_calls = 0, au_clock = 0\<rparr>"

text \<open>
  The arguments \<open>authority_check\<close> and \<open>authority_generation\<close> of the runtime: a verifier needs a
  positive decimal generation.
\<close>

definition authority_arguments :: "'v option \<Rightarrow> pyval \<Rightarrow> unit res" where
  "authority_arguments verifier generation =
     (if verifier \<noteq> None \<and>
         (case generation of
            PStr g \<Rightarrow> g = [] \<or> \<not> list_all is_digit g \<or> hd g = CHR ''0''
          | _ \<Rightarrow> True)
      then Inl (ValueError ''authority callback requires an explicit positive decimal generation string'')
      else Inr ())"

text \<open>The three effects of a denial, in the order of the code.\<close>

definition latch :: "authority \<Rightarrow> authority" where
  "latch a = a\<lparr>au_lost := True\<rparr>"

definition ask_shutdown :: "authority \<Rightarrow> authority" where
  "ask_shutdown a = a\<lparr>au_shutdown := request ''AUTHORITY_LOST'' (au_clock a) (au_shutdown a)\<rparr>"

definition terminate_launchers :: "authority \<Rightarrow> authority" where
  "terminate_launchers a = a\<lparr>au_terminations := au_terminations a + 1\<rparr>"

definition deny :: "authority \<Rightarrow> authority" where
  "deny a = terminate_launchers (ask_shutdown (latch a))"

definition check_authority ::
  "(nat \<Rightarrow> authority_boundary \<Rightarrow> verdict) option \<Rightarrow> authority_boundary \<Rightarrow> authority \<Rightarrow> exn option \<times> authority" where
  "check_authority verifier b a =
     (if au_lost a then (Some (AuthorityLost ''controller authority was previously lost''), a)
      else case verifier of
        None \<Rightarrow> (None, a)
      | Some ask \<Rightarrow>
          (let a1 = a\<lparr>au_calls := au_calls a + 1\<rparr> in
           case ask (au_calls a) b of
             Raised \<Rightarrow> (Some (AuthorityLost (''authority verifier failed at '' @ ab_action b)), deny a1)
           | Accepted \<Rightarrow> (None, a1)
           | Rejected \<Rightarrow> (Some (AuthorityLost (''controller authority rejected at '' @ ab_action b)), deny a1)))"

section \<open>What a publisher is promised\<close>

text \<open>
  The interface the code that publishes sees: a check that may raise, and a denial that is final.
\<close>

locale publisher =
  fixes check :: "'a \<Rightarrow> exn option \<times> 'a" and denied :: "'a \<Rightarrow> bool"
  assumes denied_refuses: "denied a \<Longrightarrow> fst (check a) \<noteq> None"
    and denied_stays: "denied a \<Longrightarrow> denied (snd (check a))"
    and refusal_denies: "fst (check a) \<noteq> None \<Longrightarrow> denied (snd (check a))"
begin

lemma refusedE:
  assumes "denied a"
  obtains e a' where "check a = (Some e, a')" "denied a'"
  using denied_refuses [OF assms] denied_stays [OF assms] by (cases "check a") auto

lemma passed: "check a = (None, a') \<Longrightarrow> \<not> denied a"
  using denied_refuses [of a] by auto

lemma refused_denied: "check a = (Some e, a') \<Longrightarrow> denied a'"
  using refusal_denies [of a] by simp

end

interpretation runtime: publisher "check_authority verifier b" au_lost for verifier b
  by unfold_locales
    (auto simp: check_authority_def deny_def latch_def ask_shutdown_def terminate_launchers_def Let_def
      split: option.splits verdict.splits if_splits)

section \<open>Checks of several threads\<close>

text \<open>
  Where a thread is in its check: waiting for the verifier, or carrying out a denial. Setting the
  latch, asking for the shutdown and terminating the launchers are separate steps other threads
  can come between; the verifier runs while no lock is held.
\<close>

datatype phase = Asking authority_boundary | Latched authority_boundary | Stopping authority_boundary

datatype outcome = Passed | Refused

record threads =
  th_authority :: authority
  th_phase :: "nat \<rightharpoonup> phase"
  th_answers :: "(nat \<times> authority_boundary \<times> verdict) list"
  th_trace :: "(nat \<times> authority_boundary \<times> outcome) list"

definition idle_threads :: threads where
  "idle_threads = \<lparr>th_authority = fresh_authority, th_phase = Map.empty, th_answers = [], th_trace = []\<rparr>"

definition enter :: "nat \<Rightarrow> authority_boundary \<Rightarrow> threads \<Rightarrow> threads" where
  "enter t b s =
     (if au_lost (th_authority s) then s\<lparr>th_trace := (t, b, Refused) # th_trace s\<rparr>
      else s\<lparr>th_phase := (th_phase s)(t \<mapsto> Asking b),
             th_authority := (th_authority s)\<lparr>au_calls := au_calls (th_authority s) + 1\<rparr>\<rparr>)"

definition answer :: "nat \<Rightarrow> authority_boundary \<Rightarrow> verdict \<Rightarrow> threads \<Rightarrow> threads" where
  "answer t b v s =
     (let s1 = s\<lparr>th_answers := (t, b, v) # th_answers s\<rparr> in
      if v \<noteq> Raised \<and> au_lost (th_authority s)
      then s1\<lparr>th_phase := (th_phase s)(t := None), th_trace := (t, b, Refused) # th_trace s\<rparr>
      else if v = Accepted
      then s1\<lparr>th_phase := (th_phase s)(t := None), th_trace := (t, b, Passed) # th_trace s\<rparr>
      else s1\<lparr>th_phase := (th_phase s)(t \<mapsto> Latched b), th_authority := latch (th_authority s)\<rparr>)"

definition stop :: "nat \<Rightarrow> authority_boundary \<Rightarrow> threads \<Rightarrow> threads" where
  "stop t b s = s\<lparr>th_phase := (th_phase s)(t \<mapsto> Stopping b), th_authority := ask_shutdown (th_authority s)\<rparr>"

definition finish :: "nat \<Rightarrow> authority_boundary \<Rightarrow> threads \<Rightarrow> threads" where
  "finish t b s =
     s\<lparr>th_phase := (th_phase s)(t := None), th_trace := (t, b, Refused) # th_trace s,
       th_authority := terminate_launchers (th_authority s)\<rparr>"

text \<open>Another part of the program asks for a shutdown, or time passes.\<close>

definition outside :: "string option \<Rightarrow> threads \<Rightarrow> threads" where
  "outside reason s =
     (let a = th_authority s in
      s\<lparr>th_authority := (case reason of
           None \<Rightarrow> a\<lparr>au_clock := au_clock a + 1\<rparr>
         | Some r \<Rightarrow> a\<lparr>au_shutdown := request r (au_clock a) (au_shutdown a)\<rparr>)\<rparr>)"

inductive auth_step :: "threads \<Rightarrow> threads \<Rightarrow> bool" where
  enter: "th_phase s t = None \<Longrightarrow> auth_step s (enter t b s)"
| answer: "th_phase s t = Some (Asking b) \<Longrightarrow> auth_step s (answer t b v s)"
| stop: "th_phase s t = Some (Latched b) \<Longrightarrow> auth_step s (stop t b s)"
| finish: "th_phase s t = Some (Stopping b) \<Longrightarrow> auth_step s (finish t b s)"
| outside: "auth_step s (outside reason s)"

inductive_cases auth_stepE: "auth_step s s'"

abbreviation auth_steps :: "threads \<Rightarrow> threads \<Rightarrow> bool" where
  "auth_steps \<equiv> auth_step\<^sup>*\<^sup>*"

lemmas auth_defs = enter_def answer_def stop_def finish_def outside_def latch_def ask_shutdown_def
  terminate_launchers_def Let_def

definition passes :: "threads \<Rightarrow> (nat \<times> authority_boundary \<times> outcome) list" where
  "passes s = filter (\<lambda>(t, b, r). r = Passed) (th_trace s)"

definition stopping :: "threads \<Rightarrow> bool" where
  "stopping s \<longleftrightarrow> (\<exists>t b. th_phase s t = Some (Latched b) \<or> th_phase s t = Some (Stopping b))"

definition auth_inv :: "threads \<Rightarrow> bool" where
  "auth_inv s \<longleftrightarrow>
     (\<forall>t b. (t, b, Passed) \<in> set (th_trace s) \<longrightarrow> (t, b, Accepted) \<in> set (th_answers s)) \<and>
     (au_lost (th_authority s) \<longleftrightarrow> (\<exists>t b v. (t, b, v) \<in> set (th_answers s) \<and> v \<noteq> Accepted)) \<and>
     (stopping s \<longrightarrow> au_lost (th_authority s)) \<and>
     (\<forall>t b. th_phase s t = Some (Stopping b) \<longrightarrow> sr_requested (au_shutdown (th_authority s))) \<and>
     (au_lost (th_authority s) \<longrightarrow>
        sr_requested (au_shutdown (th_authority s)) \<and> 0 < au_terminations (th_authority s) \<or> stopping s)"

lemma auth_inv_idle: "auth_inv idle_threads"
  by (simp add: auth_inv_def idle_threads_def fresh_authority_def stopping_def)

lemma auth_inv_enter: "auth_inv s \<Longrightarrow> th_phase s t = None \<Longrightarrow> auth_inv (enter t b s)"
  unfolding auth_inv_def stopping_def by (auto simp: auth_defs)

lemma auth_inv_answer: "auth_inv s \<Longrightarrow> th_phase s t = Some (Asking b) \<Longrightarrow> auth_inv (answer t b v s)"
proof -
  assume i: "auth_inv s" and p: "th_phase s t = Some (Asking b)"
  let ?s = "answer t b v s" let ?lost = "au_lost (th_authority s)"
  let ?quiet = "v \<noteq> Raised \<and> ?lost \<or> v = Accepted"
  have a: "th_authority ?s = (if ?quiet then th_authority s else latch (th_authority s))"
    "th_answers ?s = (t, b, v) # th_answers s"
    "th_trace ?s = (if ?quiet then (t, b, if ?lost then Refused else Passed) # th_trace s else th_trace s)"
    "th_phase ?s = (th_phase s)(t := if ?quiet then None else Some (Latched b))"
    by (cases v; simp add: answer_def Let_def)+
  have l: "au_lost (th_authority ?s) \<longleftrightarrow> ?lost \<or> v \<noteq> Accepted" "au_shutdown (th_authority ?s) = au_shutdown (th_authority s)"
    "au_terminations (th_authority ?s) = au_terminations (th_authority s)"
    using a(1) by (auto simp: latch_def)
  have st: "stopping ?s \<longleftrightarrow> stopping s \<or> \<not> ?quiet"
  proof (cases ?quiet)
    case True
    have "th_phase ?s u = Some (Latched c) \<longleftrightarrow> th_phase s u = Some (Latched c)"
      "th_phase ?s u = Some (Stopping c) \<longleftrightarrow> th_phase s u = Some (Stopping c)" for u c
      using p a(4) True by auto
    with True show ?thesis by (simp add: stopping_def)
  next
    case False
    then have "th_phase ?s t = Some (Latched b)" using a(4) by simp
    with False show ?thesis by (auto simp: stopping_def)
  qed
  have s5: "th_phase ?s u = Some (Stopping c) \<Longrightarrow> th_phase s u = Some (Stopping c)" for u c
    using p a(4) by (auto split: if_splits)
  have i1: "\<And>t' b'. (t', b', Passed) \<in> set (th_trace s) \<Longrightarrow> (t', b', Accepted) \<in> set (th_answers s)"
    and i2: "?lost \<longleftrightarrow> (\<exists>t b v. (t, b, v) \<in> set (th_answers s) \<and> v \<noteq> Accepted)"
    and i3: "stopping s \<Longrightarrow> ?lost"
    and i4: "\<And>u c. th_phase s u = Some (Stopping c) \<Longrightarrow> sr_requested (au_shutdown (th_authority s))"
    and i5: "?lost \<Longrightarrow> sr_requested (au_shutdown (th_authority s)) \<and> 0 < au_terminations (th_authority s) \<or> stopping s"
    using i unfolding auth_inv_def by blast+
  have "(t', b', Passed) \<in> set (th_trace ?s) \<Longrightarrow> (t', b', Accepted) \<in> set (th_answers ?s)" for t' b'
    using i1 a(2,3) by (auto split: if_splits)
  moreover have "au_lost (th_authority ?s) \<longleftrightarrow> (\<exists>t b v. (t, b, v) \<in> set (th_answers ?s) \<and> v \<noteq> Accepted)"
    using i2 a(2) l(1) by auto
  moreover have "stopping ?s \<Longrightarrow> au_lost (th_authority ?s)" using st i3 l(1) by blast
  moreover have "th_phase ?s u = Some (Stopping c) \<Longrightarrow> sr_requested (au_shutdown (th_authority ?s))" for u c
    unfolding l(2) by (rule i4) (rule s5)
  moreover have "au_lost (th_authority ?s) \<Longrightarrow>
      sr_requested (au_shutdown (th_authority ?s)) \<and> 0 < au_terminations (th_authority ?s) \<or> stopping ?s"
    using i5 st l by auto
  ultimately show "auth_inv ?s" unfolding auth_inv_def by blast
qed

lemma auth_inv_stop: "auth_inv s \<Longrightarrow> th_phase s t = Some (Latched b) \<Longrightarrow> auth_inv (stop t b s)"
  unfolding auth_inv_def stopping_def by (auto simp: auth_defs request_first_wins)

lemma auth_inv_finish: "auth_inv s \<Longrightarrow> th_phase s t = Some (Stopping b) \<Longrightarrow> auth_inv (finish t b s)"
  unfolding auth_inv_def stopping_def by (auto simp: auth_defs)

lemma auth_inv_outside: "auth_inv s \<Longrightarrow> auth_inv (outside reason s)"
  unfolding auth_inv_def stopping_def by (cases reason) (auto simp: auth_defs request_first_wins)

lemmas auth_inv_intros = auth_inv_enter auth_inv_answer auth_inv_stop auth_inv_finish auth_inv_outside

lemma auth_inv_step: "auth_step s s' \<Longrightarrow> auth_inv s \<Longrightarrow> auth_inv s'"
  by (elim auth_stepE) (simp_all add: auth_inv_intros)

lemma auth_inv_steps: "auth_steps s s' \<Longrightarrow> auth_inv s \<Longrightarrow> auth_inv s'"
  by (induction rule: rtranclp_induct) (auto intro: auth_inv_step)

lemma lost_step:
  assumes "auth_step s s'" "au_lost (th_authority s)"
  shows "au_lost (th_authority s') \<and> passes s' = passes s"
  using assms by (elim auth_stepE) (auto simp: auth_defs passes_def split: option.splits)

lemma lost_steps:
  "auth_steps s s' \<Longrightarrow> au_lost (th_authority s) \<Longrightarrow> au_lost (th_authority s') \<and> passes s' = passes s"
  by (induction rule: rtranclp_induct) (auto dest: lost_step)

text \<open>
  Property C8. The authority boundary fails closed under every interleaving of the threads that
  check it. A check passes only when the verifier accepted that very boundary; the runtime is denied
  exactly when the verifier once rejected or raised; from then on no check of any thread passes, not
  even one whose accepting answer comes back later; and when the denials have run, the shutdown has
  been requested and the launchers have been terminated.
\<close>

theorem authority_denial_final:
  assumes "auth_steps idle_threads s" "auth_steps s s'"
  shows "((t, b, Passed) \<in> set (th_trace s') \<longrightarrow> (t, b, Accepted) \<in> set (th_answers s')) \<and>
    (au_lost (th_authority s) \<longleftrightarrow> (\<exists>t b v. (t, b, v) \<in> set (th_answers s) \<and> v \<noteq> Accepted)) \<and>
    (au_lost (th_authority s) \<longrightarrow> au_lost (th_authority s') \<and> passes s' = passes s) \<and>
    (au_lost (th_authority s) \<and> th_phase s = Map.empty \<longrightarrow>
       sr_requested (au_shutdown (th_authority s)) \<and> 0 < au_terminations (th_authority s))"
proof -
  have i: "auth_inv s" using assms(1) auth_inv_idle by (rule auth_inv_steps)
  have i': "auth_inv s'" using assms(2) i by (rule auth_inv_steps)
  have "(t, b, Passed) \<in> set (th_trace s') \<longrightarrow> (t, b, Accepted) \<in> set (th_answers s')"
    using i' by (simp add: auth_inv_def)
  moreover have "au_lost (th_authority s) \<and> th_phase s = Map.empty \<longrightarrow>
       sr_requested (au_shutdown (th_authority s)) \<and> 0 < au_terminations (th_authority s)"
  proof
    assume l: "au_lost (th_authority s) \<and> th_phase s = Map.empty"
    then have "\<not> stopping s" by (simp add: stopping_def)
    with i l show "sr_requested (au_shutdown (th_authority s)) \<and> 0 < au_terminations (th_authority s)"
      unfolding auth_inv_def by blast
  qed
  moreover have "au_lost (th_authority s) \<longleftrightarrow> (\<exists>t b v. (t, b, v) \<in> set (th_answers s) \<and> v \<noteq> Accepted)"
    using i by (simp add: auth_inv_def)
  ultimately show ?thesis using lost_steps [OF assms(2)] by blast
qed

text \<open>Two threads ask; the second is rejected while the first still waits, which is then refused.\<close>

definition sample_boundary :: "string \<Rightarrow> authority_boundary" where
  "sample_boundary action =
     \<lparr>ab_fingerprint = ''f'', ab_generation = Some ''1'', ab_action = action, ab_task = None, ab_attempt = None\<rparr>"

definition sample_denied :: threads where
  "sample_denied =
     (let p = sample_boundary ''publish_event''; l = sample_boundary ''launch_attempt'' in
      finish 2 l (stop 2 l (answer 2 l Rejected (enter 2 l (enter 1 p idle_threads)))))"

definition sample_late :: threads where
  "sample_late = answer 1 (sample_boundary ''publish_event'') Accepted sample_denied"

lemma sample_denied_run: "auth_steps idle_threads sample_denied" and sample_late_step: "auth_step sample_denied sample_late"
proof -
  let ?p = "sample_boundary ''publish_event''" let ?l = "sample_boundary ''launch_attempt''"
  let ?s1 = "enter 1 ?p idle_threads" let ?s2 = "enter 2 ?l ?s1"
  let ?s3 = "answer 2 ?l Rejected ?s2" let ?s4 = "stop 2 ?l ?s3"
  note d = auth_defs idle_threads_def fresh_authority_def
  have "auth_step idle_threads ?s1" by (rule auth_step.enter) (simp add: d)
  moreover have "auth_step ?s1 ?s2" by (rule auth_step.enter) (simp add: d)
  moreover have "auth_step ?s2 ?s3" by (rule auth_step.answer) (simp add: d)
  moreover have "auth_step ?s3 ?s4" by (rule auth_step.stop) (simp add: d)
  moreover have "auth_step ?s4 sample_denied"
    unfolding sample_denied_def Let_def by (rule auth_step.finish) (simp add: d)
  ultimately show "auth_steps idle_threads sample_denied"
    by (iprover intro: converse_rtranclp_into_rtranclp rtranclp.rtrancl_refl)
  show "auth_step sample_denied sample_late"
    unfolding sample_late_def by (rule auth_step.answer) (simp add: sample_denied_def d)
qed

theorem authority_denial_final_witness:
  "au_lost (th_authority sample_late) \<and> passes sample_late = []"
proof -
  have d: "au_lost (th_authority sample_denied)" "passes sample_denied = []"
    by (simp_all add: sample_denied_def passes_def auth_defs idle_threads_def fresh_authority_def)
  have "auth_steps sample_denied sample_late" using sample_late_step by (rule r_into_rtranclp)
  from authority_denial_final [OF sample_denied_run this] d show ?thesis by simp
qed

end
