(* ===== verification/EventStream.thy ===== *)
theory EventStream
  imports Json Base64 RuntimeAuthority
begin

text \<open>
  The native event stream of a run: \<open>src/qraft/execution/event_stream.py\<close>. The two files are byte
  texts: the log of JSON lines, of which the code also looks at the size and the modification time,
  and the metadata with the stream's identity and its high-water mark. An operation returns what
  it did to the files, one entry per durable write, so that an interruption can be put anywhere
  between them and inside the append. The publication check of the runtime is the parameter
  \<open>check\<close> with its own state, the fresh identifier \<open>uuid4\<close> and the clock are arguments, SHA-256 and
  the \<open>repr\<close> of floats are parameters as everywhere.
\<close>

section \<open>Files\<close>

record log_file =
  lf_text :: string
  lf_mtime :: nat

record stream_disk =
  sd_log :: "log_file option"
  sd_meta :: "string option"

definition log_text :: "stream_disk \<Rightarrow> string" where
  "log_text d = (case sd_log d of None \<Rightarrow> [] | Some f \<Rightarrow> lf_text f)"

definition log_stat :: "stream_disk \<Rightarrow> (nat \<times> nat) option" where
  "log_stat d = map_option (\<lambda>f. (length (lf_text f), lf_mtime f)) (sd_log d)"

text \<open>\<open>bytes.splitlines\<close>: a line ends at a line feed, a carriage return, or the two together.\<close>

function byte_lines :: "string \<Rightarrow> string list" where
  "byte_lines [] = []"
| "byte_lines (c # s) =
     (if c = CHR 10 then [] # byte_lines s
      else if c = CHR 13 then [] # byte_lines (if take 1 s = [CHR 10] then drop 1 s else s)
      else case byte_lines s of [] \<Rightarrow> [[c]] | l # ls \<Rightarrow> (c # l) # ls)"
  by pat_completeness auto
termination
  by (relation "measure length") auto

section \<open>The object\<close>

record event_stream =
  es_fingerprint :: string
  es_expected :: "string option"
  es_cached :: "pyval dict option"
  es_next :: int
  es_stat :: "(nat \<times> nat) option"
  es_meta :: "string option"

definition new_stream :: "string \<Rightarrow> string option \<Rightarrow> event_stream" where
  "new_stream fp expected =
     \<lparr>es_fingerprint = fp, es_expected = expected, es_cached = None, es_next = 0, es_stat = None, es_meta = None\<rparr>"

text \<open>\<open>str(uuid.UUID(text)) == text\<close>: the canonical form of an identifier.\<close>

definition uuid_text :: "string \<Rightarrow> bool" where
  "uuid_text s \<longleftrightarrow>
     (let parts = split_on (\<lambda>c. c = CHR ''-'') s in
      map length parts = [8, 4, 4, 4, 12] \<and> list_all (list_all is_hex_lower) parts)"

definition metadata_valid :: "string \<Rightarrow> string option \<Rightarrow> pyval dict \<Rightarrow> bool" where
  "metadata_valid fp expected m \<longleftrightarrow>
     map_of m ''schema_version'' = Some (PStr ''1.0'') \<and>
     map_of m ''runtime_fingerprint'' = Some (PStr fp) \<and>
     (case map_of m ''high_water'' of Some (PInt n) \<Rightarrow> 0 \<le> n | _ \<Rightarrow> False) \<and>
     (case map_of m ''stream_id'' of
        Some (PStr i) \<Rightarrow> uuid_text i \<and> (expected = None \<or> expected = Some i) | _ \<Rightarrow> False)"

definition meta_id :: "pyval dict \<Rightarrow> string" where
  "meta_id m = (case map_of m ''stream_id'' of Some (PStr i) \<Rightarrow> i | _ \<Rightarrow> [])"

definition meta_high_water :: "pyval dict \<Rightarrow> int" where
  "meta_high_water m = (case map_of m ''high_water'' of Some (PInt n) \<Rightarrow> n | _ \<Rightarrow> 0)"

definition strict_json :: "string \<Rightarrow> pyval res" where
  "strict_json data =
     (case json_loads pairs_to_dict data of
        None \<Rightarrow> Inl (ValueError ''invalid native event JSON'')
      | Some v \<Rightarrow> Inr v)"

definition read_metadata :: "string \<Rightarrow> string option \<Rightarrow> string \<Rightarrow> pyval dict res" where
  "read_metadata fp expected data =
     rbind (strict_json data) (\<lambda>v.
       case v of
         PDict m \<Rightarrow>
           if metadata_valid fp expected m then Inr m
           else Inl (ValueError ''event stream identity is invalid'')
       | _ \<Rightarrow> Inl (ValueError ''event stream identity is invalid''))"

section \<open>Events\<close>

definition event_id :: "(string \<Rightarrow> string) \<Rightarrow> string \<Rightarrow> int \<Rightarrow> string" where
  "event_id sha sid n = sha (sid @ CHR '':'' # int_str n)"

definition identity :: "(string \<Rightarrow> string) \<Rightarrow> string \<Rightarrow> int \<Rightarrow> pyval dict" where
  "identity sha sid n =
     [(''stream_id'', PStr sid), (''sequence'', PInt n), (''event_id'', PStr (event_id sha sid n))]"

text \<open>\<open>{**record, **identity}\<close>\<close>

definition with_identity :: "(string \<Rightarrow> string) \<Rightarrow> string \<Rightarrow> int \<Rightarrow> pyval dict \<Rightarrow> pyval dict" where
  "with_identity sha sid n record = fold (\<lambda>(k, v). AList.update k v) (identity sha sid n) record"

definition identity_keys :: "pyval dict \<Rightarrow> string list" where
  "identity_keys r = filter (\<lambda>k. map_of r k \<noteq> None) [''stream_id'', ''sequence'', ''event_id'']"

definition identity_typed :: "pyval dict \<Rightarrow> bool" where
  "identity_typed r \<longleftrightarrow>
     (case (map_of r ''stream_id'', map_of r ''sequence'', map_of r ''event_id'') of
        (Some (PStr _), Some (PInt _), Some (PStr _)) \<Rightarrow> True | _ \<Rightarrow> False)"

definition check_line :: "(string \<Rightarrow> string) \<Rightarrow> string \<Rightarrow> nat \<times> string \<Rightarrow> pyval dict res" where
  "check_line sha sid q =
     rbind (strict_json (snd q)) (\<lambda>v.
       case v of
         PDict r \<Rightarrow>
           if identity_keys r \<noteq> [] \<and> \<not> identity_typed r
           then Inl (ValueError ''native event identity fields have invalid types'')
           else if list_ex (\<lambda>(k, w). map_of r k \<noteq> None \<and> map_of r k \<noteq> Some w) (identity sha sid (int (fst q)))
           then Inl (ValueError ''event sequence or identity changed'')
           else Inr (with_identity sha sid (int (fst q)) r)
       | _ \<Rightarrow> Inl (ValueError ''native event must be a mapping''))"

definition stream_records :: "(string \<Rightarrow> string) \<Rightarrow> pyval dict \<Rightarrow> log_file option \<Rightarrow> pyval dict list res" where
  "stream_records sha m file =
     (case file of
        None \<Rightarrow>
          if meta_high_water m \<noteq> 0 then Inl (ValueError ''preserved event log was deleted or rotated'')
          else Inr []
      | Some f \<Rightarrow>
          if lf_text f \<noteq> [] \<and> last (lf_text f) \<noteq> CHR 10
          then Inl (ValueError ''incomplete event tail; evidence must be reconciled'')
          else rbind (map_res (check_line sha (meta_id m)) (enumerate 1 (byte_lines (lf_text f)))) (\<lambda>rs.
            if int (length rs) < meta_high_water m
            then Inl (ValueError ''event log cannot be truncated or rotated'')
            else Inr rs))"

section \<open>Opening and appending\<close>

text \<open>
  A durable write: the object and the check's state when it is made, the files before and after.
\<close>

type_synonym 'a stream_write = "event_stream \<times> 'a \<times> stream_disk \<times> stream_disk"

definition metadata_text :: "(rat \<Rightarrow> string) \<Rightarrow> pyval dict \<Rightarrow> string" where
  "metadata_text fr m = json_text fr (sort_keys (PDict m)) @ [CHR 10]"

definition first_metadata :: "string \<Rightarrow> string \<Rightarrow> int \<Rightarrow> pyval dict" where
  "first_metadata fp uid n =
     [(''schema_version'', PStr ''1.0''), (''runtime_fingerprint'', PStr fp), (''stream_id'', PStr uid),
      (''high_water'', PInt n)]"

definition load_metadata ::
  "(rat \<Rightarrow> string) \<Rightarrow> (string \<Rightarrow> string) \<Rightarrow> ('a \<Rightarrow> exn option \<times> 'a) \<Rightarrow> bool \<Rightarrow> string \<Rightarrow> event_stream \<Rightarrow>
   stream_disk \<Rightarrow> 'a \<Rightarrow> pyval dict res \<times> stream_disk \<times> 'a \<times> 'a stream_write list" where
  "load_metadata fr sha check create uid s d a =
     (case sd_meta d of
        Some data \<Rightarrow> (read_metadata (es_fingerprint s) (es_expected s) data, d, a, [])
      | None \<Rightarrow>
          if es_expected s \<noteq> None \<or> \<not> create
          then (Inl (ValueError ''stream metadata absent; no stable replay is available''), d, a, [])
          else (case stream_records sha (first_metadata (es_fingerprint s) uid 0) (sd_log d) of
              Inl e \<Rightarrow> (Inl e, d, a, [])
            | Inr rs \<Rightarrow>
                (case check a of
                   (Some e, a1) \<Rightarrow> (Inl e, d, a1, [])
                 | (None, a1) \<Rightarrow>
                     (let m = first_metadata (es_fingerprint s) uid (int (length rs));
                          d1 = d\<lparr>sd_meta := Some (metadata_text fr m)\<rparr> in
                      (Inr m, d1, a1, [(s, a1, d, d1)])))))"

definition ensure_identity ::
  "(rat \<Rightarrow> string) \<Rightarrow> (string \<Rightarrow> string) \<Rightarrow> ('a \<Rightarrow> exn option \<times> 'a) \<Rightarrow> string \<Rightarrow> event_stream \<Rightarrow>
   stream_disk \<Rightarrow> 'a \<Rightarrow> string res \<times> stream_disk \<times> 'a \<times> 'a stream_write list" where
  "ensure_identity fr sha check uid s d a =
     (case load_metadata fr sha check True uid s d a of
        (Inl e, rest) \<Rightarrow> (Inl e, rest)
      | (Inr m, d1, a1, ws) \<Rightarrow>
          (rbind (stream_records sha m (sd_log d1)) (\<lambda>_. Inr (meta_id m)), d1, a1, ws))"

text \<open>The first part of \<open>append\<close>: reading the files when nothing is cached yet.\<close>

definition attach ::
  "(rat \<Rightarrow> string) \<Rightarrow> (string \<Rightarrow> string) \<Rightarrow> ('a \<Rightarrow> exn option \<times> 'a) \<Rightarrow> string \<Rightarrow> event_stream \<Rightarrow>
   stream_disk \<Rightarrow> 'a \<Rightarrow> (pyval dict \<times> event_stream) res \<times> stream_disk \<times> 'a \<times> 'a stream_write list" where
  "attach fr sha check uid s d a =
     (case es_cached s of
        Some m \<Rightarrow> (Inr (m, s), d, a, [])
      | None \<Rightarrow>
          (case load_metadata fr sha check True uid s d a of
             (Inl e, rest) \<Rightarrow> (Inl e, rest)
           | (Inr m, d1, a1, ws) \<Rightarrow>
               (case stream_records sha m (sd_log d1) of
                  Inl e \<Rightarrow> (Inl e, d1, a1, ws)
                | Inr rs \<Rightarrow>
                    (Inr (m, s\<lparr>es_next := int (length rs) + 1, es_cached := Some m,
                               es_stat := log_stat d1, es_meta := sd_meta d1\<rparr>), d1, a1, ws))))"

definition event_line :: "(rat \<Rightarrow> string) \<Rightarrow> pyval dict \<Rightarrow> string" where
  "event_line fr event = json_text fr (sort_keys (PDict event))"

definition publish_event ::
  "(rat \<Rightarrow> string) \<Rightarrow> (string \<Rightarrow> string) \<Rightarrow> ('a \<Rightarrow> exn option \<times> 'a) \<Rightarrow> nat \<Rightarrow> pyval dict \<Rightarrow> pyval dict \<Rightarrow>
   event_stream \<Rightarrow> stream_disk \<Rightarrow> 'a \<Rightarrow>
   pyval dict res \<times> event_stream \<times> stream_disk \<times> 'a \<times> 'a stream_write list" where
  "publish_event fr sha check now record m s d a =
     (if log_stat d \<noteq> es_stat s \<or> sd_meta d = None \<or> sd_meta d \<noteq> es_meta s
      then (Inl (ValueError ''native event log was changed by another writer''), s, d, a, [])
      else if identity_keys record \<noteq> []
      then (Inl (ValueError ''native identity fields are owned by the event stream''), s, d, a, [])
      else (let n = es_next s; event = with_identity sha (meta_id m) n record in
        case check a of
          (Some e, a1) \<Rightarrow> (Inl e, s, d, a1, [])
        | (None, a1) \<Rightarrow>
            (let d1 = d\<lparr>sd_log := Some \<lparr>lf_text = log_text d @ event_line fr event @ [CHR 10],
                                        lf_mtime = now\<rparr>\<rparr>;
                 s1 = s\<lparr>es_stat := log_stat d1, es_next := n + 1\<rparr> in
             case check a1 of
               (Some e, a2) \<Rightarrow> (Inl e, s1, d1, a2, [(s, a1, d, d1)])
             | (None, a2) \<Rightarrow>
                 (let d2 = d1\<lparr>sd_meta := Some (metadata_text fr (AList.update ''high_water'' (PInt n) m))\<rparr>;
                      s2 = s1\<lparr>es_meta := sd_meta d2\<rparr> in
                  (Inr event, s2, d2, a2, [(s, a1, d, d1), (s1, a2, d1, d2)])))))"

definition append_event ::
  "(rat \<Rightarrow> string) \<Rightarrow> (string \<Rightarrow> string) \<Rightarrow> ('a \<Rightarrow> exn option \<times> 'a) \<Rightarrow> nat \<Rightarrow> string \<Rightarrow> pyval dict \<Rightarrow>
   event_stream \<Rightarrow> stream_disk \<Rightarrow> 'a \<Rightarrow>
   pyval dict res \<times> event_stream \<times> stream_disk \<times> 'a \<times> 'a stream_write list" where
  "append_event fr sha check now uid record s d a =
     (case attach fr sha check uid s d a of
        (Inl e, d1, a1, ws) \<Rightarrow> (Inl e, s, d1, a1, ws)
      | (Inr (m, s1), d1, a1, ws) \<Rightarrow>
          (case publish_event fr sha check now record m s1 d1 a1 of
             (r, s2, d2, a2, vs) \<Rightarrow> (r, s2, d2, a2, ws @ vs)))"

section \<open>Reading\<close>

record event_page =
  pg_stream :: string
  pg_events :: "pyval dict list"
  pg_cursor :: string

definition cursor :: "(rat \<Rightarrow> string) \<Rightarrow> string \<Rightarrow> int \<Rightarrow> string" where
  "cursor fr sid n = b64_encode (json_text fr (PList [PStr sid, PInt n]))"

definition cursor_position :: "string \<Rightarrow> int \<Rightarrow> string option \<Rightarrow> int res" where
  "cursor_position sid held after =
     (case after of
        None \<Rightarrow> Inr 0
      | Some c \<Rightarrow>
          (case Option.bind (b64_decode c) (json_loads pairs_to_dict) of
             Some (PList [PStr i, PInt p]) \<Rightarrow>
               if i = sid \<and> 0 \<le> p \<and> p \<le> held then Inr p
               else Inl (ValueError ''invalid or expired native cursor'')
           | _ \<Rightarrow> Inl (ValueError ''invalid or expired native cursor'')))"

definition read_events ::
  "(rat \<Rightarrow> string) \<Rightarrow> (string \<Rightarrow> string) \<Rightarrow> string option \<Rightarrow> int \<Rightarrow> event_stream \<Rightarrow> stream_disk \<Rightarrow> event_page res" where
  "read_events fr sha after limit s d =
     (if \<not> (1 \<le> limit \<and> limit \<le> 10000)
      then Inl (ValueError ''event page limit must be between 1 and 10000'')
      else
      rbind (fst (load_metadata fr sha (Pair None) False [] s d ())) (\<lambda>m.
      rbind (stream_records sha m (sd_log d)) (\<lambda>rs.
      rbind (cursor_position (meta_id m) (int (length rs)) after) (\<lambda>p.
        let selected = take (nat limit) (drop (nat p) rs) in
        Inr \<lparr>pg_stream = meta_id m, pg_events = selected,
             pg_cursor = cursor fr (meta_id m) (p + int (length selected))\<rparr>))))"

end
