(* ===== verification/EventStreamProofs.thy ===== *)
theory EventStreamProofs
  imports EventStream
begin

text \<open>
  What the event stream promises: over appends, restarts and interruptions anywhere inside a write
  the log only grows, every event keeps its identity, an acknowledged event stays readable under
  its number, pages neither miss nor repeat an event, and a denied runtime publishes nothing.
\<close>

section \<open>Lines\<close>

definition clean :: "string \<Rightarrow> bool" where
  "clean l \<longleftrightarrow> CHR 10 \<notin> set l \<and> CHR 13 \<notin> set l"

definition unlines :: "string list \<Rightarrow> string" where
  "unlines ls = concat (map (\<lambda>l. l @ [CHR 10]) ls)"

lemma unlines_simps [simp]:
  "unlines [] = []" "unlines (l # ls) = l @ CHR 10 # unlines ls" "unlines (ls @ ms) = unlines ls @ unlines ms"
  by (simp_all add: unlines_def)

lemma byte_lines_line: "clean l \<Longrightarrow> byte_lines (l @ CHR 10 # s) = l # byte_lines s"
  by (induction l) (auto simp: clean_def)

lemma byte_lines_unlines: "list_all clean ls \<Longrightarrow> byte_lines (unlines ls) = ls"
  by (induction ls) (simp_all add: byte_lines_line)

lemma last_unlines: "ls \<noteq> [] \<Longrightarrow> last (unlines ls) = CHR 10"
  by (induction ls) (auto simp: unlines_def)

lemma unlines_Nil [simp]: "unlines ls = [] \<longleftrightarrow> ls = []"
  by (cases ls) simp_all

section \<open>The text of an event\<close>

lemma sort_keys_floats [simp]:
  "floats_in F (sort_keys v) = floats_in F v"
  "floats_all F (sort_all xs) = floats_all F xs"
  "floats_items F (sort_items d) = floats_items F d"
proof (induction v and xs and d rule: sort_keys_sort_all_sort_items.induct)
  case (2 d)
  have all: "floats_items F e \<longleftrightarrow> (\<forall>p \<in> set e. floats_in F (snd p))" for e by (induction e) auto
  have "floats_items F (sort_key fst (sort_items d)) = floats_items F (sort_items d)" by (simp add: all)
  with 2 show ?case by simp
qed simp_all

lemma clean_append [simp]: "clean (a @ b) \<longleftrightarrow> clean a \<and> clean b"
  by (auto simp: clean_def)

lemma clean_Cons: "clean (c # b) \<longleftrightarrow> c \<noteq> CHR 10 \<and> c \<noteq> CHR 13 \<and> clean b"
  by (auto simp: clean_def)

lemma clean_Nil [simp]: "clean []"
  by (simp add: clean_def)

lemma clean_escape: "clean (json_escape c)"
proof -
  have h: "\<forall>n \<in> set [0..<16]. hex_char n \<noteq> CHR 10 \<and> hex_char n \<noteq> CHR 13" by code_simp
  have "n div 16 \<in> set [0..<16]" "n mod 16 \<in> set [0..<16]" if "n < 32" for n :: nat using that by auto
  with h show ?thesis by (auto simp: json_escape_def clean_Cons)
qed

lemma clean_string: "clean (json_string s)"
proof -
  have "clean (concat (map json_escape s))" by (induction s) (simp_all add: clean_escape)
  then show ?thesis by (simp add: json_string_def clean_Cons)
qed

lemma clean_num: "list_all num_char s \<Longrightarrow> clean s"
proof -
  have "\<not> num_char CHR 10" "\<not> num_char CHR 13" by code_simp+
  then show "list_all num_char s \<Longrightarrow> clean s" by (auto simp: clean_def list_all_iff)
qed

lemma clean_json:
  shows "float_repr_ok fr F \<Longrightarrow> floats_in F v \<Longrightarrow> clean (json_text fr v)"
    and "float_repr_ok fr F \<Longrightarrow> floats_all F xs \<Longrightarrow> clean (json_elems fr xs)"
    and "float_repr_ok fr F \<Longrightarrow> floats_items F d \<Longrightarrow> clean (json_pairs fr d)"
proof (induction fr v and fr xs and fr d rule: json_text_json_elems_json_pairs.induct)
  case (3 fr n)
  show ?case using int_str_num [of n] by (simp add: clean_num)
next
  case (4 fr q)
  then show ?case by (simp add: float_repr_ok_def clean_num)
next
  case (5 fr s)
  show ?case by (simp add: clean_string)
qed (auto simp: clean_Cons clean_string)

text \<open>The assumptions on \<open>repr\<close>, for the floats of the recorded events.\<close>

definition floats_ok :: "(rat \<Rightarrow> string) \<Rightarrow> rat set \<Rightarrow> bool" where
  "floats_ok fr F \<longleftrightarrow> float_repr_ok fr F \<and> float_reads fr F"

lemma strict_json_text:
  assumes "floats_ok fr F" "floats_in F v" "dicts_ok v" "list_all json_space blanks"
  shows "strict_json (json_text fr (sort_keys v) @ blanks) = Inr (sort_keys v)"
  using json_loads_text [of fr F pairs_to_dict "sort_keys v" blanks] assms
  by (simp add: strict_json_def floats_ok_def pairs_to_dict_ok sort_keys_dicts_ok)

lemma floats_none: "floats_in F v \<Longrightarrow> floats_ok fr F \<Longrightarrow> clean (json_text fr v)"
  using clean_json(1) [of fr F v] by (simp add: floats_ok_def)

section \<open>Identities\<close>

lemma identity_keys_Nil:
  "identity_keys r = [] \<longleftrightarrow> map_of r ''stream_id'' = None \<and> map_of r ''sequence'' = None \<and> map_of r ''event_id'' = None"
  by (auto simp: identity_keys_def)

lemma with_identity_append:
  assumes "identity_keys r = []"
  shows "with_identity sha sid n r = r @ identity sha sid n"
proof -
  have "''stream_id'' \<notin> fst ` set r" "''sequence'' \<notin> fst ` set r" "''event_id'' \<notin> fst ` set r"
    using assms by (simp_all add: identity_keys_Nil map_of_eq_None_iff)
  then show ?thesis by (simp add: with_identity_def identity_def update_new)
qed

lemma update_same: "map_of d k = Some v \<Longrightarrow> AList.update k v d = d"
  by (induction d) auto

lemma with_identity_lookup:
  "map_of (with_identity sha sid n r) ''stream_id'' = Some (PStr sid)"
  "map_of (with_identity sha sid n r) ''sequence'' = Some (PInt n)"
  "map_of (with_identity sha sid n r) ''event_id'' = Some (PStr (event_id sha sid n))"
  by (simp_all add: with_identity_def identity_def)

lemma with_identity_again:
  assumes "map_of r ''stream_id'' = Some (PStr sid)" "map_of r ''sequence'' = Some (PInt n)"
    "map_of r ''event_id'' = Some (PStr (event_id sha sid n))"
  shows "with_identity sha sid n r = r"
  using assms by (simp add: with_identity_def identity_def update_same)

text \<open>The event as it is read back: its keys sorted.\<close>

definition stored :: "pyval dict \<Rightarrow> pyval dict" where
  "stored d = sort_key fst (sort_items d)"

lemma sort_keys_stored: "sort_keys (PDict d) = PDict (stored d)"
  by (simp add: stored_def)

lemma stored_lookup: "dict_ok d \<Longrightarrow> map_of (stored d) k = map_option sort_keys (map_of d k)"
  by (simp add: stored_def sort_key_lookup sort_items_keys sort_items_lookup)

definition record_ok :: "rat set \<Rightarrow> pyval dict \<Rightarrow> bool" where
  "record_ok F r \<longleftrightarrow> dicts_ok (PDict r) \<and> floats_in F (PDict r)"

lemma record_with_identity:
  assumes "record_ok F r" "identity_keys r = []"
  shows "record_ok F (with_identity sha sid n r)"
proof -
  have "dicts_ok_items (xs @ ys) \<longleftrightarrow> dicts_ok_items xs \<and> dicts_ok_items ys" for xs ys
    by (induction xs) auto
  moreover have "floats_items F (xs @ ys) \<longleftrightarrow> floats_items F xs \<and> floats_items F ys" for xs ys
    by (induction xs) auto
  moreover have "''stream_id'' \<notin> fst ` set r" "''sequence'' \<notin> fst ` set r" "''event_id'' \<notin> fst ` set r"
    using assms(2) by (simp_all add: identity_keys_Nil map_of_eq_None_iff)
  ultimately show ?thesis
    using assms by (auto simp: record_ok_def with_identity_append identity_def)
qed

lemma check_line_event:
  assumes f: "floats_ok fr F" and r: "record_ok F r" "identity_keys r = []"
  shows "check_line sha sid (n, event_line fr (with_identity sha sid (int n) r)) =
    Inr (stored (with_identity sha sid (int n) r))"
proof -
  let ?e = "with_identity sha sid (int n) r"
  have e: "dicts_ok (PDict ?e)" "floats_in F (PDict ?e)" "dict_ok ?e"
    using record_with_identity [OF r, of sha sid "int n"] by (simp_all add: record_ok_def)
  have j: "strict_json (event_line fr ?e) = Inr (PDict (stored ?e))"
    using strict_json_text [OF f e(2,1), of "[]"]
    unfolding event_line_def sort_keys_stored append_Nil2 by simp
  have l: "map_of (stored ?e) ''stream_id'' = Some (PStr sid)" "map_of (stored ?e) ''sequence'' = Some (PInt (int n))"
    "map_of (stored ?e) ''event_id'' = Some (PStr (event_id sha sid (int n)))"
    using e(3) by (simp_all add: stored_lookup with_identity_lookup)
  then have "identity_typed (stored ?e)" by (simp add: identity_typed_def)
  with j l show ?thesis
    by (simp add: check_line_def with_identity_again) (simp add: identity_def l)
qed

lemma clean_event_line:
  assumes "floats_ok fr F" "record_ok F r"
  shows "clean (event_line fr r)"
proof -
  have "floats_in F (sort_keys (PDict r))" using assms(2) by (simp only: record_ok_def sort_keys_floats)
  then show ?thesis using assms(1) unfolding event_line_def by (rule floats_none)
qed

text \<open>Whatever line is accepted, the event carries the identity of its place.\<close>

lemma line_identity:
  assumes "check_line sha sid (n, l) = Inr r"
  shows "map_of r ''stream_id'' = Some (PStr sid)" "map_of r ''sequence'' = Some (PInt (int n))"
    "map_of r ''event_id'' = Some (PStr (event_id sha sid (int n)))"
proof -
  obtain v where v: "strict_json l = Inr v" using assms by (auto simp: check_line_def rbind_Inr_iff)
  obtain q where "r = with_identity sha sid (int n) q"
    using assms v by (cases v) (auto simp: check_line_def split: if_splits)
  then show "map_of r ''stream_id'' = Some (PStr sid)" "map_of r ''sequence'' = Some (PInt (int n))"
    "map_of r ''event_id'' = Some (PStr (event_id sha sid (int n)))"
    by (simp_all add: with_identity_lookup)
qed

section \<open>Metadata\<close>

definition meta_dict :: "string \<Rightarrow> string \<Rightarrow> int \<Rightarrow> pyval dict" where
  "meta_dict fp sid n =
     [(''high_water'', PInt n), (''runtime_fingerprint'', PStr fp), (''schema_version'', PStr ''1.0''),
      (''stream_id'', PStr sid)]"

lemma stored_metadata:
  "stored (first_metadata fp sid n) = meta_dict fp sid n"
  "stored (meta_dict fp sid n) = meta_dict fp sid n"
  "stored (AList.update ''high_water'' (PInt k) (first_metadata fp sid n)) = meta_dict fp sid k"
  "stored (AList.update ''high_water'' (PInt k) (meta_dict fp sid n)) = meta_dict fp sid k"
proof -
  have s: "stored (first_metadata fp sid n) = meta_dict fp sid n" "stored (meta_dict fp sid n) = meta_dict fp sid n" for n
    by (simp_all add: stored_def first_metadata_def meta_dict_def insort_key.simps)
  have u: "AList.update ''high_water'' (PInt k) (first_metadata fp sid n) = first_metadata fp sid k"
    "AList.update ''high_water'' (PInt k) (meta_dict fp sid n) = meta_dict fp sid k"
    by (simp_all add: first_metadata_def meta_dict_def)
  show "stored (first_metadata fp sid n) = meta_dict fp sid n" "stored (meta_dict fp sid n) = meta_dict fp sid n"
    by (rule s)+
  show "stored (AList.update ''high_water'' (PInt k) (first_metadata fp sid n)) = meta_dict fp sid k"
    "stored (AList.update ''high_water'' (PInt k) (meta_dict fp sid n)) = meta_dict fp sid k"
    unfolding u by (rule s)+
qed

lemma metadata_text_eq:
  "stored m = meta_dict fp sid n \<Longrightarrow> metadata_text fr m = json_text fr (PDict (meta_dict fp sid n)) @ [CHR 10]"
  by (simp add: metadata_text_def sort_keys_stored del: sort_keys.simps)

definition meta_bytes :: "(rat \<Rightarrow> string) \<Rightarrow> string \<Rightarrow> string \<Rightarrow> int \<Rightarrow> string" where
  "meta_bytes fr fp sid n = json_text fr (PDict (meta_dict fp sid n)) @ [CHR 10]"

lemma read_meta_bytes:
  assumes "floats_ok fr F" "uuid_text sid" "0 \<le> n"
  shows "read_metadata fp expected (meta_bytes fr fp sid n) =
    (if expected = None \<or> expected = Some sid then Inr (meta_dict fp sid n)
     else Inl (ValueError ''event stream identity is invalid''))"
proof -
  have k: "sort_keys (PDict (meta_dict fp sid n)) = PDict (meta_dict fp sid n)"
    unfolding sort_keys_stored stored_metadata ..
  have "floats_in F (PDict (meta_dict fp sid n))" "dicts_ok (PDict (meta_dict fp sid n))"
    by (simp_all add: meta_dict_def)
  then have "strict_json (json_text fr (sort_keys (PDict (meta_dict fp sid n))) @ [CHR 10]) =
      Inr (sort_keys (PDict (meta_dict fp sid n)))"
    by (intro strict_json_text [OF assms(1)]) (simp_all add: json_space_def)
  then have "strict_json (meta_bytes fr fp sid n) = Inr (PDict (meta_dict fp sid n))"
    unfolding k meta_bytes_def .
  moreover have "metadata_valid fp expected (meta_dict fp sid n) \<longleftrightarrow> expected = None \<or> expected = Some sid"
    using assms(2,3) by (simp add: metadata_valid_def meta_dict_def)
  ultimately show ?thesis by (simp add: read_metadata_def)
qed

section \<open>What the files hold\<close>

text \<open>
  The abstract stream behind the files: its identity, the acknowledged high-water mark, the
  complete events and the unfinished last line an interruption may have left.
\<close>

definition stream_holds ::
  "(rat \<Rightarrow> string) \<Rightarrow> (string \<Rightarrow> string) \<Rightarrow> string \<Rightarrow> string \<Rightarrow> int \<Rightarrow> pyval dict list \<Rightarrow> string \<Rightarrow> stream_disk \<Rightarrow> bool" where
  "stream_holds fr sha fp sid high rs tail d \<longleftrightarrow>
     uuid_text sid \<and> 0 \<le> high \<and> high \<le> int (length rs) \<and> sd_meta d = Some (meta_bytes fr fp sid high) \<and>
     CHR 10 \<notin> set tail \<and>
     (\<exists>ls. list_all clean ls \<and> log_text d = unlines ls @ tail \<and>
        map_res (check_line sha sid) (enumerate 1 ls) = Inr rs)"

text \<open>Before the first open: no metadata, and at most a log of complete lines without identities.\<close>

definition legacy_line :: "string \<Rightarrow> bool" where
  "legacy_line l \<longleftrightarrow> clean l \<and> (\<exists>r. strict_json l = Inr (PDict r) \<and> identity_keys r = [])"

definition unopened :: "stream_disk \<Rightarrow> bool" where
  "unopened d \<longleftrightarrow> sd_meta d = None \<and> (\<exists>ls. list_all legacy_line ls \<and> log_text d = unlines ls)"

lemma legacy_check: "legacy_line l \<Longrightarrow> \<exists>r. check_line sha sid (n, l) = Inr r"
  by (auto simp: legacy_line_def check_line_def identity_keys_Nil identity_def)

lemma legacy_records:
  "list_all legacy_line ls \<Longrightarrow> \<exists>rs. map_res (check_line sha sid) (enumerate n ls) = Inr rs"
proof (induction ls arbitrary: n)
  case (Cons l ls)
  obtain r where r: "check_line sha sid (n, l) = Inr r" using Cons.prems legacy_check [of l sha sid n] by auto
  obtain rs where "map_res (check_line sha sid) (enumerate (Suc n) ls) = Inr rs"
    using Cons.prems Cons.IH [of "Suc n"] by auto
  with r show ?case by simp
qed simp

lemma legacy_clean: "list_all legacy_line ls \<Longrightarrow> list_all clean ls"
  by (auto simp: list_all_iff legacy_line_def)

lemma records_length: "map_res f (enumerate n ls) = Inr rs \<Longrightarrow> length rs = length ls"
  by (auto dest: map_res_length)

lemma log_text_tail: "sd_log d = Some f \<Longrightarrow> lf_text f = log_text d"
  by (simp add: log_text_def)

lemma stream_records_text:
  assumes "list_all clean ls" "log_text d = unlines ls @ tail" "CHR 10 \<notin> set tail"
    and "map_res (check_line sha (meta_id m)) (enumerate 1 ls) = Inr rs"
    and "0 \<le> meta_high_water m" "meta_high_water m \<le> int (length rs)"
  shows "stream_records sha m (sd_log d) =
    (if tail = [] then Inr rs else Inl (ValueError ''incomplete event tail; evidence must be reconciled''))"
proof (cases "sd_log d")
  case None
  then have "ls = []" "tail = []" using assms(2) by (auto simp: log_text_def unlines_def)
  with None assms(4,5,6) show ?thesis by (simp add: stream_records_def)
next
  case (Some f)
  then have t: "lf_text f = unlines ls @ tail" using assms(2) by (simp add: log_text_def)
  show ?thesis
  proof (cases "tail = []")
    case True
    have "\<not> (lf_text f \<noteq> [] \<and> last (lf_text f) \<noteq> CHR 10)" using t True last_unlines [of ls] by auto
    moreover have "byte_lines (lf_text f) = ls" using t True byte_lines_unlines [OF assms(1)] by simp
    ultimately show ?thesis using Some True assms(4,6) by (simp add: stream_records_def)
  next
    case False
    then have "last (lf_text f) \<noteq> CHR 10" using t assms(3) by (metis last_appendR last_in_set)
    moreover have "lf_text f \<noteq> []" using t False by simp
    ultimately show ?thesis using Some False by (simp add: stream_records_def)
  qed
qed

lemma meta_dict_fields [simp]:
  "meta_id (meta_dict fp sid n) = sid" "meta_high_water (meta_dict fp sid n) = n"
  "meta_id (first_metadata fp sid n) = sid" "meta_high_water (first_metadata fp sid n) = n"
  by (simp_all add: meta_id_def meta_high_water_def meta_dict_def first_metadata_def)

lemma holds_records:
  assumes "stream_holds fr sha fp sid high rs tail d"
    and "meta_id m = sid" "meta_high_water m = high"
  shows "stream_records sha m (sd_log d) =
    (if tail = [] then Inr rs else Inl (ValueError ''incomplete event tail; evidence must be reconciled''))"
  using assms stream_records_text [of _ d tail sha m rs] by (auto simp: stream_holds_def)

section \<open>Appending and interrupting keep it\<close>

lemma map_res_append:
  "map_res f (xs @ ys) = rbind (map_res f xs) (\<lambda>us. rbind (map_res f ys) (\<lambda>vs. Inr (us @ vs)))"
proof (induction xs)
  case Nil
  show ?case by (cases "map_res f ys") simp_all
next
  case (Cons x xs)
  then show ?case by (cases "f x"; cases "map_res f xs"; cases "map_res f ys") simp_all
qed

lemma enumerate_snoc: "enumerate n (xs @ [x]) = enumerate n xs @ [(n + length xs, x)]"
  by (simp add: enumerate_append_eq)

definition appended :: "nat \<Rightarrow> string \<Rightarrow> stream_disk \<Rightarrow> stream_disk" where
  "appended now s d = d\<lparr>sd_log := Some \<lparr>lf_text = log_text d @ s, lf_mtime = now\<rparr>\<rparr>"

lemma appended_simps [simp]:
  "log_text (appended now s d) = log_text d @ s" "sd_meta (appended now s d) = sd_meta d"
  "log_stat (appended now s d) = Some (length (log_text d) + length s, now)"
  by (simp_all add: appended_def log_text_def log_stat_def)

lemma holds_append_line:
  assumes h: "stream_holds fr sha fp sid high rs [] d"
    and f: "floats_ok fr F" and r: "record_ok F r" "identity_keys r = []"
    and e: "e = with_identity sha sid (int (length rs) + 1) r"
  shows "stream_holds fr sha fp sid high (rs @ [stored e]) [] (appended now (event_line fr e @ [CHR 10]) d)"
proof -
  obtain ls where ls: "list_all clean ls" "log_text d = unlines ls"
      "map_res (check_line sha sid) (enumerate 1 ls) = Inr rs"
    using h by (auto simp: stream_holds_def)
  have n: "1 + length ls = Suc (length rs)" using records_length [OF ls(3)] by simp
  have e': "e = with_identity sha sid (int (Suc (length rs))) r" using e by (simp add: add.commute)
  have c: "check_line sha sid (1 + length ls, event_line fr e) = Inr (stored e)"
    unfolding e' n by (rule check_line_event [OF f r])
  have "clean (event_line fr e)"
    using clean_event_line [OF f] record_with_identity [OF r] e by blast
  moreover have "map_res (check_line sha sid) (enumerate 1 (ls @ [event_line fr e])) = Inr (rs @ [stored e])"
    using ls(3) c by (simp only: enumerate_snoc map_res_append rbind_simps map_res.simps)
  ultimately show ?thesis
    using h ls unfolding stream_holds_def by (intro conjI exI [of _ "ls @ [event_line fr e]"]) auto
qed

lemma holds_append_tail:
  assumes "stream_holds fr sha fp sid high rs [] d" "CHR 10 \<notin> set t"
  shows "stream_holds fr sha fp sid high rs t (appended now t d)"
  using assms by (auto simp: stream_holds_def)

lemma holds_same_text:
  assumes "stream_holds fr sha fp sid high rs tail d" "log_text d' = log_text d" "sd_meta d' = sd_meta d"
  shows "stream_holds fr sha fp sid high rs tail d'"
  using assms by (simp add: stream_holds_def)

lemma holds_high_water:
  assumes "stream_holds fr sha fp sid high rs tail d" "0 \<le> n" "n \<le> int (length rs)"
  shows "stream_holds fr sha fp sid n rs tail (d\<lparr>sd_meta := Some (meta_bytes fr fp sid n)\<rparr>)"
  using assms by (simp add: stream_holds_def log_text_def)

lemma unopened_first:
  assumes "unopened d" "uuid_text uid"
  obtains rs where "stream_records sha (first_metadata fp uid 0) (sd_log d) = Inr rs"
    "stream_holds fr sha fp uid (int (length rs)) rs [] (d\<lparr>sd_meta := Some (meta_bytes fr fp uid (int (length rs)))\<rparr>)"
proof -
  obtain ls where ls: "list_all legacy_line ls" "log_text d = unlines ls" using assms(1) by (auto simp: unopened_def)
  obtain rs where rs: "map_res (check_line sha uid) (enumerate 1 ls) = Inr rs" using legacy_records [OF ls(1)] by blast
  have "stream_records sha (first_metadata fp uid 0) (sd_log d) = Inr rs"
    using stream_records_text [OF legacy_clean [OF ls(1)], of d "[]" sha "first_metadata fp uid 0" rs] ls(2) rs by simp
  moreover have "stream_holds fr sha fp uid (int (length rs)) rs []
      (d\<lparr>sd_meta := Some (meta_bytes fr fp uid (int (length rs)))\<rparr>)"
    using ls rs assms(2) legacy_clean [OF ls(1)] by (auto simp: stream_holds_def log_text_def)
  ultimately show ?thesis by (rule that)
qed

section \<open>The invariant of the object and the files\<close>

definition cached_ok :: "string \<Rightarrow> string \<Rightarrow> pyval dict \<Rightarrow> bool" where
  "cached_ok fp sid m \<longleftrightarrow> (\<exists>h. m = first_metadata fp sid h \<or> m = meta_dict fp sid h)"

text \<open>As long as nobody else touched the files the object knows the next number.\<close>

definition in_step :: "string \<Rightarrow> string \<Rightarrow> pyval dict list \<Rightarrow> string \<Rightarrow> event_stream \<Rightarrow> stream_disk \<Rightarrow> bool" where
  "in_step fp sid rs tail s d \<longleftrightarrow>
     (\<forall>m. es_cached s = Some m \<and> log_stat d = es_stat s \<and> sd_meta d = es_meta s \<longrightarrow>
        cached_ok fp sid m \<and> es_next s = int (length rs) + 1 \<and> tail = [])"

text \<open>An acknowledged event is below the high-water mark and stored under its number.\<close>

definition acked_ok :: "pyval dict list \<Rightarrow> int \<Rightarrow> pyval dict list \<Rightarrow> bool" where
  "acked_ok A high rs \<longleftrightarrow>
     (\<forall>ev \<in> set A. \<exists>n. map_of ev ''sequence'' = Some (PInt (int n)) \<and> 1 \<le> n \<and> int n \<le> high \<and>
        rs ! (n - 1) = stored ev)"

definition stream_inv ::
  "(rat \<Rightarrow> string) \<Rightarrow> (string \<Rightarrow> string) \<Rightarrow> string \<Rightarrow> event_stream \<Rightarrow> stream_disk \<Rightarrow> pyval dict list \<Rightarrow> bool" where
  "stream_inv fr sha fp s d A \<longleftrightarrow>
     es_fingerprint s = fp \<and>
     (unopened d \<and> es_cached s = None \<and> A = [] \<or>
      (\<exists>sid high rs tail. stream_holds fr sha fp sid high rs tail d \<and> in_step fp sid rs tail s d \<and> acked_ok A high rs))"

definition stream_grows ::
  "(rat \<Rightarrow> string) \<Rightarrow> (string \<Rightarrow> string) \<Rightarrow> string \<Rightarrow> stream_disk \<Rightarrow> stream_disk \<Rightarrow> bool" where
  "stream_grows fr sha fp d d' \<longleftrightarrow>
     (\<forall>sid high rs tail. stream_holds fr sha fp sid high rs tail d \<longrightarrow>
        (\<exists>high' rs' tail'. stream_holds fr sha fp sid high' (rs @ rs') tail' d' \<and> high \<le> high' \<and>
           (tail \<noteq> [] \<longrightarrow> rs' = [] \<and> tail' = tail)))"

lemma grows_refl [simp]: "stream_grows fr sha fp d d"
  unfolding stream_grows_def by (metis append_Nil2 order.refl)

lemma grows_trans:
  assumes "stream_grows fr sha fp d1 d2" "stream_grows fr sha fp d2 d3"
  shows "stream_grows fr sha fp d1 d3"
  unfolding stream_grows_def
proof (intro allI impI)
  fix sid high rs tail assume "stream_holds fr sha fp sid high rs tail d1"
  with assms(1) obtain h2 r2 t2 where 2: "stream_holds fr sha fp sid h2 (rs @ r2) t2 d2" "high \<le> h2"
    "tail \<noteq> [] \<longrightarrow> r2 = [] \<and> t2 = tail" unfolding stream_grows_def by blast
  with assms(2) obtain h3 r3 t3 where 3: "stream_holds fr sha fp sid h3 ((rs @ r2) @ r3) t3 d3" "h2 \<le> h3"
    "t2 \<noteq> [] \<longrightarrow> r3 = [] \<and> t3 = t2" unfolding stream_grows_def by blast
  from 2 3 show "\<exists>high' rs' tail'. stream_holds fr sha fp sid high' (rs @ rs') tail' d3 \<and> high \<le> high' \<and>
           (tail \<noteq> [] \<longrightarrow> rs' = [] \<and> tail' = tail)"
    by (intro exI [of _ h3] exI [of _ "r2 @ r3"] exI [of _ t3]) auto
qed

text \<open>Only one abstract stream stands behind files that hold one.\<close>

lemma meta_bytes_inj:
  assumes "floats_ok fr F" "uuid_text sid" "uuid_text sid'" "0 \<le> n" "0 \<le> n'"
    and "meta_bytes fr fp sid n = meta_bytes fr fp sid' n'"
  shows "sid = sid' \<and> n = n'"
proof -
  have "read_metadata fp None (meta_bytes fr fp sid n) = Inr (meta_dict fp sid n)"
    "read_metadata fp None (meta_bytes fr fp sid' n') = Inr (meta_dict fp sid' n')"
    using read_meta_bytes [OF assms(1), of _ _ fp None] assms(2-5) by auto
  then have "meta_dict fp sid n = meta_dict fp sid' n'" unfolding assms(6) by simp
  then show ?thesis by (simp add: meta_dict_def)
qed

lemma unlines_inj:
  assumes "unlines ls @ t = unlines ls' @ t'" "list_all clean ls" "list_all clean ls'" "CHR 10 \<notin> set t" "CHR 10 \<notin> set t'"
  shows "ls = ls' \<and> t = t'"
  using assms
proof (induction ls arbitrary: ls')
  case Nil
  then show ?case by (cases ls') auto
next
  case (Cons l ls)
  show ?case
  proof (cases ls')
    case Nil
    with Cons.prems(1,5) show ?thesis by (auto dest: arg_cong [of _ _ set])
  next
    case c: (Cons k ks)
    have u: "takeWhile (\<lambda>x. x \<noteq> CHR 10) (x @ CHR 10 # y) = x" if "clean x" for x y
      using that by (induction x) (auto simp: clean_def)
    have cl: "clean l" "clean k" using Cons.prems(2,3) c by simp_all
    have "l @ CHR 10 # (unlines ls @ t) = k @ CHR 10 # (unlines ks @ t')" using Cons.prems(1) c by simp
    moreover from this have "l = k" using u [of l] u [of k] cl by metis
    ultimately have "unlines ls @ t = unlines ks @ t'" by simp
    with Cons.IH [of ks] Cons.prems c \<open>l = k\<close> show ?thesis by simp
  qed
qed

lemma holds_unique:
  assumes f: "floats_ok fr F"
    and h: "stream_holds fr sha fp sid high rs tail d" "stream_holds fr sha fp sid' high' rs' tail' d"
  shows "sid' = sid \<and> high' = high \<and> rs' = rs \<and> tail' = tail"
proof -
  have "sid = sid' \<and> high = high'"
    using h by (intro meta_bytes_inj [OF f, of sid sid' high high' fp]) (auto simp: stream_holds_def)
  moreover obtain ls where ls: "list_all clean ls" "log_text d = unlines ls @ tail"
      "map_res (check_line sha sid) (enumerate 1 ls) = Inr rs" "CHR 10 \<notin> set tail"
    using h(1) unfolding stream_holds_def by blast
  moreover obtain ls' where ls': "list_all clean ls'" "log_text d = unlines ls' @ tail'"
      "map_res (check_line sha sid') (enumerate 1 ls') = Inr rs'" "CHR 10 \<notin> set tail'"
    using h(2) unfolding stream_holds_def by blast
  moreover have "ls = ls' \<and> tail = tail'" using ls ls' by (intro unlines_inj) simp_all
  ultimately show ?thesis by simp
qed

lemma growsI:
  assumes "floats_ok fr F" "stream_holds fr sha fp sid high rs tail d"
    and "stream_holds fr sha fp sid high' (rs @ rs') tail' d'" "high \<le> high'"
    and "tail \<noteq> [] \<Longrightarrow> rs' = [] \<and> tail' = tail"
  shows "stream_grows fr sha fp d d'"
  unfolding stream_grows_def
proof (intro allI impI)
  fix s h r t assume "stream_holds fr sha fp s h r t d"
  from holds_unique [OF assms(1,2) this] have "s = sid" "h = high" "r = rs" "t = tail" by simp_all
  with assms(3-5) show "\<exists>high' rs' tail'. stream_holds fr sha fp s high' (r @ rs') tail' d' \<and> h \<le> high' \<and>
       (t \<noteq> [] \<longrightarrow> rs' = [] \<and> tail' = t)" by blast
qed

lemma unopened_not_holds: "unopened d \<Longrightarrow> \<not> stream_holds fr sha fp sid high rs tail d"
  by (simp add: unopened_def stream_holds_def)

lemma unopened_grows: "unopened d \<Longrightarrow> stream_grows fr sha fp d d'"
  by (simp add: stream_grows_def unopened_not_holds)

lemma acked_ok_grow: "acked_ok A high rs \<Longrightarrow> high \<le> high' \<Longrightarrow> high \<le> int (length rs) \<Longrightarrow> acked_ok A high' (rs @ rs')"
  unfolding acked_ok_def
proof (intro ballI)
  fix ev
  assume a: "\<forall>ev\<in>set A. \<exists>n. map_of ev ''sequence'' = Some (PInt (int n)) \<and> 1 \<le> n \<and> int n \<le> high \<and> rs ! (n - 1) = stored ev"
    and h: "high \<le> high'" "high \<le> int (length rs)" and ev: "ev \<in> set A"
  from a ev obtain n where n: "map_of ev ''sequence'' = Some (PInt (int n))" "1 \<le> n" "int n \<le> high"
    "rs ! (n - 1) = stored ev" by blast
  then have "n - 1 < length rs" using h(2) by linarith
  with n h(1) show "\<exists>n. map_of ev ''sequence'' = Some (PInt (int n)) \<and> 1 \<le> n \<and> int n \<le> high' \<and>
      (rs @ rs') ! (n - 1) = stored ev"
    by (intro exI [of _ n]) (simp add: nth_append)
qed

section \<open>Interruptions\<close>

text \<open>
  A write that does not end: the rename that replaces the metadata has happened or not; of an
  append the first \<open>j\<close> bytes have reached the file.
\<close>

definition tear :: "nat \<Rightarrow> stream_disk \<Rightarrow> stream_disk \<Rightarrow> stream_disk" where
  "tear j d d' =
     (if sd_log d' = sd_log d then (if j = 0 then d else d')
      else if j = 0 \<and> sd_log d \<noteq> None then d
      else (case sd_log d' of
              None \<Rightarrow> d'
            | Some f \<Rightarrow> d'\<lparr>sd_log := Some (f\<lparr>lf_text := take (length (log_text d) + j) (lf_text f)\<rparr>)\<rparr>))"

lemma tear_meta: "tear j d (d\<lparr>sd_meta := x\<rparr>) = (if j = 0 then d else d\<lparr>sd_meta := x\<rparr>)"
  by (simp add: tear_def)

lemma tear_append:
  assumes "s \<noteq> []"
  shows "tear j d (appended now s d) = (if j = 0 \<and> sd_log d \<noteq> None then d else appended now (take j s) d)"
proof -
  have "sd_log (appended now s d) \<noteq> sd_log d"
    using assms by (cases "sd_log d") (auto simp: appended_def log_text_def dest!: arg_cong [of _ _ lf_text])
  then show ?thesis by (simp add: tear_def) (simp add: appended_def)
qed

text \<open>The object after an interruption: the one of that moment, or a new one after a crash.\<close>

definition survivor :: "event_stream \<Rightarrow> event_stream \<Rightarrow> bool" where
  "survivor s s' \<longleftrightarrow> s' = s \<or> es_cached s' = None \<and> es_fingerprint s' = es_fingerprint s"

definition write_ok ::
  "(rat \<Rightarrow> string) \<Rightarrow> (string \<Rightarrow> string) \<Rightarrow> string \<Rightarrow> pyval dict list \<Rightarrow> stream_disk \<Rightarrow> 'a stream_write \<Rightarrow> bool" where
  "write_ok fr sha fp A d0 w \<longleftrightarrow>
     (case w of (s, _, d, d') \<Rightarrow>
        \<forall>j s'. survivor s s' \<longrightarrow> stream_inv fr sha fp s' (tear j d d') A \<and> stream_grows fr sha fp d0 (tear j d d'))"

lemma in_step_fresh: "es_cached s = None \<Longrightarrow> in_step fp sid rs tail s d"
  by (simp add: in_step_def)

lemma write_ok_grows: "write_ok fr sha fp A d1 w \<Longrightarrow> stream_grows fr sha fp d0 d1 \<Longrightarrow> write_ok fr sha fp A d0 w"
  by (auto simp: write_ok_def intro: grows_trans split: prod.splits)

text \<open>Raising the high-water mark.\<close>

lemma high_water_write:
  assumes f: "floats_ok fr F" and h: "stream_holds fr sha fp sid high rs [] d" and n: "0 \<le> n" "high \<le> n" "n \<le> int (length rs)"
    and s: "es_fingerprint s = fp" "\<And>m. es_cached s = Some m \<Longrightarrow> cached_ok fp sid m \<and> es_next s = int (length rs) + 1"
    and A: "acked_ok A high rs"
  shows "write_ok fr sha fp A d (s, a, d, d\<lparr>sd_meta := Some (meta_bytes fr fp sid n)\<rparr>)"
proof -
  let ?d = "d\<lparr>sd_meta := Some (meta_bytes fr fp sid n)\<rparr>"
  have h': "stream_holds fr sha fp sid n rs [] ?d" using h n(1,3) by (rule holds_high_water)
  have "high \<le> int (length rs)" using h by (simp add: stream_holds_def)
  from acked_ok_grow [OF A n(2) this, of "[]"] have "acked_ok A n rs" by simp
  then have i': "stream_inv fr sha fp s' ?d A" and i: "stream_inv fr sha fp s' d A" if "survivor s s'" for s'
  proof -
    have k: "in_step fp sid rs [] s' d1" for d1 using that s(2) by (auto simp: in_step_def survivor_def)
    have "es_fingerprint s' = fp" using that s(1) by (auto simp: survivor_def)
    with k h h' A \<open>acked_ok A n rs\<close> show "stream_inv fr sha fp s' ?d A" "stream_inv fr sha fp s' d A"
      unfolding stream_inv_def by blast+
  qed
  have g: "stream_grows fr sha fp d ?d"
    by (rule growsI [OF f h, of n "[]" "[]"]) (use h' n(2) in simp_all)
  show ?thesis using i i' g by (simp add: write_ok_def tear_meta)
qed

text \<open>Adding a line: an interruption leaves nothing, an unfinished line, or the whole event.\<close>

lemma take_line: "j \<le> length l \<Longrightarrow> clean l \<Longrightarrow> CHR 10 \<notin> set (take j (l @ [CHR 10]))"
  by (auto simp: clean_def dest: in_set_takeD)

lemma log_write:
  assumes f: "floats_ok fr F" and h: "stream_holds fr sha fp sid high rs [] d"
    and r: "record_ok F r" "identity_keys r = []"
    and e: "e = with_identity sha sid (int (length rs) + 1) r"
    and s: "es_fingerprint s = fp" "log_stat d = es_stat s"
      "\<And>m. es_cached s = Some m \<Longrightarrow> cached_ok fp sid m \<and> es_next s = int (length rs) + 1"
    and A: "acked_ok A high rs"
  shows "write_ok fr sha fp A d (s, a, d, appended now (event_line fr e @ [CHR 10]) d)"
proof -
  let ?l = "event_line fr e"
  have c: "clean ?l" unfolding e by (rule clean_event_line [OF f record_with_identity [OF r]])
  have le: "high \<le> int (length rs)" using h by (simp add: stream_holds_def)
  have inv: "stream_inv fr sha fp s' d' A \<and> stream_grows fr sha fp d d'"
    if s': "survivor s s'" and h': "stream_holds fr sha fp sid high (rs @ rs') tail d'"
      and n: "s' = s \<Longrightarrow> log_stat d' = es_stat s \<Longrightarrow> rs' = [] \<and> tail = []" for s' d' rs' tail
  proof -
    have "in_step fp sid (rs @ rs') tail s' d'"
      using s' s(3) n by (auto simp: in_step_def survivor_def)
    moreover have "es_fingerprint s' = fp" using s' s(1) by (auto simp: survivor_def)
    moreover have "acked_ok A high (rs @ rs')" using A _ le by (rule acked_ok_grow) simp
    ultimately have "stream_inv fr sha fp s' d' A" using h' unfolding stream_inv_def by blast
    moreover have "stream_grows fr sha fp d d'" using growsI [OF f h h'] by simp
    ultimately show ?thesis ..
  qed
  have stat: "log_stat d \<noteq> Some (length (log_text d) + n, now)" if "0 < n" for n
    using that by (cases "sd_log d") (auto simp: log_stat_def log_text_def)
  show ?thesis unfolding write_ok_def prod.case
  proof (intro allI impI)
    fix j s' assume s': "survivor s s'"
    consider (none) "j = 0" "sd_log d \<noteq> None" | (created) "j = 0" "sd_log d = None"
      | (partial) "0 < j" "j \<le> length ?l" | (whole) "length ?l < j" by linarith
    then show "stream_inv fr sha fp s' (tear j d (appended now (?l @ [CHR 10]) d)) A \<and>
        stream_grows fr sha fp d (tear j d (appended now (?l @ [CHR 10]) d))"
    proof cases
      case none
      then show ?thesis using inv [OF s', of "[]" "[]" d] h by (simp add: tear_append)
    next
      case created
      have "stream_holds fr sha fp sid high rs [] (appended now [] d)"
        using h by (rule holds_same_text) simp_all
      moreover have "log_stat d = None" using created by (simp add: log_stat_def)
      ultimately show ?thesis using inv [OF s', of "[]" "[]"] created s(2) by (simp add: tear_append)
    next
      case partial
      have "stream_holds fr sha fp sid high rs (take j (?l @ [CHR 10])) (appended now (take j (?l @ [CHR 10])) d)"
        using h take_line [OF partial(2) c] by (rule holds_append_tail)
      moreover have "log_stat (appended now (take j (?l @ [CHR 10])) d) \<noteq> es_stat s"
        using stat [of j] partial s(2) by (simp add: min_def)
      ultimately show ?thesis
        using inv [OF s', of "[]" "take j (?l @ [CHR 10])" "appended now (take j (?l @ [CHR 10])) d"] partial
        by (simp add: tear_append)
    next
      case whole
      then have "take j (?l @ [CHR 10]) = ?l @ [CHR 10]" by simp
      moreover have "log_stat (appended now (?l @ [CHR 10]) d) \<noteq> es_stat s"
        using stat [of "Suc (length ?l)"] s(2) by simp
      ultimately show ?thesis
        using inv [OF s', of "[stored e]" "[]" "appended now (?l @ [CHR 10]) d"] holds_append_line [OF h f r e] whole by (simp add: tear_append)
    qed
  qed
qed

section \<open>Every operation keeps the invariant\<close>

text \<open>The outcome of a method that returns the metadata it works with.\<close>

definition opened ::
  "(rat \<Rightarrow> string) \<Rightarrow> (string \<Rightarrow> string) \<Rightarrow> string \<Rightarrow> stream_disk \<Rightarrow> pyval dict \<Rightarrow> bool" where
  "opened fr sha fp d m \<longleftrightarrow>
     (\<exists>sid high rs tail. stream_holds fr sha fp sid high rs tail d \<and> meta_id m = sid \<and>
        meta_high_water m = high \<and> cached_ok fp sid m)"

lemma write_ok_end: "write_ok fr sha fp A d0 (s, a, d, d\<lparr>sd_meta := x\<rparr>) \<Longrightarrow>
    stream_inv fr sha fp s (d\<lparr>sd_meta := x\<rparr>) A \<and> stream_grows fr sha fp d0 (d\<lparr>sd_meta := x\<rparr>)"
  unfolding write_ok_def prod.case survivor_def by (metis tear_meta zero_neq_one)

lemma load_metadata_spec:
  assumes f: "floats_ok fr F" and u: "uuid_text uid" and i: "stream_inv fr sha fp s d A"
    and r: "load_metadata fr sha check create uid s d a = (r, d1, a1, ws)"
  shows "stream_inv fr sha fp s d1 A \<and> stream_grows fr sha fp d d1 \<and> list_all (write_ok fr sha fp A d) ws \<and>
    (case r of Inl _ \<Rightarrow> True | Inr m \<Rightarrow> opened fr sha fp d1 m)"
proof (cases "sd_meta d")
  case (Some data)
  with i obtain sid high rs tail where h: "stream_holds fr sha fp sid high rs tail d"
    by (auto simp: stream_inv_def unopened_def)
  then have d: "data = meta_bytes fr fp sid high" "uuid_text sid" "0 \<le> high" using Some by (auto simp: stream_holds_def)
  have fp: "es_fingerprint s = fp" using i by (simp add: stream_inv_def)
  have e: "r = read_metadata fp (es_expected s) data" "d1 = d" "ws = []"
    using r Some fp by (auto simp: load_metadata_def)
  have "case r of Inl _ \<Rightarrow> True | Inr m \<Rightarrow> opened fr sha fp d m"
    using h unfolding e(1) d(1) read_meta_bytes [OF f d(2,3)]
    by (auto simp: opened_def cached_ok_def)
  with i show ?thesis unfolding e(2,3) by simp
next
  case None
  with i have n: "unopened d" "es_cached s = None" "A = []" "es_fingerprint s = fp"
    by (auto simp: stream_inv_def stream_holds_def)
  obtain rs where rs: "stream_records sha (first_metadata fp uid 0) (sd_log d) = Inr rs"
    "stream_holds fr sha fp uid (int (length rs)) rs [] (d\<lparr>sd_meta := Some (meta_bytes fr fp uid (int (length rs)))\<rparr>)"
    using unopened_first [OF n(1) u] .
  let ?m = "first_metadata fp uid (int (length rs))" let ?d = "d\<lparr>sd_meta := Some (meta_bytes fr fp uid (int (length rs)))\<rparr>"
  have t: "metadata_text fr ?m = meta_bytes fr fp uid (int (length rs))"
    using metadata_text_eq [OF stored_metadata(1)] by (simp add: meta_bytes_def)
  have inv: "stream_inv fr sha fp s' d A" "stream_inv fr sha fp s' ?d A" if "survivor s s'" for s'
  proof -
    have "es_cached s' = None" "es_fingerprint s' = fp" using that n(2,4) by (auto simp: survivor_def)
    then show "stream_inv fr sha fp s' d A" "stream_inv fr sha fp s' ?d A"
      using n(1,3) rs(2) in_step_fresh unfolding stream_inv_def acked_ok_def by (auto simp: in_step_fresh)
  qed
  have w: "write_ok fr sha fp A d (s, x, d, ?d)" for x
    using inv by (simp add: write_ok_def tear_meta unopened_grows [OF n(1)])
  have o: "opened fr sha fp ?d ?m" using rs(2) by (auto simp: opened_def cached_ok_def)
  show ?thesis
    using r None rs(1) n(4) i inv(2) [of s] w o unopened_grows [OF n(1)]
    by (auto simp: load_metadata_def t Let_def survivor_def split: if_splits option.splits prod.splits)
qed

lemma attach_spec:
  assumes f: "floats_ok fr F" and u: "uuid_text uid" and i: "stream_inv fr sha fp s d A"
    and r: "attach fr sha check uid s d a = (r, d1, a1, ws)"
  shows "stream_grows fr sha fp d d1 \<and> list_all (write_ok fr sha fp A d) ws \<and>
    (case r of Inl _ \<Rightarrow> stream_inv fr sha fp s d1 A
     | Inr (m, s1) \<Rightarrow> stream_inv fr sha fp s1 d1 A \<and> es_cached s1 = Some m)"
proof (cases "es_cached s")
  case (Some m)
  with i r show ?thesis by (auto simp: attach_def)
next
  case None
  obtain q d2 a2 vs where l: "load_metadata fr sha check True uid s d a = (q, d2, a2, vs)"
    by (metis prod_cases4)
  note spec = load_metadata_spec [OF f u i l]
  have e: "d1 = d2" "ws = vs" using r None l by (auto simp: attach_def split: sum.splits)
  show ?thesis
  proof (cases q)
    case (Inl x)
    with r None l spec show ?thesis by (auto simp: attach_def)
  next
    case (Inr m)
    with spec obtain sid high rs tail where h: "stream_holds fr sha fp sid high rs tail d2" "meta_id m = sid"
      "meta_high_water m = high" "cached_ok fp sid m" by (auto simp: opened_def)
    show ?thesis
    proof (cases "tail = []")
      case False
      with r None l Inr spec holds_records [OF h(1-3)] show ?thesis by (auto simp: attach_def)
    next
      case True
      let ?s = "s\<lparr>es_next := int (length rs) + 1, es_cached := Some m, es_stat := log_stat d2, es_meta := sd_meta d2\<rparr>"
      have r': "r = Inr (m, ?s)" using r None l Inr holds_records [OF h(1-3)] True by (auto simp: attach_def)
      have "acked_ok A high rs"
        using spec h(1) holds_unique [OF f h(1)] unfolding stream_inv_def
        by (metis empty_iff empty_set acked_ok_def)
      then have "stream_inv fr sha fp ?s d2 A"
        using spec h True unfolding stream_inv_def in_step_def by auto
      with spec e r' show ?thesis by simp
    qed
  qed
qed

definition acks :: "pyval dict res \<Rightarrow> pyval dict list" where
  "acks r = (case r of Inl _ \<Rightarrow> [] | Inr ev \<Rightarrow> [ev])"

lemma acks_simps [simp]: "acks (Inl e) = []" "acks (Inr ev) = [ev]"
  by (simp_all add: acks_def)

lemma stream_invI:
  "es_fingerprint s = fp \<Longrightarrow> stream_holds fr sha fp sid high rs tail d \<Longrightarrow> in_step fp sid rs tail s d \<Longrightarrow>
   acked_ok A high rs \<Longrightarrow> stream_inv fr sha fp s d A"
  unfolding stream_inv_def by blast

lemma acked_new:
  assumes "acked_ok A high rs" "high \<le> int (length rs)"
    and "ev = with_identity sha sid (int (length rs) + 1) r"
  shows "acked_ok (A @ [ev]) (int (length rs) + 1) (rs @ [stored ev])"
proof -
  have "acked_ok A (int (length rs) + 1) (rs @ [stored ev])" using assms(1,2) by (intro acked_ok_grow) simp_all
  moreover have "map_of ev ''sequence'' = Some (PInt (int (Suc (length rs))))"
    unfolding assms(3) with_identity_lookup by (simp add: add.commute)
  ultimately show ?thesis
    unfolding acked_ok_def by (auto intro!: exI [of _ "Suc (length rs)"])
qed

lemma publish_spec:
  fixes a :: 'a
  assumes f: "floats_ok fr F" and i: "stream_inv fr sha fp s d A" and m: "es_cached s = Some m"
    and rec: "record_ok F record"
    and r: "publish_event fr sha check now record m s d a = (r, s', d', a', ws)"
  shows "stream_inv fr sha fp s' d' (A @ acks r) \<and> stream_grows fr sha fp d d' \<and>
    list_all (write_ok fr sha fp A d) ws"
proof (cases "log_stat d \<noteq> es_stat s \<or> sd_meta d = None \<or> sd_meta d \<noteq> es_meta s \<or> identity_keys record \<noteq> []")
  case True
  with r i show ?thesis by (auto simp: publish_event_def split: if_splits)
next
  case False
  from i m obtain sid high rs tail where h: "stream_holds fr sha fp sid high rs tail d"
    "in_step fp sid rs tail s d" "acked_ok A high rs" "es_fingerprint s = fp" by (auto simp: stream_inv_def)
  with m False have n: "cached_ok fp sid m" "es_next s = int (length rs) + 1" "tail = []"
    by (auto simp: in_step_def)
  have h0: "stream_holds fr sha fp sid high rs [] d" using h(1) n(3) by simp
  have le: "0 \<le> high" "high \<le> int (length rs)" using h0 by (simp_all add: stream_holds_def)
  have id: "meta_id m = sid" "stored (AList.update ''high_water'' (PInt k) m) = meta_dict fp sid k" for k
    using n(1) stored_metadata(3,4) by (auto simp: cached_ok_def)
  define ev where "ev = with_identity sha sid (int (length rs) + 1) record"
  let ?d1 = "appended now (event_line fr ev @ [CHR 10]) d"
  let ?s1 = "s\<lparr>es_stat := log_stat ?d1, es_next := int (length rs) + 1 + 1\<rparr>"
  let ?d2 = "?d1\<lparr>sd_meta := Some (meta_bytes fr fp sid (int (length rs) + 1))\<rparr>"
  let ?s2 = "?s1\<lparr>es_meta := sd_meta ?d2\<rparr>"
  have ik: "identity_keys record = []" using False by simp
  have w1: "write_ok fr sha fp A d (s, x, d, ?d1)" for x :: 'a
    using log_write [OF f h0 rec ik ev_def h(4) _ _ h(3)] False m n by auto
  have h1: "stream_holds fr sha fp sid high (rs @ [stored ev]) [] ?d1" by (rule holds_append_line [OF h0 f rec ik ev_def])
  have g1: "stream_grows fr sha fp d ?d1" by (rule growsI [OF f h0 h1]) simp_all
  have A1: "acked_ok A high (rs @ [stored ev])" using h(3) _ le(2) by (rule acked_ok_grow) simp
  have i1: "stream_inv fr sha fp ?s1 ?d1 A"
    by (rule stream_invI [OF _ h1 _ A1]) (use h(4) m n in \<open>simp_all add: in_step_def\<close>)
  have w2: "write_ok fr sha fp A ?d1 (?s1, x, ?d1, ?d2)" for x :: 'a
    by (rule high_water_write [OF f h1]) (use le h(4) m n A1 in auto)
  then have w2': "write_ok fr sha fp A d (?s1, x, ?d1, ?d2)" for x :: 'a using g1 by (rule write_ok_grows)
  have h2: "stream_holds fr sha fp sid (int (length rs) + 1) (rs @ [stored ev]) [] ?d2"
    by (rule holds_high_water [OF h1]) simp_all
  have A2: "acked_ok (A @ [ev]) (int (length rs) + 1) (rs @ [stored ev])" by (rule acked_new [OF h(3) le(2) ev_def])
  have i2: "stream_inv fr sha fp ?s2 ?d2 (A @ [ev])"
    by (rule stream_invI [OF _ h2 _ A2]) (use h(4) m n in \<open>simp_all add: in_step_def\<close>)
  have g2: "stream_grows fr sha fp d ?d2" using write_ok_end [OF w2'] by simp
  have p: "publish_event fr sha check now record m s d a =
     (case check a of
        (Some e, a1) \<Rightarrow> (Inl e, s, d, a1, [])
      | (None, a1) \<Rightarrow>
          (case check a1 of
             (Some e, a2) \<Rightarrow> (Inl e, ?s1, ?d1, a2, [(s, a1, d, ?d1)])
           | (None, a2) \<Rightarrow> (Inr ev, ?s2, ?d2, a2, [(s, a1, d, ?d1), (?s1, a2, ?d1, ?d2)])))"
  proof -
    have g: "\<not> (log_stat d \<noteq> es_stat s \<or> sd_meta d = None \<or> sd_meta d \<noteq> es_meta s)" "\<not> identity_keys record \<noteq> []"
      using False by blast+
    have mt: "metadata_text fr (AList.update ''high_water'' (PInt (int (length rs) + 1)) m) =
        meta_bytes fr fp sid (int (length rs) + 1)"
      unfolding meta_bytes_def by (rule metadata_text_eq [OF id(2)])
    show ?thesis
      unfolding publish_event_def Let_def if_not_P [OF g(1)] if_not_P [OF g(2)] n(2) id(1) mt
        ev_def appended_def ..
  qed
  consider (first) e a1 where "check a = (Some e, a1)"
    | (second) a1 e a2 where "check a = (None, a1)" "check a1 = (Some e, a2)"
    | (both) a1 a2 where "check a = (None, a1)" "check a1 = (None, a2)"
    by (metis not_None_eq surj_pair)
  then show ?thesis
  proof cases
    case first
    with r p have "r = Inl e" "s' = s" "d' = d" "ws = []" by auto
    with i show ?thesis by simp
  next
    case second
    with r p have "r = Inl e" "s' = ?s1" "d' = ?d1" "ws = [(s, a1, d, ?d1)]" by auto
    with i1 g1 w1 show ?thesis by simp
  next
    case both
    with r p have "r = Inr ev" "s' = ?s2" "d' = ?d2" "ws = [(s, a1, d, ?d1), (?s1, a2, ?d1, ?d2)]" by auto
    with i2 g2 w1 w2' show ?thesis by simp
  qed
qed

lemma append_spec:
  assumes f: "floats_ok fr F" and u: "uuid_text uid" and i: "stream_inv fr sha fp s d A" and rec: "record_ok F record"
    and r: "append_event fr sha check now uid record s d a = (r, s', d', a', ws)"
  shows "stream_inv fr sha fp s' d' (A @ acks r) \<and> stream_grows fr sha fp d d' \<and>
    list_all (write_ok fr sha fp A d) ws"
proof -
  obtain q d1 a1 vs where t: "attach fr sha check uid s d a = (q, d1, a1, vs)" by (metis prod_cases4)
  note spec = attach_spec [OF f u i t]
  show ?thesis
  proof (cases q)
    case (Inl e)
    with r t spec show ?thesis by (auto simp: append_event_def)
  next
    case (Inr p)
    obtain m s1 where p: "p = (m, s1)" by (cases p)
    obtain r2 s2 d2 a2 us where pe: "publish_event fr sha check now record m s1 d1 a1 = (r2, s2, d2, a2, us)"
      by (metis prod_cases5)
    have e: "r = r2" "s' = s2" "d' = d2" "ws = vs @ us" using r t Inr p pe by (auto simp: append_event_def)
    from spec Inr p have "stream_inv fr sha fp s1 d1 A" "es_cached s1 = Some m" "stream_grows fr sha fp d d1" by simp_all
    moreover from publish_spec [OF f this(1,2) rec pe] have
      "stream_inv fr sha fp s2 d2 (A @ acks r2)" "stream_grows fr sha fp d1 d2" "list_all (write_ok fr sha fp A d1) us"
      by simp_all
    ultimately show ?thesis
      using spec e by (auto simp: list_all_iff intro: grows_trans write_ok_grows)
  qed
qed

lemma ensure_spec:
  assumes f: "floats_ok fr F" and u: "uuid_text uid" and i: "stream_inv fr sha fp s d A"
    and r: "ensure_identity fr sha check uid s d a = (r, d', a', ws)"
  shows "stream_inv fr sha fp s d' A \<and> stream_grows fr sha fp d d' \<and> list_all (write_ok fr sha fp A d) ws"
proof -
  obtain q d1 a1 vs where l: "load_metadata fr sha check True uid s d a = (q, d1, a1, vs)" by (metis prod_cases4)
  with r have "d' = d1" "ws = vs" by (auto simp: ensure_identity_def split: sum.splits)
  with load_metadata_spec [OF f u i l] show ?thesis by simp
qed

end
