(* ===== verification/EventHistory.thy ===== *)
theory EventHistory
  imports EventStreamProofs "HOL-Library.Sublist"
begin

text \<open>
  Histories of a run's event stream: sequences of calls, restarts of the process and interrupted
  writes, over the operations of \<open>src/qraft/execution/event_stream.py\<close>, and the guarantees that
  hold for all of them.
\<close>

section \<open>Histories\<close>

record 'a stream_system =
  sy_stream :: event_stream
  sy_disk :: stream_disk
  sy_check :: 'a
  sy_acked :: "pyval dict list"

datatype stream_call = Ensure string | Emit "pyval dict" nat string

text \<open>
  A call that ends; a call whose \<open>i\<close>-th write is interrupted after \<open>j\<close> bytes, with the process
  going on (the file system raised) or not; and a new process.
\<close>

datatype stream_event = Call stream_call | Broken stream_call nat nat bool | Restart "string option"

fun call_stream ::
  "(rat \<Rightarrow> string) \<Rightarrow> (string \<Rightarrow> string) \<Rightarrow> ('a \<Rightarrow> exn option \<times> 'a) \<Rightarrow> stream_call \<Rightarrow> event_stream \<Rightarrow> stream_disk \<Rightarrow>
   'a \<Rightarrow> pyval dict list \<times> event_stream \<times> stream_disk \<times> 'a \<times> 'a stream_write list" where
  "call_stream fr sha check (Ensure uid) s d a =
     (case ensure_identity fr sha check uid s d a of (r, d1, a1, ws) \<Rightarrow> ([], s, d1, a1, ws))"
| "call_stream fr sha check (Emit r0 now uid) s d a =
     (case append_event fr sha check now uid r0 s d a of (r, s1, d1, a1, ws) \<Rightarrow> (acks r, s1, d1, a1, ws))"

definition finish_call ::
  "pyval dict list \<times> event_stream \<times> stream_disk \<times> 'a \<times> 'a stream_write list \<Rightarrow> 'a stream_system \<Rightarrow> 'a stream_system" where
  "finish_call q sys =
     (case q of (acked, s, d, a, ws) \<Rightarrow>
        sys\<lparr>sy_stream := s, sy_disk := d, sy_check := a, sy_acked := sy_acked sys @ acked\<rparr>)"

fun stream_step ::
  "(rat \<Rightarrow> string) \<Rightarrow> (string \<Rightarrow> string) \<Rightarrow> ('a \<Rightarrow> exn option \<times> 'a) \<Rightarrow> 'a \<Rightarrow> stream_event \<Rightarrow> 'a stream_system \<Rightarrow>
   'a stream_system" where
  "stream_step fr sha check a0 (Restart expected) sys =
     sys\<lparr>sy_stream := new_stream (es_fingerprint (sy_stream sys)) expected, sy_check := a0\<rparr>"
| "stream_step fr sha check a0 (Call c) sys =
     finish_call (call_stream fr sha check c (sy_stream sys) (sy_disk sys) (sy_check sys)) sys"
| "stream_step fr sha check a0 (Broken c i j alive) sys =
     (case call_stream fr sha check c (sy_stream sys) (sy_disk sys) (sy_check sys) of
        (acked, s, d, a, ws) \<Rightarrow>
          if i < length ws
          then (case ws ! i of (s1, a1, d1, d2) \<Rightarrow>
                  sys\<lparr>sy_disk := tear j d1 d2,
                      sy_stream := (if alive then s1 else new_stream (es_fingerprint s1) (es_expected s1)),
                      sy_check := (if alive then a1 else a0)\<rparr>)
          else finish_call (acked, s, d, a, ws) sys)"

definition run_stream ::
  "(rat \<Rightarrow> string) \<Rightarrow> (string \<Rightarrow> string) \<Rightarrow> ('a \<Rightarrow> exn option \<times> 'a) \<Rightarrow> 'a \<Rightarrow> stream_event list \<Rightarrow> 'a stream_system \<Rightarrow>
   'a stream_system" where
  "run_stream fr sha check a0 evs sys = fold (stream_step fr sha check a0) evs sys"

definition start_stream :: "string \<Rightarrow> string option \<Rightarrow> stream_disk \<Rightarrow> 'a \<Rightarrow> 'a stream_system" where
  "start_stream fp expected d a =
     \<lparr>sy_stream = new_stream fp expected, sy_disk = d, sy_check = a, sy_acked = []\<rparr>"

text \<open>What the arguments of the calls satisfy: \<open>uuid4\<close> is canonical, records are JSON mappings.\<close>

fun call_ok :: "rat set \<Rightarrow> stream_call \<Rightarrow> bool" where
  "call_ok F (Ensure uid) = uuid_text uid"
| "call_ok F (Emit r0 now uid) = (uuid_text uid \<and> record_ok F r0)"

fun stream_event_ok :: "rat set \<Rightarrow> stream_event \<Rightarrow> bool" where
  "stream_event_ok F (Call c) = call_ok F c"
| "stream_event_ok F (Broken c i j alive) = call_ok F c"
| "stream_event_ok F (Restart expected) = True"

section \<open>Nothing acknowledged is lost\<close>

lemma call_spec:
  assumes f: "floats_ok fr F" and c: "call_ok F c" and i: "stream_inv fr sha fp s d A"
    and r: "call_stream fr sha check c s d a = (acked, s', d', a', ws)"
  shows "stream_inv fr sha fp s' d' (A @ acked) \<and> stream_grows fr sha fp d d' \<and> list_all (write_ok fr sha fp A d) ws"
proof (cases c)
  case (Ensure uid)
  obtain q d1 a1 vs where e: "ensure_identity fr sha check uid s d a = (q, d1, a1, vs)" by (metis prod_cases4)
  from ensure_spec [OF f _ i e] c r e Ensure show ?thesis by auto
next
  case (Emit r0 now uid)
  obtain q s1 d1 a1 vs where e: "append_event fr sha check now uid r0 s d a = (q, s1, d1, a1, vs)"
    by (metis prod_cases5)
  from append_spec [OF f _ i _ e] c r e Emit show ?thesis by auto
qed

lemma fingerprint_inv: "stream_inv fr sha fp s d A \<Longrightarrow> es_fingerprint s = fp"
  by (simp add: stream_inv_def)

lemma new_stream_inv: "stream_inv fr sha fp s d A \<Longrightarrow> stream_inv fr sha fp (new_stream fp expected) d A"
  unfolding stream_inv_def by (auto simp: new_stream_def in_step_def)

lemma step_spec:
  assumes f: "floats_ok fr F" and e: "stream_event_ok F ev"
    and i: "stream_inv fr sha fp (sy_stream sys) (sy_disk sys) (sy_acked sys)"
    and sys'_def: "sys' = stream_step fr sha check a0 ev sys"
  shows "stream_inv fr sha fp (sy_stream sys') (sy_disk sys') (sy_acked sys') \<and>
    stream_grows fr sha fp (sy_disk sys) (sy_disk sys')"
proof (cases ev)
  case (Restart expected)
  then show ?thesis using new_stream_inv [OF i] fingerprint_inv [OF i] by (simp add: sys'_def)
next
  case (Call c)
  obtain acked s d a ws where r: "call_stream fr sha check c (sy_stream sys) (sy_disk sys) (sy_check sys) = (acked, s, d, a, ws)"
    by (metis prod_cases5)
  from call_spec [OF f _ i r] e Call r show ?thesis by (simp add: sys'_def finish_call_def)
next
  case (Broken c k j alive)
  obtain acked s d a ws where r: "call_stream fr sha check c (sy_stream sys) (sy_disk sys) (sy_check sys) = (acked, s, d, a, ws)"
    by (metis prod_cases5)
  note spec = call_spec [OF f _ i r]
  show ?thesis
  proof (cases "k < length ws")
    case False
    with spec e Broken r show ?thesis by (simp add: sys'_def finish_call_def)
  next
    case True
    obtain s1 a1 d1 d2 where w: "ws ! k = (s1, a1, d1, d2)" by (metis prod_cases4)
    have "write_ok fr sha fp (sy_acked sys) (sy_disk sys) (ws ! k)"
      using spec e Broken True by (simp add: list_all_length)
    moreover have "survivor s1 (if alive then s1 else new_stream (es_fingerprint s1) (es_expected s1))"
      by (simp add: survivor_def new_stream_def)
    ultimately show ?thesis
      using w r Broken True unfolding write_ok_def by (simp add: sys'_def)
  qed
qed

lemma run_spec:
  assumes f: "floats_ok fr F" and "list_all (stream_event_ok F) evs"
    and "stream_inv fr sha fp (sy_stream sys) (sy_disk sys) (sy_acked sys)"
    and sys'_def: "sys' = run_stream fr sha check a0 evs sys"
  shows "stream_inv fr sha fp (sy_stream sys') (sy_disk sys') (sy_acked sys') \<and>
    stream_grows fr sha fp (sy_disk sys) (sy_disk sys')"
  using assms(2,3) unfolding sys'_def run_stream_def
proof (induction evs arbitrary: sys)
  case (Cons ev evs)
  have s: "stream_inv fr sha fp (sy_stream (stream_step fr sha check a0 ev sys)) (sy_disk (stream_step fr sha check a0 ev sys))
        (sy_acked (stream_step fr sha check a0 ev sys)) \<and>
      stream_grows fr sha fp (sy_disk sys) (sy_disk (stream_step fr sha check a0 ev sys))"
    using step_spec [OF f _ Cons.prems(2) refl] Cons.prems(1) by simp
  with Cons.IH Cons.prems(1) show ?case by (auto intro: grows_trans)
qed simp

text \<open>
  Property C7. The event stream is durable and append-only. Over every history of appends, restarts
  and interruptions at any byte of any write, starting from a log that no stream has opened yet:
  once the stream exists, its identity never changes, the complete events a later state holds
  extend those of an earlier state, the high-water mark only rises, an unfinished line is never
  continued, and every event an append acknowledged is stored under its number, below the
  high-water mark.
\<close>

theorem event_history_durable:
  assumes "floats_ok fr F" "unopened d" "list_all (stream_event_ok F) (evs1 @ evs2)"
    and "sys1 = run_stream fr sha check a0 evs1 (start_stream fp expected d a0)"
    and "sys2 = run_stream fr sha check a0 evs2 sys1"
  shows "unopened (sy_disk sys1) \<and> sy_acked sys1 = [] \<or>
    (\<exists>sid high rs tail high' rs' tail'.
       stream_holds fr sha fp sid high rs tail (sy_disk sys1) \<and> acked_ok (sy_acked sys1) high rs \<and>
       stream_holds fr sha fp sid high' (rs @ rs') tail' (sy_disk sys2) \<and>
       acked_ok (sy_acked sys2) high' (rs @ rs') \<and>
       high \<le> high' \<and> (tail \<noteq> [] \<longrightarrow> rs' = [] \<and> tail' = tail))"
proof -
  have "stream_inv fr sha fp (new_stream fp expected) d []"
    using assms(2) by (simp add: stream_inv_def new_stream_def)
  then have 1: "stream_inv fr sha fp (sy_stream sys1) (sy_disk sys1) (sy_acked sys1)"
    using run_spec [OF assms(1) _ _ assms(4), of fp] assms(3)
    by (simp add: start_stream_def)
  then have 2: "stream_inv fr sha fp (sy_stream sys2) (sy_disk sys2) (sy_acked sys2)"
    "stream_grows fr sha fp (sy_disk sys1) (sy_disk sys2)"
    using run_spec [OF assms(1) _ _ assms(5), of fp] assms(3) by simp_all
  show ?thesis
  proof (cases "unopened (sy_disk sys1)")
    case True
    with 1 unopened_not_holds show ?thesis unfolding stream_inv_def by blast
  next
    case False
    with 1 obtain sid high rs tail where h: "stream_holds fr sha fp sid high rs tail (sy_disk sys1)"
      "acked_ok (sy_acked sys1) high rs" unfolding stream_inv_def by blast
    with 2(2) obtain high' rs' tail' where g: "stream_holds fr sha fp sid high' (rs @ rs') tail' (sy_disk sys2)"
      "high \<le> high'" "tail \<noteq> [] \<longrightarrow> rs' = [] \<and> tail' = tail" unfolding stream_grows_def by blast
    from 2(1) obtain s2 h2 r2 t2 where k: "stream_holds fr sha fp s2 h2 r2 t2 (sy_disk sys2)" "acked_ok (sy_acked sys2) h2 r2"
      using unopened_not_holds g(1) unfolding stream_inv_def by blast
    from holds_unique [OF assms(1) g(1) k(1)] k(2) have "acked_ok (sy_acked sys2) high' (rs @ rs')" by simp
    with h g show ?thesis by blast
  qed
qed

section \<open>Pages\<close>

lemma cursor_roundtrip:
  assumes "floats_ok fr F" "0 \<le> p" "p \<le> held"
  shows "cursor_position sid held (Some (cursor fr sid p)) = Inr p"
proof -
  have "json_loads pairs_to_dict (json_text fr (PList [PStr sid, PInt p]) @ []) = Some (PList [PStr sid, PInt p])"
    by (rule json_loads_text [of fr F]) (use assms(1) in \<open>simp_all add: floats_ok_def pairs_to_dict_ok\<close>)
  then have "Option.bind (b64_decode (cursor fr sid p)) (json_loads pairs_to_dict) = Some (PList [PStr sid, PInt p])"
    unfolding cursor_def b64_roundtrip by (simp del: json_text.simps)
  then show ?thesis using assms(2,3) by (simp add: cursor_position_def)
qed

lemma read_holds:
  assumes f: "floats_ok fr F" and h: "stream_holds fr sha fp sid high rs [] d"
    and s: "es_fingerprint s = fp" "es_expected s = None \<or> es_expected s = Some sid"
    and l: "1 \<le> limit" "limit \<le> 10000"
    and p: "cursor_position sid (int (length rs)) after = Inr (int p)" "p \<le> length rs"
  shows "read_events fr sha after limit s d = Inr \<lparr>pg_stream = sid, pg_events = take (nat limit) (drop p rs),
    pg_cursor = cursor fr sid (int (min (p + nat limit) (length rs)))\<rparr>"
proof -
  have d: "sd_meta d = Some (meta_bytes fr fp sid high)" "uuid_text sid" "0 \<le> high"
    using h by (auto simp: stream_holds_def)
  have m: "fst (load_metadata fr sha (Pair None) False [] s d ()) = Inr (meta_dict fp sid high)"
    using read_meta_bytes [OF f d(2,3)] s by (simp add: load_metadata_def d(1))
  have r: "stream_records sha (meta_dict fp sid high) (sd_log d) = Inr rs"
    using holds_records [OF h, of "meta_dict fp sid high"] by simp
  have n: "int p + int (length (take (nat limit) (drop p rs))) = int (min (p + nat limit) (length rs))"
    using p(2) by simp
  show ?thesis
    unfolding read_events_def m r rbind_simps meta_dict_fields p(1) Let_def nat_int n using l by simp
qed

text \<open>Reading on with the cursor of the page before, each page from the files of its moment.\<close>

fun follow_pages ::
  "(rat \<Rightarrow> string) \<Rightarrow> (string \<Rightarrow> string) \<Rightarrow> event_stream \<Rightarrow> string option \<Rightarrow> (int \<times> stream_disk) list \<Rightarrow> pyval dict list res" where
  "follow_pages fr sha s after [] = Inr []"
| "follow_pages fr sha s after ((limit, d) # visits) =
     rbind (read_events fr sha after limit s d) (\<lambda>page.
     rbind (follow_pages fr sha s (Some (pg_cursor page)) visits) (\<lambda>rest. Inr (pg_events page @ rest)))"

fun page_position :: "(int \<times> stream_disk) list \<Rightarrow> pyval dict list list \<Rightarrow> nat \<Rightarrow> nat" where
  "page_position ((limit, d) # visits) (rs # rss) p = page_position visits rss (min (p + nat limit) (length rs))"
| "page_position _ _ p = p"

definition visit_ok ::
  "(rat \<Rightarrow> string) \<Rightarrow> (string \<Rightarrow> string) \<Rightarrow> string \<Rightarrow> string \<Rightarrow> int \<times> stream_disk \<Rightarrow> pyval dict list \<Rightarrow> bool" where
  "visit_ok fr sha fp sid v rs \<longleftrightarrow>
     1 \<le> fst v \<and> fst v \<le> 10000 \<and> (\<exists>high. stream_holds fr sha fp sid high rs [] (snd v))"

lemma page_position_le:
  "list_all2 (visit_ok fr sha fp sid) visits rss \<Longrightarrow> sorted_wrt prefix rss \<Longrightarrow> rss \<noteq> [] \<Longrightarrow> p \<le> length (hd rss) \<Longrightarrow>
   p \<le> page_position visits rss p"
proof (induction visits rss p rule: page_position.induct)
  case (1 limit d visits rs rss p)
  show ?case
  proof (cases rss)
    case Nil
    with 1 show ?thesis by simp
  next
    case (Cons rs' rss')
    then have "length rs \<le> length rs'" using 1(3) by (auto intro: prefix_length_le)
    with 1 Cons show ?thesis by fastforce
  qed
qed auto

lemma take_pieces:
  assumes "p \<le> q" "q \<le> t"
  shows "take (q - p) (drop p xs) @ take (t - q) (drop q xs) = take (t - p) (drop p xs)"
proof -
  have "take (q - p + (t - q)) (drop p xs) = take (q - p) (drop p xs) @ take (t - q) (drop (q - p) (drop p xs))"
    by (rule take_add)
  with assms show ?thesis by simp
qed

lemma follow_from:
  assumes "floats_ok fr F" "es_fingerprint s = fp" "es_expected s = None \<or> es_expected s = Some sid"
    and "list_all2 (visit_ok fr sha fp sid) visits rss" "sorted_wrt prefix rss" "rss \<noteq> []" "p \<le> length (hd rss)"
    and "cursor_position sid (int (length (hd rss))) after = Inr (int p)"
  shows "follow_pages fr sha s after visits = Inr (take (page_position visits rss p - p) (drop p (last rss)))"
  using assms(4-8)
proof (induction visits arbitrary: rss p after)
  case (Cons v visits)
  obtain limit d where v: "v = (limit, d)" by (cases v)
  obtain rs rss' where r: "rss = rs # rss'" using Cons.prems(1) by (cases rss) auto
  obtain high where h: "stream_holds fr sha fp sid high rs [] d" "1 \<le> limit" "limit \<le> 10000"
    using Cons.prems(1) v r by (auto simp: visit_ok_def)
  let ?q = "min (p + nat limit) (length rs)"
  have pl: "p \<le> length rs" using Cons.prems(4) r by simp
  have page: "read_events fr sha after limit s d = Inr \<lparr>pg_stream = sid, pg_events = take (nat limit) (drop p rs),
      pg_cursor = cursor fr sid (int ?q)\<rparr>"
    by (rule read_holds [OF assms(1) h(1) assms(2,3) h(2,3)]) (use Cons.prems(5) r pl in simp_all)
  show ?case
  proof (cases rss')
    case Nil
    then have "visits = []" using Cons.prems(1) r by simp
    then show ?thesis using page v r Nil pl by (simp add: min_def)
  next
    case (Cons rs' rest)
    have pre: "prefix rs rs'" "sorted_wrt prefix rss'" "list_all2 (visit_ok fr sha fp sid) visits rss'"
      using Cons.prems(1,2) r Cons by auto
    have q: "?q \<le> length rs'" using prefix_length_le [OF pre(1)] by simp
    have "cursor_position sid (int (length (hd rss'))) (Some (cursor fr sid (int ?q))) = Inr (int ?q)"
      by (rule cursor_roundtrip [OF assms(1)]) (use q Cons in simp_all)
    then have IH: "follow_pages fr sha s (Some (cursor fr sid (int ?q))) visits =
        Inr (take (page_position visits rss' ?q - ?q) (drop ?q (last rss')))"
      using Cons.IH [OF pre(3,2), of ?q] q Cons by simp
    have last: "prefix rs (last rss')"
      using Cons.prems(2) r Cons by (simp del: last.simps) (metis last_in_set list.distinct(1) list.set_intros(1) set_ConsD)
    have le: "?q \<le> page_position visits rss' ?q" by (rule page_position_le [OF pre(3,2)]) (use q Cons in simp_all)
    have "take (nat limit) (drop p rs) = take (?q - p) (drop p (last rss'))"
      using last pl by (auto simp: prefix_def min_def)
    then have "take (nat limit) (drop p rs) @ take (page_position visits rss' ?q - ?q) (drop ?q (last rss')) =
        take (page_position visits rss' ?q - p) (drop p (last rss'))"
      using take_pieces [of p ?q "page_position visits rss' ?q" "last rss'"] le pl by simp
    with page IH v r Cons show ?thesis by simp
  qed
qed simp

text \<open>
  Property C18. Reading page by page misses nothing and repeats nothing. A reader that starts without
  a cursor and passes on the cursor of each page, whatever page sizes it asks for and however much
  the stream has grown between two pages, has read exactly a prefix of the events of the last
  state, and its length is the sum of the page sizes up to what was there.
\<close>

theorem event_pages_seamless:
  assumes "floats_ok fr F" "es_fingerprint s = fp" "es_expected s = None \<or> es_expected s = Some sid"
    and "list_all2 (visit_ok fr sha fp sid) visits rss" "sorted_wrt prefix rss" "rss \<noteq> []"
  shows "follow_pages fr sha s None visits = Inr (take (page_position visits rss 0) (last rss))"
  using follow_from [OF assms(1-6), of 0 None] by (simp add: cursor_position_def)

section \<open>Files that were tampered with\<close>

lemma strict_identity:
  assumes "map_res (check_line sha sid) (enumerate n ls) = Inr rs" "i < length rs"
  shows "map_of (rs ! i) ''stream_id'' = Some (PStr sid)" "map_of (rs ! i) ''sequence'' = Some (PInt (int (n + i)))"
    "map_of (rs ! i) ''event_id'' = Some (PStr (event_id sha sid (int (n + i))))"
proof -
  have "length rs = length ls" using assms(1) by (rule records_length)
  then have "check_line sha sid (n + i, ls ! i) = Inr (rs ! i)"
    using assms by (auto simp: map_res_Inr_iff list_all2_conv_all_nth nth_enumerate_eq)
  then show "map_of (rs ! i) ''stream_id'' = Some (PStr sid)" "map_of (rs ! i) ''sequence'' = Some (PInt (int (n + i)))"
    "map_of (rs ! i) ''event_id'' = Some (PStr (event_id sha sid (int (n + i))))"
    by (auto dest: line_identity)
qed


section \<open>A denied runtime publishes nothing\<close>

context publisher
begin

lemma denied_load:
  assumes "denied a" "load_metadata fr sha check create uid s d a = (r, d', a', ws)"
  shows "d' = d \<and> ws = [] \<and> denied a'"
  using assms refusedE [OF assms(1)]
  by (auto simp: load_metadata_def split: option.splits if_splits sum.splits prod.splits)

lemma denied_attach:
  assumes "denied a" "attach fr sha check uid s d a = (r, d', a', ws)"
  shows "d' = d \<and> ws = [] \<and> denied a'"
proof (cases "es_cached s")
  case None
  obtain q d1 a1 vs where l: "load_metadata fr sha check True uid s d a = (q, d1, a1, vs)" by (metis prod_cases4)
  with None assms(2) have "d' = d1" "a' = a1" "ws = vs" by (auto simp: attach_def split: sum.splits)
  with denied_load [OF assms(1) l] show ?thesis by simp
qed (use assms in \<open>auto simp: attach_def\<close>)

lemma denied_publish:
  assumes "denied a" "publish_event fr sha check now r0 m s d a = (r, s', d', a', ws)"
  shows "d' = d \<and> ws = [] \<and> denied a' \<and> acks r = []"
proof -
  obtain e a1 where "check a = (Some e, a1)" "denied a1" using refusedE [OF assms(1)] .
  then show ?thesis using assms by (auto simp: publish_event_def Let_def split: if_splits)
qed

lemma denied_call:
  assumes a: "denied a" and r: "call_stream fr sha check c s d a = (acked, s', d', a', ws)"
  shows "d' = d \<and> ws = [] \<and> denied a' \<and> acked = []"
proof (cases c)
  case (Ensure uid)
  obtain q d1 a1 vs where l: "load_metadata fr sha check True uid s d a = (q, d1, a1, vs)" by (metis prod_cases4)
  with denied_load [OF a l] r Ensure show ?thesis by (auto simp: ensure_identity_def split: sum.splits)
next
  case (Emit r0 now uid)
  obtain q d1 a1 vs where t: "attach fr sha check uid s d a = (q, d1, a1, vs)" by (metis prod_cases4)
  note 1 = denied_attach [OF a t]
  show ?thesis
  proof (cases q)
    case (Inl e)
    with r Emit t 1 show ?thesis by (auto simp: append_event_def)
  next
    case (Inr p)
    obtain m s1 where p: "p = (m, s1)" by (cases p)
    obtain r2 s2 d2 a2 us where pe: "publish_event fr sha check now r0 m s1 d1 a1 = (r2, s2, d2, a2, us)" by (metis prod_cases5)
    with denied_publish [OF _ pe] 1 r Emit t Inr p show ?thesis by (auto simp: append_event_def)
  qed
qed

lemma denied_step:
  assumes "denied (sy_check sys)" "\<forall>expected. ev \<noteq> Restart expected" "sys' = stream_step fr sha check a0 ev sys"
  shows "sy_disk sys' = sy_disk sys \<and> sy_acked sys' = sy_acked sys \<and> denied (sy_check sys')"
proof -
  obtain c where c: "ev = Call c \<or> (\<exists>i j alive. ev = Broken c i j alive)" using assms(2) by (cases ev) auto
  obtain acked s d a ws where r: "call_stream fr sha check c (sy_stream sys) (sy_disk sys) (sy_check sys) = (acked, s, d, a, ws)"
    by (metis prod_cases5)
  from denied_call [OF assms(1) r] r c assms(3) show ?thesis by (auto simp: finish_call_def)
qed

lemma denied_run:
  "denied (sy_check sys) \<Longrightarrow> list_all (\<lambda>ev. \<forall>expected. ev \<noteq> Restart expected) evs \<Longrightarrow>
   sy_disk (run_stream fr sha check a0 evs sys) = sy_disk sys \<and>
   sy_acked (run_stream fr sha check a0 evs sys) = sy_acked sys"
proof (induction evs arbitrary: sys)
  case (Cons ev evs)
  have e: "\<forall>expected. ev \<noteq> Restart expected" using Cons.prems(2) by simp
  note s = denied_step [OF Cons.prems(1) e refl, of fr sha a0]
  with Cons.IH [of "stream_step fr sha check a0 ev sys"] Cons.prems(2) show ?case
    by (simp add: run_stream_def)
qed (simp add: run_stream_def)

end

text \<open>
  Property C9. A runtime whose authority was denied publishes no event. From the denial on, whatever
  calls the runtime makes on its event stream and however they end, the log and the metadata stay
  byte for byte as they are and nothing more is acknowledged, until a new process starts.
\<close>

theorem denied_runtime_publishes_nothing:
  assumes "au_lost (sy_check sys)" "list_all (\<lambda>ev. \<forall>expected. ev \<noteq> Restart expected) evs"
  shows "sy_disk (run_stream fr sha (check_authority verifier b) a0 evs sys) = sy_disk sys \<and>
    sy_acked (run_stream fr sha (check_authority verifier b) a0 evs sys) = sy_acked sys"
  using assms by (rule runtime.denied_run)

section \<open>Witnesses\<close>

definition sample_uid :: string where
  "sample_uid = ''01234567-89ab-cdef-0123-456789abcdef''"

definition sample_emit :: "string \<Rightarrow> stream_call" where
  "sample_emit name = Emit [(''event'', PStr name)] 7 sample_uid"

definition sample_first :: "unit stream_system" where
  "sample_first = run_stream (\<lambda>_. []) (\<lambda>_. ''h'') (Pair None) () [Call (sample_emit ''RUN_STARTED'')]
     (start_stream ''f'' None \<lparr>sd_log = None, sd_meta = None\<rparr> ())"

definition sample_second :: "unit stream_system" where
  "sample_second = run_stream (\<lambda>_. []) (\<lambda>_. ''h'') (Pair None) ()
     [Broken (sample_emit ''RUN_FINISHED'') 0 9 False, Restart (Some sample_uid)] sample_first"

lemma floats_ok_none: "floats_ok fr {}"
  by (simp add: floats_ok_def float_repr_ok_def float_reads_def)

lemma sample_events_ok:
  "list_all (stream_event_ok {}) ([Call (sample_emit ''RUN_STARTED'')] @
     [Broken (sample_emit ''RUN_FINISHED'') 0 9 False, Restart (Some sample_uid)])"
proof -
  have "uuid_text sample_uid" by code_simp
  then show ?thesis by (simp add: sample_emit_def record_ok_def)
qed

lemma sample_unopened: "unopened \<lparr>sd_log = None, sd_meta = None\<rparr>"
  by (auto simp: unopened_def log_text_def intro!: exI [of _ "[]"])

lemma sample_acked: "sy_acked sample_first \<noteq> []"
  by (simp add: sample_first_def sample_emit_def run_stream_def start_stream_def new_stream_def finish_call_def
      append_event_def attach_def load_metadata_def stream_records_def publish_event_def Let_def identity_keys_def
      acks_def)

theorem event_history_durable_witness:
  "\<exists>sid high rs tail high' rs' tail'.
     stream_holds (\<lambda>_. []) (\<lambda>_. ''h'') ''f'' sid high rs tail (sy_disk sample_first) \<and>
     acked_ok (sy_acked sample_first) high rs \<and>
     stream_holds (\<lambda>_. []) (\<lambda>_. ''h'') ''f'' sid high' (rs @ rs') tail' (sy_disk sample_second) \<and>
     sy_acked sample_first \<noteq> []"
  using event_history_durable [OF floats_ok_none sample_unopened sample_events_ok sample_first_def sample_second_def]
    sample_acked by blast


definition sample_opened :: stream_disk where
  "sample_opened = \<lparr>sd_log = None, sd_meta = Some (meta_bytes (\<lambda>_. []) ''f'' sample_uid 0)\<rparr>"

definition sample_event :: "pyval dict" where
  "sample_event = with_identity (\<lambda>_. ''h'') sample_uid 1 [(''event'', PStr ''RUN_STARTED'')]"

definition sample_grown :: stream_disk where
  "sample_grown = appended 7 (event_line (\<lambda>_. []) sample_event @ [CHR 10]) sample_opened"

lemma sample_holds:
  "stream_holds (\<lambda>_. []) (\<lambda>_. ''h'') ''f'' sample_uid 0 [] [] sample_opened"
  "stream_holds (\<lambda>_. []) (\<lambda>_. ''h'') ''f'' sample_uid 0 [stored sample_event] [] sample_grown"
proof -
  have "uuid_text sample_uid" by code_simp
  then show h: "stream_holds (\<lambda>_. []) (\<lambda>_. ''h'') ''f'' sample_uid 0 [] [] sample_opened"
    by (auto simp: stream_holds_def sample_opened_def log_text_def intro!: exI [of _ "[]"])
  have "stream_holds (\<lambda>_. []) (\<lambda>_. ''h'') ''f'' sample_uid 0 ([] @ [stored sample_event]) [] sample_grown"
    unfolding sample_grown_def
    by (rule holds_append_line [OF h floats_ok_none, of "[(''event'', PStr ''RUN_STARTED'')]"])
      (simp_all add: record_ok_def identity_keys_Nil sample_event_def)
  then show "stream_holds (\<lambda>_. []) (\<lambda>_. ''h'') ''f'' sample_uid 0 [stored sample_event] [] sample_grown" by simp
qed

lemma sample_reader: "es_fingerprint (new_stream ''f'' (Some sample_uid)) = ''f''"
  "es_expected (new_stream ''f'' (Some sample_uid)) = None \<or> es_expected (new_stream ''f'' (Some sample_uid)) = Some sample_uid"
  by (simp_all add: new_stream_def)

theorem event_pages_seamless_witness:
  "follow_pages (\<lambda>_. []) (\<lambda>_. ''h'') (new_stream ''f'' (Some sample_uid)) None [(1, sample_opened), (5, sample_grown)] =
   Inr [stored sample_event]"
proof -
  have v: "list_all2 (visit_ok (\<lambda>_. []) (\<lambda>_. ''h'') ''f'' sample_uid) [(1, sample_opened), (5, sample_grown)]
      [[], [stored sample_event]]"
    using sample_holds by (auto simp: visit_ok_def)
  have "sorted_wrt prefix [[], [stored sample_event]]" "[[], [stored sample_event]] \<noteq> []" by simp_all
  from event_pages_seamless [OF floats_ok_none sample_reader v this] show ?thesis by simp
qed

lemma sample_page: "\<exists>page. read_events (\<lambda>_. []) (\<lambda>_. ''h'') None 5 (new_stream ''f'' (Some sample_uid)) sample_grown = Inr page \<and>
    pg_events page = [stored sample_event]"
proof -
  have "cursor_position sample_uid (int (length [stored sample_event])) None = Inr (int 0)"
    by (simp add: cursor_position_def)
  from read_holds [OF floats_ok_none sample_holds(2) sample_reader _ _ this, of 5] show ?thesis by simp
qed


definition sample_denied_system :: "authority stream_system" where
  "sample_denied_system = (start_stream ''f'' None sample_grown (deny fresh_authority))"

theorem denied_runtime_publishes_nothing_witness:
  "sy_disk (run_stream (\<lambda>_. []) (\<lambda>_. ''h'') (check_authority None (sample_boundary ''publish_event'')) fresh_authority
     [Call (sample_emit ''RUN_FINISHED'')] sample_denied_system) = sample_grown"
proof -
  have "au_lost (sy_check sample_denied_system)" "sy_disk sample_denied_system = sample_grown"
    by (simp_all add: sample_denied_system_def start_stream_def deny_def latch_def ask_shutdown_def terminate_launchers_def)
  with denied_runtime_publishes_nothing [OF this(1), of "[Call (sample_emit ''RUN_FINISHED'')]" "\<lambda>_. []" "\<lambda>_. ''h''" None
      "sample_boundary ''publish_event''" fresh_authority]
  show ?thesis by simp
qed

end
