(* ===== verification/Spec2Isabelle.thy ===== *)
theory Spec2Isabelle
  imports Coordinator ControllerLedger WorkflowPipeline RuntimeState AttemptReuse Capabilities EventHistory
begin

text \<open>
  A verification library for QRAFT, a declarative orchestrator of scientific HPC campaigns
  (Python package \<open>src/qraft/\<close>).

  \<^bold>\<open>The program.\<close> A workflow definition is parsed and compiled into a task graph
  (\<open>workflows/parser.py\<close>, \<open>resolver.py\<close>, \<open>compiler.py\<close>, \<open>diagnostics.py\<close>, over the value classes of
  \<open>contracts/\<close>). The graph is written into a hash-bound lock and loaded again where it is executed
  (\<open>contracts/workflow.py\<close>, \<open>contracts/run.py\<close>, \<open>workflows/lock_loader.py\<close>). The runtime
  (\<open>execution/capability_runtime.py\<close>) resolves a capability of a registered plugin for each task
  (\<open>contracts/plugins.py\<close>), leases resources from a coordinator (\<open>execution/resource_coordinator.py\<close>),
  launches the tasks that are ready on worker threads, stages and closes their attempts in files, keeps
  its state in a snapshot and a journal, publishes events to a native event stream
  (\<open>execution/event_stream.py\<close>), and asks an authority before each step that others can see
  (\<open>execution/authority.py\<close>). After a crash it recovers from the files. A task may be a controller that
  launches work of its own inside a reservation and accounts for it in a ledger
  (\<open>execution/controller_ledger.py\<close>, \<open>controller_contracts.py\<close>, \<open>controller_reservation.py\<close>).

  \<^bold>\<open>Conventions.\<close> A function that may raise returns \<open>Inl\<close> of the exception or \<open>Inr\<close> of its
  value (\<open>res\<close>, with \<open>rbind\<close> and \<open>map_res\<close>); a method returns its object updated. Python's untyped
  values are \<open>pyval\<close> (JSON values) and \<open>pyobj\<close> (what \<open>canonical_primitive\<close> accepts); a dictionary is
  the list of its items in insertion order; integers are unbounded, as Python's are. Texts are lists of
  bytes, and the case and blank tests are those of ASCII. Floats are exact rationals: rounding is not
  modelled.

  \<^bold>\<open>Parameters.\<close> \<open>sha\<close> stands for \<open>hashlib.sha256(...).hexdigest()\<close> and \<open>fr\<close> for \<open>repr\<close> of a
  float; what a theorem needs of them (no collision on the values at hand, hexadecimal digests,
  \<open>repr\<close> reads back) is a named premise. The file system is an explicit map from paths to contents;
  clocks, fresh identifiers, host names, the answers of capabilities, launchers and of the authority's
  verifier are arguments. The order of a run is a sequence of steps of the main thread and the workers,
  and the theorems hold for every sequence.

  \<^bold>\<open>Theories.\<close>
  \<^item> \<open>Prelude\<close>: exceptions, results, Python values, text and dictionary operations, and the locale
    \<open>write_once\<close> of directories that never rebind a name.
  \<^item> \<open>LeaseAuthority\<close>, \<open>Coordinator\<close>: the interface a client of the coordinator relies on, and
    \<open>ResourceCoordinator\<close> with its proof that no CPU, node, step or host is given twice.
  \<^item> \<open>Versioning\<close>, \<open>Serialization\<close>, \<open>Json\<close>, \<open>Base64\<close>: identifiers and versions, canonical JSON
    (the text determines the value), the envelope with its checksum, and the JSON reader and base 64
    codec of the standard library as inverses of the encoders.
  \<^item> \<open>Artifacts\<close>, \<open>Validation\<close>, \<open>WorkflowContract\<close>: the value classes of \<open>contracts/\<close> with their
    checks; an accepted \<open>CompiledWorkflow\<close> is a topologically ordered graph.
  \<^item> \<open>WorkflowParser\<close>, \<open>WorkflowResolver\<close>, \<open>WorkflowLock\<close>, \<open>WorkflowPipeline\<close>: from the definition
    to the lock and back; the last theory composes the stages.
  \<^item> \<open>Plugins\<close>, \<open>Capabilities\<close>, \<open>Adapters\<close>: the registries, the built-in capabilities, the generic
    command, and the runtime fingerprint, which determines the plan.
  \<^item> \<open>CoreRuntime\<close>, \<open>ControllerReservation\<close>: the value classes of \<open>core/runtime.py\<close>, reservations and
    the requests the runtime makes of them.
  \<^item> \<open>RuntimeJournal\<close>, \<open>RuntimeState\<close>: the snapshot and the journal with crashes between the writes,
    and the refinement of the records the loop works with by the JSON state that is stored.
  \<^item> \<open>Scheduler\<close>, \<open>SchedulerProofs\<close>, \<open>SchedulerLiveness\<close>: the loop of \<open>run()\<close> interleaved with its
    workers and with shutdown requests; safety and capacity of every reachable state; termination by a
    measure, a bound on the steps, and an ended state reachable from everywhere.
  \<^item> \<open>Recovery\<close>, \<open>AttemptFiles\<close>, \<open>AttemptEvidence\<close>, \<open>AttemptReuse\<close>: the recovery passes, staging,
    closing and re-accepting an attempt, and the two composed: what recovery keeps as completed has
    its evidence on disk.
  \<^item> \<open>RuntimeAuthority\<close>, \<open>EventStream\<close>, \<open>EventStreamProofs\<close>, \<open>EventHistory\<close>: the authority check as
    steps of concurrent threads, and the event stream on the bytes of its files with interruptions
    inside every write. The locale \<open>publisher\<close> is what the stream assumes of the check; the
    runtime's check interprets it.
  \<^item> \<open>ControllerContracts\<close>, \<open>ControllerLedger\<close>: ledger entries and their schema, and the evaluator
    over all attempts.
  \<^bold>\<open>Interfaces.\<close> \<open>lease_authority\<close> is interpreted by the coordinator, \<open>write_once\<close> by the adapter
  registry, the capabilities and the plugins, \<open>publisher\<close> by the runtime's authority.

  \<^bold>\<open>Bounds and fuel.\<close> No definition takes fuel. The topological sort, the JSON reader, the line
  splitter and the recovery passes are functions with a termination proof; the length tests the reader
  carries for that proof are shown never to fail. The bound of \<open>scheduler_run_bound\<close> is explicit in the
  number of tasks and of idle polls.

  \<^bold>\<open>Not modelled.\<close> The command line, the authoring and scaffolding services, the protocols and the
  SIESTA engine (scientific rules about files the engine reads and writes), the legacy allocation
  controller, packaging and remote probes, reports, and the validation scripts under
  \<open>remote_validation/\<close>: they are outside the core that decides what runs, when, and what counts as
  evidence. Inside the modelled files: reading and writing of bytes beyond the explicit maps,
  directories and symbolic links, the processes behind launchers and supervisors, an abort of the
  loop by a lost authority, and the JSON Schema library.
\<close>

end
